(* ===== verification/Prelude.thy ===== *)
theory Prelude
  imports Main "HOL-Library.Word"
begin

text \<open>
  What every component of the model shares: the names of the machine types, the result type
  in which a failed assertion, an invalid memory access or a loop that never ends is a value,
  the total-correctness judgement \<open>returns\<close> over results, the loop combinator, and
  list lemmas about copying a run of cells into a block.
\<close>

section \<open>Machine types\<close>

type_synonym u8 = "8 word"
type_synonym u16 = "16 word"
type_synonym u32 = "32 word"

text \<open>
  A memory cell holds a byte or, where the program never stored one (memory fresh from
  \<open>malloc\<close>, an uninitialised array), the indeterminate value \<open>None\<close>.
\<close>

type_synonym cell = "u8 option"

text \<open>
  \<open>size_t\<close> is 64 bits wide. Sizes and offsets are natural numbers, and every arithmetic
  operation the source does on them is written with its wrap-around.
\<close>

abbreviation size_t_range :: nat where
  "size_t_range \<equiv> 18446744073709551616"

definition size_add :: "nat \<Rightarrow> nat \<Rightarrow> nat" where
  "size_add a b = (a + b) mod size_t_range"

definition size_mul :: "nat \<Rightarrow> nat \<Rightarrow> nat" where
  "size_mul a b = (a * b) mod size_t_range"

definition size_sub :: "nat \<Rightarrow> nat \<Rightarrow> nat" where
  "size_sub a b = (a + (size_t_range - b mod size_t_range)) mod size_t_range"

lemma size_t_range_eq: "size_t_range = 2 ^ 64"
  by simp

lemma size_add_small [simp]: "a + b < size_t_range \<Longrightarrow> size_add a b = a + b"
  by (simp add: size_add_def)

lemma size_mul_small [simp]: "a * b < size_t_range \<Longrightarrow> size_mul a b = a * b"
  by (simp add: size_mul_def)

lemma size_sub_small [simp]:
  assumes "b \<le> a" "a < size_t_range"
  shows "size_sub a b = a - b"
proof -
  from assms have "b mod size_t_range = b" by simp
  with assms have "a + (size_t_range - b mod size_t_range) = (a - b) + size_t_range"
    by linarith
  moreover have "(a - b + size_t_range) mod size_t_range = a - b"
    using assms by (simp only: mod_add_self2) simp
  ultimately show ?thesis by (simp only: size_sub_def)
qed

lemma unat_u8_less: "unat (b :: u8) < 256"
  by (rule order_less_le_trans [OF unsigned_less]) simp

lemma unat_u16_less: "unat (x :: u16) < 65536"
  by (rule order_less_le_trans [OF unsigned_less]) simp

lemma unat_u32_less: "unat (x :: u32) < 4294967296"
  by (rule order_less_le_trans [OF unsigned_less]) simp

section \<open>Results\<close>

text \<open>
  How a C function can fail to return. \<open>Assert_failed\<close>: an \<open>assert\<close> of the source
  (they are compiled in). \<open>Bad_access\<close>: a load, store or copy outside a live object,
  \<open>Indeterminate\<close>: the value of a byte that was never stored is used, \<open>Bad_free\<close>:
  \<open>free\<close> of something \<open>malloc\<close> did not return or that is already freed,
  \<open>Div_by_zero\<close>, \<open>Bad_conversion\<close> of a floating-point number to an integer type
  that cannot hold it: all undefined behaviour. \<open>Hang\<close>: a loop that never ends.
\<close>

datatype fault =
    Assert_failed
  | Bad_access
  | Indeterminate
  | Bad_free
  | Div_by_zero
  | Bad_conversion
  | Hang

type_synonym 'a result = "fault + 'a"

definition bind_res :: "'a result \<Rightarrow> ('a \<Rightarrow> 'b result) \<Rightarrow> 'b result" where
  "bind_res m f = (case m of Inl e \<Rightarrow> Inl e | Inr x \<Rightarrow> f x)"

definition assert_that :: "bool \<Rightarrow> unit result" where
  "assert_that c = (if c then Inr () else Inl Assert_failed)"

lemma bind_res_simps [simp]:
  "bind_res (Inl e) f = Inl e"
  "bind_res (Inr x) f = f x"
  by (simp_all add: bind_res_def)

lemma assert_that_simps [simp]:
  "assert_that True = Inr ()"
  "assert_that False = Inl Assert_failed"
  by (simp_all add: assert_that_def)

lemma bind_res_assoc: "bind_res (bind_res m f) g = bind_res m (\<lambda>x. bind_res (f x) g)"
  by (cases m) auto

lemma bind_res_cong [fundef_cong]:
  "m = m' \<Longrightarrow> (\<And>x. m' = Inr x \<Longrightarrow> f x = g x) \<Longrightarrow> bind_res m f = bind_res m' g"
  by (cases m') auto

lemma bind_res_eq_Inr: "bind_res m f = Inr y \<longleftrightarrow> (\<exists>x. m = Inr x \<and> f x = Inr y)"
  by (cases m) auto

lemma bind_res_eq_Inl: "bind_res m f = Inl e \<longleftrightarrow> m = Inl e \<or> (\<exists>x. m = Inr x \<and> f x = Inl e)"
  by (cases m) auto

section \<open>Total correctness\<close>

text \<open>\<open>returns m Q\<close>: the computation returns, and its result satisfies \<open>Q\<close>.\<close>

definition returns :: "'a result \<Rightarrow> ('a \<Rightarrow> bool) \<Rightarrow> bool" where
  "returns m Q \<longleftrightarrow> (case m of Inl e \<Rightarrow> False | Inr x \<Rightarrow> Q x)"

lemma returns_simps [simp]:
  "returns (Inr x) Q \<longleftrightarrow> Q x"
  "returns (Inl e) Q \<longleftrightarrow> False"
  "returns (bind_res m f) Q \<longleftrightarrow> returns m (\<lambda>x. returns (f x) Q)"
  "returns (assert_that c) P \<longleftrightarrow> c \<and> P ()"
proof -
  show "returns (bind_res m f) Q \<longleftrightarrow> returns m (\<lambda>x. returns (f x) Q)"
    by (cases m) (simp_all add: returns_def)
qed (auto simp: returns_def assert_that_def)

lemma returns_if [simp]:
  "returns (if c then m else m') Q \<longleftrightarrow> (c \<longrightarrow> returns m Q) \<and> (\<not> c \<longrightarrow> returns m' Q)"
  by simp

lemma returns_mono: "returns m P \<Longrightarrow> (\<And>x. P x \<Longrightarrow> Q x) \<Longrightarrow> returns m Q"
  by (cases m) auto

lemma returns_iff: "returns m Q \<longleftrightarrow> (\<exists>x. m = Inr x \<and> Q x)"
  by (cases m) auto

lemma returnsE: "returns m Q \<Longrightarrow> (\<And>x. m = Inr x \<Longrightarrow> Q x \<Longrightarrow> R) \<Longrightarrow> R"
  by (auto simp: returns_iff)

lemma returns_bindI:
  "returns m P \<Longrightarrow> (\<And>x. P x \<Longrightarrow> returns (f x) Q) \<Longrightarrow> returns (bind_res m f) Q"
  by (cases m) auto

section \<open>Loops\<close>

text \<open>
  A \<open>while\<close> loop whose termination depends on the state: the body either goes round again
  with a new state (\<open>Inl\<close>) or leaves the loop with a value (\<open>Inr\<close>). The fuel bounds the
  number of rounds; running out of it is \<open>Hang\<close>. \<open>loop_fuel_mono\<close> shows that the
  fuel does not change a result, \<open>loop_returns\<close> that a decreasing measure is enough fuel, and
  \<open>loop_hangs\<close> that a body which always goes round again hangs with every fuel.
\<close>

fun loop :: "nat \<Rightarrow> ('s \<Rightarrow> ('s + 'r) result) \<Rightarrow> 's \<Rightarrow> 'r result" where
  "loop 0 body s = Inl Hang"
| "loop (Suc n) body s = bind_res (body s) (\<lambda>x.
     case x of Inl s' \<Rightarrow> loop n body s' | Inr r \<Rightarrow> Inr r)"

lemma loop_fuel_mono:
  "loop n body s \<noteq> Inl Hang \<Longrightarrow> n \<le> m \<Longrightarrow> loop m body s = loop n body s"
proof (induction n arbitrary: s m)
  case 0
  then show ?case by simp
next
  case (Suc n)
  then obtain k where "m = Suc k" and "n \<le> k" by (cases m) auto
  have IH: "loop k body s' = loop n body s'" if "loop n body s' \<noteq> Inl Hang" for s'
    using that \<open>n \<le> k\<close> by (rule Suc.IH)
  from Suc.prems(1) \<open>m = Suc k\<close> show ?case
    by (cases "body s") (auto split: sum.split simp: IH)
qed

lemma loop_returns:
  assumes "I s" and "f s < n"
    and step: "\<And>s. I s \<Longrightarrow> returns (body s) (\<lambda>x.
           case x of Inl s' \<Rightarrow> I s' \<and> f s' < f s | Inr r \<Rightarrow> Q r)"
  shows "returns (loop n body s) Q"
  using assms(1,2)
proof (induction n arbitrary: s)
  case 0
  then show ?case by simp
next
  case (Suc n)
  from step [OF Suc.prems(1)] obtain x where x: "body s = Inr x"
    and post: "case x of Inl s' \<Rightarrow> I s' \<and> f s' < f s | Inr r \<Rightarrow> Q r"
    by (auto simp: returns_iff)
  show ?case
  proof (cases x)
    case (Inl s')
    with post Suc.prems(2) have "returns (loop n body s') Q"
      by (intro Suc.IH) auto
    with x Inl show ?thesis by simp
  next
    case (Inr r)
    with x post show ?thesis by simp
  qed
qed

lemma loop_hangs:
  assumes "I s" and "\<And>s. I s \<Longrightarrow> \<exists>s'. body s = Inr (Inl s') \<and> I s'"
  shows "loop n body s = Inl Hang"
  using assms(1)
proof (induction n arbitrary: s)
  case 0
  then show ?case by simp
next
  case (Suc n)
  then show ?case using assms(2) [of s] by auto
qed

section \<open>Runs of cells inside a block\<close>

text \<open>\<open>overlay off xs cs\<close>: the block \<open>cs\<close> after \<open>xs\<close> was copied to offset \<open>off\<close>.\<close>

definition overlay :: "nat \<Rightarrow> 'a list \<Rightarrow> 'a list \<Rightarrow> 'a list" where
  "overlay off xs cs = take off cs @ xs @ drop (off + length xs) cs"

lemma length_overlay [simp]: "off + length xs \<le> length cs \<Longrightarrow> length (overlay off xs cs) = length cs"
  by (simp add: overlay_def)

lemma nth_overlay:
  "off + length xs \<le> length cs \<Longrightarrow> i < length cs \<Longrightarrow>
   overlay off xs cs ! i = (if off \<le> i \<and> i < off + length xs then xs ! (i - off) else cs ! i)"
  by (auto simp: overlay_def nth_append min_def)

lemma overlay_all [simp]: "length xs = length cs \<Longrightarrow> overlay 0 xs cs = xs"
  by (simp add: overlay_def)

lemma overlay_Nil [simp]: "overlay off [] cs = cs"
  by (simp add: overlay_def)

lemma take_drop_overlay [simp]:
  "off + length xs \<le> length cs \<Longrightarrow> take (length xs) (drop off (overlay off xs cs)) = xs"
  by (simp add: overlay_def min_def)

lemma take_overlay_before [simp]: "n \<le> off \<Longrightarrow> off \<le> length cs \<Longrightarrow> take n (overlay off xs cs) = take n cs"
  by (simp add: overlay_def min_def)

lemma overlay_overlay_adjacent:
  "off + length xs + length ys \<le> length cs \<Longrightarrow>
   overlay (off + length xs) ys (overlay off xs cs) = overlay off (xs @ ys) cs"
  by (simp add: overlay_def ac_simps)

lemma overlay_extend:
  "j = length xs \<Longrightarrow> length xs + length ys \<le> length cs \<Longrightarrow>
   overlay j ys (overlay 0 xs cs) = overlay 0 (xs @ ys) cs"
  using overlay_overlay_adjacent [of 0 xs ys cs] by simp

lemma overlay_front: "length xs \<le> length cs \<Longrightarrow> take (length xs) (overlay 0 xs cs) = xs"
  using take_drop_overlay [of 0 xs cs] by simp

section \<open>Runs of operations\<close>

text \<open>\<open>ends F m Q\<close>: the computation returns with \<open>Q\<close>, or fails in one of the ways \<open>F\<close>.\<close>

definition ends :: "fault set \<Rightarrow> 'a result \<Rightarrow> ('a \<Rightarrow> bool) \<Rightarrow> bool" where
  "ends F m Q \<longleftrightarrow> (case m of Inl e \<Rightarrow> e \<in> F | Inr x \<Rightarrow> Q x)"

lemma ends_simps [simp]:
  "ends F (Inr x) Q \<longleftrightarrow> Q x"
  "ends F (Inl e) Q \<longleftrightarrow> e \<in> F"
  "ends F (bind_res m f) Q \<longleftrightarrow> ends F m (\<lambda>x. ends F (f x) Q)"
proof -
  show "ends F (bind_res m f) Q \<longleftrightarrow> ends F m (\<lambda>x. ends F (f x) Q)"
    by (cases m) (simp_all add: ends_def)
qed (auto simp: ends_def)

lemma ends_mono: "ends F m P \<Longrightarrow> (\<And>x. P x \<Longrightarrow> Q x) \<Longrightarrow> ends F m Q"
  by (cases m) auto

lemma returns_ends: "returns m Q \<Longrightarrow> ends F m Q"
  by (cases m) auto

lemma ends_returns: "ends {} m Q \<longleftrightarrow> returns m Q"
  by (cases m) auto

text \<open>
  The interface of an object that a client drives through a fixed set of calls: \<open>step c s\<close>
  performs call \<open>c\<close>, and \<open>inv\<close> is what its implementation keeps true between calls for the
  calls the client may make. Every run then stays inside the invariant, and ends in no way but
  by returning or by one of the faults the object admits.
\<close>

fun run :: "('c \<Rightarrow> 's \<Rightarrow> 's result) \<Rightarrow> 'c list \<Rightarrow> 's \<Rightarrow> 's result" where
  "run step [] s = Inr s"
| "run step (c # cs) s = bind_res (step c s) (run step cs)"

locale guarded_object =
  fixes step :: "'c \<Rightarrow> 's \<Rightarrow> 's result"
    and inv :: "'s \<Rightarrow> bool"
    and allowed :: "'c \<Rightarrow> bool"
    and faults :: "fault set"
  assumes step_ends: "inv s \<Longrightarrow> allowed c \<Longrightarrow> ends faults (step c s) inv"
begin

lemma run_ends:
  "inv s \<Longrightarrow> list_all allowed cs \<Longrightarrow> ends faults (run step cs s) inv"
proof (induction cs arbitrary: s)
  case Nil
  then show ?case by simp
next
  case (Cons c cs)
  then show ?case
    by (auto intro: ends_mono [OF step_ends])
qed

end

end
