(* ===== verification/Memory.thy ===== *)
theory Memory
  imports Prelude
begin

text \<open>
  The C objects the program allocates and points into: pointers as a block and an offset,
  the heap as a map from blocks to cells, and the part of the C library the source uses on
  them (\<open>malloc\<close>, \<open>free\<close>, \<open>memcpy\<close>, \<open>memset\<close> and byte loads). Every access outside a
  live block is the fault \<open>Bad_access\<close>. \<open>malloc\<close> may fail: \<open>oom\<close> says which allocations
  do. The heap also records the byte order of the machine.
\<close>

section \<open>Pointers\<close>

datatype ptr = Null | Ptr nat nat

text \<open>Only pointers into one block are comparable, by their offsets.\<close>

instantiation ptr :: order
begin

fun less_eq_ptr :: "ptr \<Rightarrow> ptr \<Rightarrow> bool" where
  "less_eq_ptr Null q \<longleftrightarrow> q = Null"
| "less_eq_ptr (Ptr b i) Null \<longleftrightarrow> False"
| "less_eq_ptr (Ptr b i) (Ptr c j) \<longleftrightarrow> b = c \<and> i \<le> j"

definition less_ptr :: "ptr \<Rightarrow> ptr \<Rightarrow> bool" where
  "less_ptr p q \<longleftrightarrow> p \<le> q \<and> \<not> q \<le> p"

instance
proof
  fix p q r :: ptr
  show "p < q \<longleftrightarrow> p \<le> q \<and> \<not> q \<le> p" by (rule less_ptr_def)
  show "p \<le> p" by (cases p) auto
  show "p \<le> q \<Longrightarrow> q \<le> r \<Longrightarrow> p \<le> r" by (cases p; cases q; cases r) auto
  show "p \<le> q \<Longrightarrow> q \<le> p \<Longrightarrow> p = q" by (cases p; cases q) auto
qed

end

lemma less_ptr_simps [simp]:
  "Ptr b i < Ptr c j \<longleftrightarrow> b = c \<and> i < j"
  "p < Null \<longleftrightarrow> False"
  "Null < p \<longleftrightarrow> False"
  by (cases p; auto simp: less_ptr_def)+

fun ptr_add :: "ptr \<Rightarrow> nat \<Rightarrow> ptr" where
  "ptr_add Null n = Null"
| "ptr_add (Ptr b i) n = Ptr b (i + n)"

section \<open>The heap\<close>

record heap =
  blocks :: "nat \<Rightarrow> cell list option"
  next_block :: nat
  oom :: "nat \<Rightarrow> bool"
  big_endian :: bool

definition malloc :: "nat \<Rightarrow> 'a heap_scheme \<Rightarrow> ptr \<times> 'a heap_scheme" where
  "malloc n h =
     (let b = next_block h; h = h\<lparr>next_block := Suc b\<rparr> in
      if oom h b then (Null, h)
      else (Ptr b 0, h\<lparr>blocks := (blocks h)(b := Some (replicate n None))\<rparr>))"

definition free_ptr :: "ptr \<Rightarrow> 'a heap_scheme \<Rightarrow> 'a heap_scheme result" where
  "free_ptr p h = (case p of
       Null \<Rightarrow> Inr h
     | Ptr b i \<Rightarrow>
         if i = 0 \<and> blocks h b \<noteq> None then Inr (h\<lparr>blocks := (blocks h)(b := None)\<rparr>)
         else Inl Bad_free)"

definition read_cells :: "ptr \<Rightarrow> nat \<Rightarrow> 'a heap_scheme \<Rightarrow> cell list result" where
  "read_cells p n h =
     (if n = 0 then Inr []
      else case p of
        Null \<Rightarrow> Inl Bad_access
      | Ptr b i \<Rightarrow> (case blocks h b of
            None \<Rightarrow> Inl Bad_access
          | Some cs \<Rightarrow> if i + n \<le> length cs then Inr (take n (drop i cs)) else Inl Bad_access))"

definition write_cells :: "ptr \<Rightarrow> cell list \<Rightarrow> 'a heap_scheme \<Rightarrow> 'a heap_scheme result" where
  "write_cells p xs h =
     (if xs = [] then Inr h
      else case p of
        Null \<Rightarrow> Inl Bad_access
      | Ptr b i \<Rightarrow> (case blocks h b of
            None \<Rightarrow> Inl Bad_access
          | Some cs \<Rightarrow>
              if i + length xs \<le> length cs
              then Inr (h\<lparr>blocks := (blocks h)(b := Some (overlay i xs cs))\<rparr>)
              else Inl Bad_access))"

text \<open>The value of a cell that was never stored must not be used.\<close>

definition determinate :: "cell list \<Rightarrow> u8 list result" where
  "determinate cs = (if list_all (\<lambda>c. c \<noteq> None) cs then Inr (map the cs) else Inl Indeterminate)"

definition read_bytes :: "ptr \<Rightarrow> nat \<Rightarrow> 'a heap_scheme \<Rightarrow> u8 list result" where
  "read_bytes p n h = bind_res (read_cells p n h) determinate"

definition read_byte :: "ptr \<Rightarrow> 'a heap_scheme \<Rightarrow> u8 result" where
  "read_byte p h = bind_res (read_bytes p 1 h) (\<lambda>bs. Inr (hd bs))"

definition memcpy :: "ptr \<Rightarrow> ptr \<Rightarrow> nat \<Rightarrow> 'a heap_scheme \<Rightarrow> 'a heap_scheme result" where
  "memcpy dst src n h = bind_res (read_cells src n h) (\<lambda>cs. write_cells dst cs h)"

text \<open>Copying into and out of a local array, which is a value of the model.\<close>

definition array_write :: "nat \<Rightarrow> cell list \<Rightarrow> cell list \<Rightarrow> cell list result" where
  "array_write i xs a = (if i + length xs \<le> length a then Inr (overlay i xs a) else Inl Bad_access)"

definition array_read :: "nat \<Rightarrow> nat \<Rightarrow> cell list \<Rightarrow> cell list result" where
  "array_read i n a = (if i + n \<le> length a then Inr (take n (drop i a)) else Inl Bad_access)"

section \<open>Lemmas\<close>

lemma determinate_Some [simp]: "determinate (map Some bs) = Inr bs"
  by (simp add: determinate_def list_all_iff comp_def)

lemma read_cells_block:
  "blocks h b = Some cs \<Longrightarrow> i + n \<le> length cs \<Longrightarrow>
   read_cells (Ptr b i) n h = Inr (take n (drop i cs))"
  by (simp add: read_cells_def)

lemma read_bytes_block:
  "blocks h b = Some cs \<Longrightarrow> i + n \<le> length cs \<Longrightarrow> take n (drop i cs) = map Some bs \<Longrightarrow>
   read_bytes (Ptr b i) n h = Inr bs"
  by (simp add: read_bytes_def read_cells_block)

lemma read_byte_block:
  assumes "blocks h b = Some cs" "i < length cs" "cs ! i = Some v"
  shows "read_byte (Ptr b i) h = Inr v"
proof -
  from assms have "take 1 (drop i cs) = map Some [v]"
    by (simp add: take_Suc_conv_app_nth [of 0 "drop i cs", simplified])
  with assms have "read_bytes (Ptr b i) 1 h = Inr [v]"
    by (intro read_bytes_block) auto
  then show ?thesis by (simp add: read_byte_def)
qed

lemma read_bytes_read_cells: "read_bytes p n h = Inr bs \<Longrightarrow> read_cells p n h = Inr (map Some bs)"
proof -
  have "determinate cs = Inr bs \<Longrightarrow> cs = map Some bs" for cs
    by (auto simp: determinate_def list_all_iff comp_def map_idI split: if_splits)
  then show "read_bytes p n h = Inr bs \<Longrightarrow> read_cells p n h = Inr (map Some bs)"
    by (auto simp: read_bytes_def bind_res_eq_Inr)
qed

lemma write_cells_block:
  "blocks h b = Some cs \<Longrightarrow> i + length xs \<le> length cs \<Longrightarrow>
   write_cells (Ptr b i) xs h = Inr (h\<lparr>blocks := (blocks h)(b := Some (overlay i xs cs))\<rparr>)"
  by (cases "xs = []") (auto simp: write_cells_def fun_upd_idem)

lemma read_cells_length: "read_cells p n h = Inr cs \<Longrightarrow> length cs = n"
  by (auto simp: read_cells_def split: if_splits ptr.splits option.splits)

lemma read_cells_cong:
  "(\<And>b i. p = Ptr b i \<Longrightarrow> blocks h' b = blocks h b) \<Longrightarrow> read_cells p n h' = read_cells p n h"
  by (cases p) (auto simp: read_cells_def)

lemma read_cells_other [simp]:
  "d \<noteq> b \<Longrightarrow> read_cells (Ptr d i) n (h\<lparr>blocks := (blocks h)(b := x)\<rparr>) = read_cells (Ptr d i) n h"
  by (rule read_cells_cong) auto

lemma free_ptr_block:
  "blocks h b = Some cs \<Longrightarrow> free_ptr (Ptr b 0) h = Inr (h\<lparr>blocks := (blocks h)(b := None)\<rparr>)"
  by (simp add: free_ptr_def)

lemma array_write_ok:
  "i + length xs \<le> length a \<Longrightarrow> array_write i xs a = Inr (overlay i xs a)"
  by (simp add: array_write_def)

text \<open>
  \<open>changes K h h'\<close>: a step that changed at most the blocks in \<open>K\<close> and blocks allocated on the
  way, and nothing else of the state.
\<close>

definition changes :: "nat set \<Rightarrow> 'a heap_scheme \<Rightarrow> 'a heap_scheme \<Rightarrow> bool" where
  "changes K h h' \<longleftrightarrow>
     h' = h\<lparr>blocks := blocks h', next_block := next_block h'\<rparr> \<and> next_block h \<le> next_block h' \<and>
     (\<forall>j. j \<notin> K \<and> j < next_block h \<longrightarrow> blocks h' j = blocks h j)"

lemma changes_refl [simp]: "changes K h h"
  by (simp add: changes_def)

lemma changes_update: "k \<in> K \<Longrightarrow> changes K h (h\<lparr>blocks := (blocks h)(k := x)\<rparr>)"
  by (auto simp: changes_def)

lemma changesD:
  "changes K h h' \<Longrightarrow> j \<notin> K \<Longrightarrow> j < next_block h \<Longrightarrow> blocks h' j = blocks h j"
  "changes K h h' \<Longrightarrow> next_block h \<le> next_block h'"
  by (auto simp: changes_def)

lemma changes_same:
  assumes "changes K h h'"
  shows "oom h' = oom h" "big_endian h' = big_endian h" "heap.more h' = heap.more h"
proof -
  from assms have "h' = h\<lparr>blocks := blocks h', next_block := next_block h'\<rparr>"
    unfolding changes_def by blast
  then show "oom h' = oom h" "big_endian h' = big_endian h" "heap.more h' = heap.more h"
    by (metis heap.select_convs heap.surjective heap.update_convs)+
qed

text \<open>
  The shape of a heap: which blocks are live and how long they are. Stores keep it.
\<close>

definition shape :: "'a heap_scheme \<Rightarrow> (nat \<Rightarrow> nat option) \<times> nat" where
  "shape h = ((\<lambda>b. map_option length (blocks h b)), next_block h)"

lemma shape_store:
  "blocks h k = Some cs \<Longrightarrow> length cs' = length cs \<Longrightarrow>
   shape (h\<lparr>blocks := (blocks h)(k := Some cs')\<rparr>) = shape h"
  by (auto simp: shape_def)

lemma shape_lengths: "shape h' = shape h \<Longrightarrow> map_option length (blocks h' b) = map_option length (blocks h b)"
  unfolding shape_def by (metis prod.inject)

lemma shape_blockD:
  assumes "shape h' = shape h" "blocks h b = Some cs"
  shows "\<exists>cs'. blocks h' b = Some cs' \<and> length cs' = length cs"
  using shape_lengths [OF assms(1), of b] assms(2) by auto

lemma shape_next: "shape h' = shape h \<Longrightarrow> next_block h' = next_block h"
  by (simp add: shape_def)

section \<open>Local arrays\<close>

text \<open>A local array is a block of its own while its scope lasts.\<close>

definition enter_array :: "cell list \<Rightarrow> 'a heap_scheme \<Rightarrow> ptr \<times> 'a heap_scheme" where
  "enter_array cs h = (Ptr (next_block h) 0,
     h\<lparr>blocks := (blocks h)(next_block h := Some cs), next_block := Suc (next_block h)\<rparr>)"

definition leave_array :: "ptr \<Rightarrow> 'a heap_scheme \<Rightarrow> 'a heap_scheme" where
  "leave_array p h = (case p of Null \<Rightarrow> h | Ptr b i \<Rightarrow> h\<lparr>blocks := (blocks h)(b := None)\<rparr>)"

end
