(* ===== verification/Mem_Block.thy ===== *)
theory Mem_Block
  imports Memory
begin

text \<open>
  \<^verbatim>\<open>src/mem/block.h\<close> and \<^verbatim>\<open>src/mem/block.c\<close>: a reference to a run of memory with a size
  and a capacity. The fields \<open>data\<close>, \<open>size\<close> and \<open>capacity\<close> carry the prefix \<open>blk_\<close>.
\<close>

section \<open>Operations\<close>

record MemBlock =
  blk_data :: ptr
  blk_size :: nat
  blk_capacity :: nat

definition mem_block_make :: "ptr \<Rightarrow> nat \<Rightarrow> MemBlock" where
  "mem_block_make data sz = \<lparr>blk_data = data, blk_size = sz, blk_capacity = sz\<rparr>"

definition mem_block_alloc ::
  "nat \<Rightarrow> 'a heap_scheme \<Rightarrow> (MemBlock \<times> 'a heap_scheme) result" where
  "mem_block_alloc initial_capacity h =
     (let (data, h) = (if initial_capacity > 0 then malloc initial_capacity h else (Null, h)) in
      bind_res (assert_that (initial_capacity = 0 \<or> data \<noteq> Null)) (\<lambda>_.
      Inr (\<lparr>blk_data = data, blk_size = 0, blk_capacity = initial_capacity\<rparr>, h)))"

definition mem_block_slice :: "MemBlock \<Rightarrow> nat \<Rightarrow> nat \<Rightarrow> MemBlock result" where
  "mem_block_slice block slice_byte_offset slice_byte_length =
     bind_res (assert_that (size_add slice_byte_offset slice_byte_length \<le> blk_size block)) (\<lambda>_.
     Inr \<lparr>blk_data = ptr_add (blk_data block) slice_byte_offset,
          blk_size = slice_byte_length, blk_capacity = slice_byte_length\<rparr>)"

definition mem_block_resize ::
  "MemBlock \<Rightarrow> nat \<Rightarrow> 'a heap_scheme \<Rightarrow> (MemBlock \<times> 'a heap_scheme) result" where
  "mem_block_resize block new_size h =
     bind_res
       (if blk_capacity block < new_size
        then bind_res (if blk_capacity block > 0 then free_ptr (blk_data block) h else Inr h)
               (mem_block_alloc new_size)
        else Inr (block, h))
       (\<lambda>(block, h). Inr (block\<lparr>blk_size := new_size\<rparr>, h))"

definition mem_block_free ::
  "MemBlock \<Rightarrow> 'a heap_scheme \<Rightarrow> (MemBlock \<times> 'a heap_scheme) result" where
  "mem_block_free block h =
     (if blk_capacity block > 0
      then bind_res (free_ptr (blk_data block) h)
             (\<lambda>h. Inr (block\<lparr>blk_data := Null, blk_size := 0, blk_capacity := 0\<rparr>, h))
      else Inr (block, h))"

section \<open>Well-formed blocks\<close>

text \<open>
  A block that owns its memory: a capacity of 0 goes with no memory, any other capacity with
  a live block of the heap of exactly that length.
\<close>

definition block_ok :: "MemBlock \<Rightarrow> 'a heap_scheme \<Rightarrow> bool" where
  "block_ok block h \<longleftrightarrow>
     blk_size block \<le> blk_capacity block \<and>
     (if blk_capacity block = 0 then True
      else (case blk_data block of
              Null \<Rightarrow> False
            | Ptr b i \<Rightarrow> i = 0 \<and> b < next_block h \<and>
                (case blocks h b of None \<Rightarrow> False | Some cs \<Rightarrow> length cs = blk_capacity block)))"

text \<open>\<open>owned block b n h\<close>: the common case, a live heap block \<open>b\<close> of \<open>n > 0\<close> cells.\<close>

definition owned :: "MemBlock \<Rightarrow> nat \<Rightarrow> nat \<Rightarrow> 'a heap_scheme \<Rightarrow> bool" where
  "owned block b n h \<longleftrightarrow>
     0 < n \<and> blk_data block = Ptr b 0 \<and> blk_capacity block = n \<and> blk_size block \<le> n \<and>
     b < next_block h \<and> (\<exists>cs. blocks h b = Some cs \<and> length cs = n)"

lemma owned_imp_block_ok: "owned block b n h \<Longrightarrow> block_ok block h"
  by (auto simp: owned_def block_ok_def)

lemma block_ok_owned:
  "block_ok block h \<Longrightarrow> 0 < blk_capacity block \<Longrightarrow> \<exists>b. owned block b (blk_capacity block) h"
  by (auto simp: owned_def block_ok_def split: ptr.splits option.splits)

lemma mem_block_alloc_ok:
  assumes "0 < n" "\<not> oom h (next_block h)"
  shows "mem_block_alloc n h =
    Inr (\<lparr>blk_data = Ptr (next_block h) 0, blk_size = 0, blk_capacity = n\<rparr>,
         h\<lparr>blocks := (blocks h)(next_block h := Some (replicate n None)),
           next_block := Suc (next_block h)\<rparr>)"
  using assms by (simp add: mem_block_alloc_def malloc_def Let_def)

lemma mem_block_alloc_0:
  "mem_block_alloc 0 h = Inr (\<lparr>blk_data = Null, blk_size = 0, blk_capacity = 0\<rparr>, h)"
  by (simp add: mem_block_alloc_def)

lemma mem_block_slice_ok:
  "off + len \<le> blk_size block \<Longrightarrow> off + len < size_t_range \<Longrightarrow>
   mem_block_slice block off len =
     Inr \<lparr>blk_data = ptr_add (blk_data block) off, blk_size = len, blk_capacity = len\<rparr>"
  by (simp add: mem_block_slice_def)

lemma mem_block_resize_fits:
  "new_size \<le> blk_capacity block \<Longrightarrow>
   mem_block_resize block new_size h = Inr (block\<lparr>blk_size := new_size\<rparr>, h)"
  by (simp add: mem_block_resize_def)

lemma mem_block_resize_grows:
  assumes "owned block b n h" "n < new_size" "\<not> oom h (next_block h)"
  shows "mem_block_resize block new_size h =
    Inr (\<lparr>blk_data = Ptr (next_block h) 0, blk_size = new_size, blk_capacity = new_size\<rparr>,
         h\<lparr>blocks := (blocks h)(b := None, next_block h := Some (replicate new_size None)),
           next_block := Suc (next_block h)\<rparr>)"
proof -
  from assms(1) obtain cs where cs: "blocks h b = Some cs" "blk_data block = Ptr b 0"
    "blk_capacity block = n" "0 < n" "b < next_block h"
    by (auto simp: owned_def)
  then have "free_ptr (blk_data block) h = Inr (h\<lparr>blocks := (blocks h)(b := None)\<rparr>)"
    by (simp add: free_ptr_block)
  with cs assms show ?thesis
    by (simp add: mem_block_resize_def mem_block_alloc_ok)
qed

lemma mem_block_free_owned:
  "owned block b n h \<Longrightarrow>
   mem_block_free block h =
     Inr (\<lparr>blk_data = Null, blk_size = 0, blk_capacity = 0\<rparr>, h\<lparr>blocks := (blocks h)(b := None)\<rparr>)"
  by (auto simp: owned_def mem_block_free_def free_ptr_block)

lemma owned_other [simp]:
  "b \<noteq> c \<Longrightarrow> owned block b n (h\<lparr>blocks := (blocks h)(c := x)\<rparr>) = owned block b n h"
  "c \<noteq> b \<Longrightarrow> owned block b n (h\<lparr>blocks := (blocks h)(c := x)\<rparr>) = owned block b n h"
  by (simp_all add: owned_def)

lemma owned_shape: "owned block b n h \<Longrightarrow> shape h' = shape h \<Longrightarrow> owned block b n h'"
  using shape_blockD [of h' h b] shape_next [of h' h] unfolding owned_def by auto

lemma owned_block: "owned block b n h \<Longrightarrow> \<exists>cs. blocks h b = Some cs \<and> length cs = n"
  by (simp add: owned_def)

text \<open>The same with the block left open.\<close>

fun block_of :: "ptr \<Rightarrow> nat" where
  "block_of Null = 0"
| "block_of (Ptr b i) = b"

definition owns :: "MemBlock \<Rightarrow> nat \<Rightarrow> 'a heap_scheme \<Rightarrow> bool" where
  "owns block n h \<longleftrightarrow> (\<exists>b. owned block b n h)"

definition live :: "ptr \<Rightarrow> nat \<Rightarrow> 'a heap_scheme \<Rightarrow> bool" where
  "live p n h \<longleftrightarrow> (\<exists>b cs. p = Ptr b 0 \<and> blocks h b = Some cs \<and> length cs = n)"

lemma owns_shape: "owns block n h \<Longrightarrow> shape h' = shape h \<Longrightarrow> owns block n h'"
  unfolding owns_def by (blast intro: owned_shape)

lemma live_shape: "live p n h \<Longrightarrow> shape h' = shape h \<Longrightarrow> live p n h'"
  unfolding live_def by (metis shape_blockD)

end
