(* ===== verification/Entry_Queue.thy ===== *)
theory Entry_Queue
  imports Memory
begin

text \<open>
  The interface between a bounded queue of equally long entries and its client. The client
  owns entry buffers in memory outside the queue and passes pointers to them: \<open>enq p\<close>
  appends a copy of the entry at \<open>p\<close>, \<open>deq p\<close> copies the oldest entry to \<open>p\<close>. The contract is
  the abstract FIFO \<open>view\<close>: what is in the queue, oldest first. The facts a client needs
  (entries come out in the order they went in; a queue accepts exactly as many entries as
  there is room for) are proved here once, from the contract alone.
\<close>

section \<open>Clients: a batch in, a batch out\<close>

fun enq_all :: "(ptr \<Rightarrow> 'q \<Rightarrow> (bool \<times> 'q) result) \<Rightarrow> ptr list \<Rightarrow> 'q \<Rightarrow> (bool \<times> 'q) result" where
  "enq_all enq [] q = Inr (True, q)"
| "enq_all enq (p # ps) q =
     bind_res (enq p q) (\<lambda>(ok, q). if ok then enq_all enq ps q else Inr (False, q))"

fun deq_all :: "(ptr \<Rightarrow> 'q \<Rightarrow> (bool \<times> 'q) result) \<Rightarrow> (ptr \<Rightarrow> 'q \<Rightarrow> cell list option) \<Rightarrow>
    ptr \<Rightarrow> nat \<Rightarrow> 'q \<Rightarrow> (cell list list \<times> 'q) result" where
  "deq_all deq buffer p 0 q = Inr ([], q)"
| "deq_all deq buffer p (Suc k) q =
     bind_res (deq p q) (\<lambda>(ok, q). if ok
       then bind_res (deq_all deq buffer p k q) (\<lambda>(es, q').
              Inr (the (buffer p q) # es, q'))
       else Inr ([], q))"

section \<open>The contract\<close>

locale entry_queue =
  fixes enq :: "ptr \<Rightarrow> 'q \<Rightarrow> (bool \<times> 'q) result"
    and deq :: "ptr \<Rightarrow> 'q \<Rightarrow> (bool \<times> 'q) result"
    and view :: "'q \<Rightarrow> cell list"
    and capacity :: "'q \<Rightarrow> nat"
    and entry_len :: nat
    and buffer :: "ptr \<Rightarrow> 'q \<Rightarrow> cell list option"
    and inv :: "'q \<Rightarrow> bool"
  assumes aligned: "inv q \<Longrightarrow> 0 < entry_len \<and> entry_len dvd length (view q) \<and>
      entry_len dvd capacity q \<and> length (view q) \<le> capacity q"
    and enq_room: "inv q \<Longrightarrow> buffer p q = Some xs \<Longrightarrow> length (view q) + entry_len \<le> capacity q \<Longrightarrow>
      returns (enq p q) (\<lambda>(ok, q'). ok \<and> inv q' \<and> view q' = view q @ xs \<and>
        capacity q' = capacity q \<and> (\<forall>p'. buffer p' q' = buffer p' q))"
    and enq_full: "inv q \<Longrightarrow> capacity q < length (view q) + entry_len \<Longrightarrow> enq p q = Inr (False, q)"
    and deq_some: "inv q \<Longrightarrow> buffer p q = Some ys \<Longrightarrow> entry_len \<le> length (view q) \<Longrightarrow>
      returns (deq p q) (\<lambda>(ok, q'). ok \<and> inv q' \<and> view q' = drop entry_len (view q) \<and>
        capacity q' = capacity q \<and> buffer p q' = Some (take entry_len (view q)))"
    and deq_empty: "inv q \<Longrightarrow> length (view q) < entry_len \<Longrightarrow> deq p q = Inr (False, q)"
    and buffer_len: "buffer p q = Some xs \<Longrightarrow> length xs = entry_len"
begin

lemma enq_ok_iff:
  assumes "inv q" "buffer p q = Some xs"
  shows "returns (enq p q) (\<lambda>(ok, q'). inv q' \<and> capacity q' = capacity q \<and>
    ok = (length (view q) + entry_len \<le> capacity q) \<and>
    view q' = (if ok then view q @ xs else view q))"
  using enq_room [OF assms] enq_full [OF assms(1), of p] assms(1)
  by (cases "length (view q) + entry_len \<le> capacity q") (auto elim!: returns_mono)

lemma enq_all_room:
  assumes "inv q" "map (\<lambda>p. buffer p q) ps = map Some es"
    and "length (view q) + entry_len * length ps \<le> capacity q"
  shows "returns (enq_all enq ps q) (\<lambda>(ok, q'). ok \<and> inv q' \<and> view q' = view q @ concat es \<and>
    capacity q' = capacity q \<and> (\<forall>p'. buffer p' q' = buffer p' q))"
  using assms
proof (induction ps arbitrary: q es)
  case Nil
  then show ?case by simp
next
  case (Cons p ps)
  then obtain e es' where es: "es = e # es'" "buffer p q = Some e"
    "map (\<lambda>p. buffer p q) ps = map Some es'"
    by (cases es) auto
  have "returns (enq p q) (\<lambda>(ok, q'). ok \<and> inv q' \<and> view q' = view q @ e \<and>
        capacity q' = capacity q \<and> (\<forall>p'. buffer p' q' = buffer p' q))"
    using Cons.prems es by (intro enq_room) auto
  then obtain q' where q': "enq p q = Inr (True, q')" "inv q'" "view q' = view q @ e"
      "capacity q' = capacity q" "\<forall>p'. buffer p' q' = buffer p' q"
    by (auto simp: returns_iff)
  have "length e = entry_len" using es(2) by (rule buffer_len)
  with Cons.prems es q' have "returns (enq_all enq ps q') (\<lambda>(ok, q''). ok \<and> inv q'' \<and>
      view q'' = view q' @ concat es' \<and> capacity q'' = capacity q' \<and>
      (\<forall>p'. buffer p' q'' = buffer p' q'))"
    by (intro Cons.IH) auto
  with q' es show ?case by (auto elim!: returns_mono)
qed

lemma deq_all_some:
  assumes "inv q" "buffer p q = Some ys" "view q = concat es @ rest"
    and "list_all (\<lambda>e. length e = entry_len) es"
  shows "returns (deq_all deq buffer p (length es) q) (\<lambda>(out, q').
    out = es \<and> inv q' \<and> view q' = rest \<and> capacity q' = capacity q)"
  using assms
proof (induction es arbitrary: q ys)
  case Nil
  then show ?case by simp
next
  case (Cons e es)
  have "returns (deq p q) (\<lambda>(ok, q'). ok \<and> inv q' \<and> view q' = drop entry_len (view q) \<and>
        capacity q' = capacity q \<and> buffer p q' = Some (take entry_len (view q)))"
    using Cons.prems by (intro deq_some) auto
  then obtain q' where q': "deq p q = Inr (True, q')" "inv q'" "view q' = concat es @ rest"
      "capacity q' = capacity q" "buffer p q' = Some e"
    using Cons.prems(3,4) by (auto simp: returns_iff)
  with Cons.prems have "returns (deq_all deq buffer p (length es) q') (\<lambda>(out, q'').
      out = es \<and> inv q'' \<and> view q'' = rest \<and> capacity q'' = capacity q')"
    by (intro Cons.IH) auto
  with q' show ?case by (auto elim!: returns_mono)
qed

text \<open>Entries come out in the order they went in, behind what was there before.\<close>

lemma first_in_first_out:
  assumes "inv q" "view q = []" "map (\<lambda>p. buffer p q) ps = map Some es"
    and "buffer d q = Some ys" "entry_len * length ps \<le> capacity q"
  shows "returns (bind_res (enq_all enq ps q) (\<lambda>(ok, q). deq_all deq buffer d (length ps) q))
    (\<lambda>(out, q'). out = es \<and> inv q' \<and> view q' = [])"
proof -
  have "returns (enq_all enq ps q) (\<lambda>(ok, q'). ok \<and> inv q' \<and> view q' = view q @ concat es \<and>
      capacity q' = capacity q \<and> (\<forall>p'. buffer p' q' = buffer p' q))"
    using assms by (intro enq_all_room) auto
  then obtain q' where q': "enq_all enq ps q = Inr (True, q')" "inv q'" "view q' = concat es"
      "buffer d q' = Some ys"
    using assms(2,4) by (auto simp: returns_iff)
  have len: "length ps = length es" using assms(3) by (metis length_map)
  have "e \<in> set es \<Longrightarrow> \<exists>p. buffer p q = Some e" for e
    using assms(3) by (metis (no_types, lifting) image_eqI imageE list.set_map)
  then have "list_all (\<lambda>e. length e = entry_len) es"
    by (auto simp: list_all_iff dest: buffer_len)
  with q' have "returns (deq_all deq buffer d (length es) q') (\<lambda>(out, q'').
      out = es \<and> inv q'' \<and> view q'' = [] \<and> capacity q'' = capacity q')"
    by (intro deq_all_some) auto
  with q' len show ?thesis by (auto elim!: returns_mono)
qed

end

end
