(* ===== verification/Mem_Ring.thy ===== *)
theory Mem_Ring
  imports Mem_Block Entry_Queue
begin

text \<open>
  \<^verbatim>\<open>src/mem/ring.h\<close> and \<^verbatim>\<open>src/mem/ring.c\<close>: the byte ring that holds the frames a sink has
  received and not yet shown. The fields \<open>buf\<close>, \<open>front\<close> and \<open>len\<close> carry the prefix
  \<open>ring_\<close>. The second half states the contract of a queue of equally long entries as the
  locale \<open>entry_queue\<close> and interprets it on the ring.
\<close>

section \<open>Operations\<close>

record MemRing =
  ring_buf :: MemBlock
  ring_front :: nat
  ring_len :: nat

definition mem_ring_alloc :: "nat \<Rightarrow> 'a heap_scheme \<Rightarrow> (MemRing \<times> 'a heap_scheme) result" where
  "mem_ring_alloc capacity h =
     bind_res (mem_block_alloc capacity h) (\<lambda>(buf, h).
     Inr (\<lparr>ring_buf = buf\<lparr>blk_size := capacity\<rparr>, ring_front = 0, ring_len = 0\<rparr>, h))"

definition mem_ring_free :: "MemRing \<Rightarrow> 'a heap_scheme \<Rightarrow> (MemRing \<times> 'a heap_scheme) result" where
  "mem_ring_free ring h =
     bind_res (mem_block_free (ring_buf ring) h) (\<lambda>(buf, h).
     Inr (ring\<lparr>ring_buf := buf, ring_front := 0, ring_len := 0\<rparr>, h))"

definition mem_ring_is_empty :: "MemRing \<Rightarrow> bool" where
  "mem_ring_is_empty ring \<longleftrightarrow> ring_len ring > 0"

text \<open>\<open>%\<close> on \<open>size_t\<close> values.\<close>

definition size_rem :: "nat \<Rightarrow> nat \<Rightarrow> nat result" where
  "size_rem a b = (if b = 0 then Inl Div_by_zero else Inr (a mod b))"

text \<open>\<open>peek_addr\<close> is written only on success: the result holds its new value.\<close>

definition mem_ring_peek :: "MemRing \<Rightarrow> ptr \<Rightarrow> nat \<Rightarrow> (bool \<times> ptr) result" where
  "mem_ring_peek ring peek_addr peek_len =
     (if ring_len ring < peek_len then Inr (False, peek_addr)
      else bind_res (mem_block_slice (ring_buf ring) (ring_front ring) peek_len) (\<lambda>front_block.
        Inr (True, blk_data front_block)))"

definition mem_ring_dequeue ::
  "MemRing \<Rightarrow> ptr \<Rightarrow> nat \<Rightarrow> 'a heap_scheme \<Rightarrow> (bool \<times> MemRing \<times> 'a heap_scheme) result" where
  "mem_ring_dequeue ring out_buf out_buf_len h =
     (if ring_len ring < out_buf_len then Inr (False, ring, h)
      else bind_res (mem_block_slice (ring_buf ring) (ring_front ring) out_buf_len) (\<lambda>front_block.
        bind_res (size_rem (size_add (ring_front ring) out_buf_len) (blk_size (ring_buf ring)))
        (\<lambda>front.
        let ring = ring\<lparr>ring_front := front, ring_len := size_sub (ring_len ring) out_buf_len\<rparr> in
        bind_res (memcpy out_buf (blk_data front_block) out_buf_len h) (\<lambda>h.
        Inr (True, ring, h)))))"

definition mem_ring_drop :: "MemRing \<Rightarrow> nat \<Rightarrow> (bool \<times> MemRing) result" where
  "mem_ring_drop ring drop_len =
     (if ring_len ring < drop_len then Inr (False, ring)
      else bind_res (size_rem (size_add (ring_front ring) drop_len) (blk_size (ring_buf ring)))
        (\<lambda>front.
        Inr (True, ring\<lparr>ring_front := front, ring_len := size_sub (ring_len ring) drop_len\<rparr>)))"

definition mem_ring_enqueue ::
  "MemRing \<Rightarrow> ptr \<Rightarrow> nat \<Rightarrow> 'a heap_scheme \<Rightarrow> (bool \<times> MemRing \<times> 'a heap_scheme) result" where
  "mem_ring_enqueue ring in_buf in_buf_len h =
     (if blk_size (ring_buf ring) < size_add (ring_len ring) in_buf_len then Inr (False, ring, h)
      else bind_res (size_rem (size_add (ring_front ring) (ring_len ring))
                       (blk_size (ring_buf ring))) (\<lambda>back.
        bind_res (mem_block_slice (ring_buf ring) back in_buf_len) (\<lambda>back_block.
        let ring = ring\<lparr>ring_len := size_add (ring_len ring) in_buf_len\<rparr> in
        bind_res (memcpy (blk_data back_block) in_buf in_buf_len h) (\<lambda>h.
        Inr (True, ring, h)))))"

section \<open>Abstraction and invariant\<close>

text \<open>The cells held, oldest first: \<open>len\<close> cells from \<open>front\<close>, wrapping at the end.\<close>

definition wrapped :: "cell list \<Rightarrow> nat \<Rightarrow> nat \<Rightarrow> cell list" where
  "wrapped cs front len = map (\<lambda>i. cs ! ((front + i) mod length cs)) [0..<len]"

definition storage :: "MemRing \<Rightarrow> 'a heap_scheme \<Rightarrow> cell list" where
  "storage ring h = (case blk_data (ring_buf ring) of
       Null \<Rightarrow> []
     | Ptr b i \<Rightarrow> (case blocks h b of None \<Rightarrow> [] | Some cs \<Rightarrow> cs))"

definition contents :: "MemRing \<Rightarrow> 'a heap_scheme \<Rightarrow> cell list" where
  "contents ring h = wrapped (storage ring h) (ring_front ring) (ring_len ring)"

text \<open>
  The ring is used with entries of one length \<open>n\<close>: its capacity, its front and its length
  stay multiples of \<open>n\<close>, so that no entry ever straddles the end of the block.
\<close>

definition ring_inv :: "nat \<Rightarrow> MemRing \<Rightarrow> 'a heap_scheme \<Rightarrow> bool" where
  "ring_inv n ring h \<longleftrightarrow>
     0 < n \<and>
     (\<exists>b. owned (ring_buf ring) b (blk_size (ring_buf ring)) h) \<and>
     2 * blk_size (ring_buf ring) < size_t_range \<and>
     n dvd blk_size (ring_buf ring) \<and> n dvd ring_front ring \<and> n dvd ring_len ring \<and>
     ring_front ring < blk_size (ring_buf ring) \<and>
     ring_len ring \<le> blk_size (ring_buf ring)"

lemma length_wrapped [simp]: "length (wrapped cs front len) = len"
  by (simp add: wrapped_def)

lemma length_contents [simp]: "length (contents ring h) = ring_len ring"
  by (simp add: contents_def)

lemma contents_empty_iff: "contents ring h = [] \<longleftrightarrow> ring_len ring = 0"
  using length_contents [of ring h] by (metis length_0_conv)

lemma dvd_entry_fits:
  fixes n size front :: nat
  assumes "n dvd size" "n dvd front" "front < size"
  shows "front + n \<le> size"
proof -
  from assms(1,2) obtain k j where "size = n * k" "front = n * j" by (auto elim!: dvdE)
  with assms(3) have "Suc j \<le> k" by auto
  then have "n * Suc j \<le> n * k" by (rule mult_le_mono2)
  with \<open>size = n * k\<close> \<open>front = n * j\<close> show ?thesis by simp
qed

lemma wrapped_take:
  assumes "front + n \<le> length cs" "n \<le> len"
  shows "take n (wrapped cs front len) = take n (drop front cs)"
proof (rule nth_equalityI)
  show "length (take n (wrapped cs front len)) = length (take n (drop front cs))"
    using assms by simp
  fix i assume "i < length (take n (wrapped cs front len))"
  with assms have "i < n" "(front + i) mod length cs = front + i" by auto
  with assms show "take n (wrapped cs front len) ! i = take n (drop front cs) ! i"
    by (simp add: wrapped_def)
qed

lemma wrapped_drop:
  assumes "n \<le> len"
  shows "wrapped cs ((front + n) mod length cs) (len - n) = drop n (wrapped cs front len)"
  using assms by (intro nth_equalityI) (auto simp: wrapped_def mod_add_left_eq add.assoc)

lemma wrapped_index_disjoint:
  fixes front len i j n size :: nat
  assumes "len + n \<le> size" "i < len" "j < n"
  shows "(front + i) mod size \<noteq> (front + len + j) mod size"
proof
  assume "(front + i) mod size = (front + len + j) mod size"
  then have "size dvd (front + len + j) - (front + i)"
    using assms mod_eq_dvd_iff_nat [of "front + i" "front + len + j" size] by simp
  moreover have "0 < (front + len + j) - (front + i)" "(front + len + j) - (front + i) < size"
    using assms by auto
  ultimately show False by (auto dest: dvd_imp_le)
qed

lemma wrapped_append:
  assumes fits: "len + length xs \<le> length cs" "back + length xs \<le> length cs"
    and back_eq: "back = (front + len) mod length cs"
  shows "wrapped (overlay back xs cs) front (len + length xs) = wrapped cs front len @ xs"
proof (cases "xs = []")
  case True
  then show ?thesis by simp
next
  case False
  with fits have pos: "0 < length cs" by auto
  have idx: "(front + len + j) mod length cs = back + j" if "j < length xs" for j
  proof -
    have "(front + len + j) mod length cs = (back + j) mod length cs"
      by (simp add: back_eq mod_add_left_eq)
    with that fits show ?thesis by simp
  qed
  show ?thesis
  proof (rule nth_equalityI)
    show "length (wrapped (overlay back xs cs) front (len + length xs))
        = length (wrapped cs front len @ xs)" by simp
    fix i assume i: "i < length (wrapped (overlay back xs cs) front (len + length xs))"
    show "wrapped (overlay back xs cs) front (len + length xs) ! i
        = (wrapped cs front len @ xs) ! i"
    proof (cases "i < len")
      case True
      have "\<not> (back \<le> (front + i) mod length cs \<and> (front + i) mod length cs < back + length xs)"
      proof
        assume in_run: "back \<le> (front + i) mod length cs \<and>
          (front + i) mod length cs < back + length xs"
        define j where "j = (front + i) mod length cs - back"
        from in_run have "j < length xs" "(front + i) mod length cs = back + j"
          by (auto simp: j_def)
        with idx have "(front + i) mod length cs = (front + len + j) mod length cs" by simp
        with wrapped_index_disjoint [OF fits(1) True \<open>j < length xs\<close>] show False by blast
      qed
      with True fits pos show ?thesis
        by (auto simp: wrapped_def nth_append nth_overlay)
    next
      case False
      define j where "j = i - len"
      from i False have j: "i = len + j" "j < length xs" by (auto simp: j_def)
      with idx fits pos show ?thesis
        by (auto simp: wrapped_def nth_append nth_overlay add.assoc [symmetric])
    qed
  qed
qed

section \<open>What each operation does\<close>

lemma ring_invE:
  assumes "ring_inv n ring h"
  obtains b cs where "blk_data (ring_buf ring) = Ptr b 0" "blocks h b = Some cs"
    "length cs = blk_size (ring_buf ring)" "blk_capacity (ring_buf ring) = blk_size (ring_buf ring)"
    "storage ring h = cs" "b < next_block h" "0 < blk_size (ring_buf ring)"
proof -
  from assms obtain b where "owned (ring_buf ring) b (blk_size (ring_buf ring)) h"
    by (auto simp: ring_inv_def)
  then show ?thesis
    by (auto simp: owned_def storage_def intro: that)
qed

lemma ring_inv_bounds:
  assumes "ring_inv n ring h"
  shows "ring_front ring + n \<le> blk_size (ring_buf ring)"
    and "ring_front ring + ring_len ring < size_t_range"
    and "ring_len ring + n < size_t_range" and "0 < n"
    and "n \<le> blk_size (ring_buf ring)"
proof -
  from assms show fits: "ring_front ring + n \<le> blk_size (ring_buf ring)"
    by (auto simp: ring_inv_def intro: dvd_entry_fits)
  with assms show "ring_front ring + ring_len ring < size_t_range" "ring_len ring + n < size_t_range"
    "0 < n" "n \<le> blk_size (ring_buf ring)"
    by (auto simp: ring_inv_def)
qed

lemma mem_ring_alloc_ok:
  assumes "0 < cap" "\<not> oom h (next_block h)"
  shows "mem_ring_alloc cap h =
    Inr (\<lparr>ring_buf = \<lparr>blk_data = Ptr (next_block h) 0, blk_size = cap, blk_capacity = cap\<rparr>,
           ring_front = 0, ring_len = 0\<rparr>,
         h\<lparr>blocks := (blocks h)(next_block h := Some (replicate cap None)),
           next_block := Suc (next_block h)\<rparr>)"
  using assms by (simp add: mem_ring_alloc_def mem_block_alloc_ok)

lemma ring_inv_fresh:
  "0 < n \<Longrightarrow> n dvd cap \<Longrightarrow> 0 < cap \<Longrightarrow> 2 * cap < size_t_range \<Longrightarrow> b < next_block h \<Longrightarrow>
   blocks h b = Some cs \<Longrightarrow> length cs = cap \<Longrightarrow>
   ring_inv n \<lparr>ring_buf = \<lparr>blk_data = Ptr b 0, blk_size = cap, blk_capacity = cap\<rparr>,
               ring_front = 0, ring_len = 0\<rparr> h"
  by (auto simp: ring_inv_def owned_def)

lemma mem_ring_enqueue_full:
  "blk_size (ring_buf ring) < size_add (ring_len ring) n \<Longrightarrow>
   mem_ring_enqueue ring p n h = Inr (False, ring, h)"
  by (simp add: mem_ring_enqueue_def)

lemma mem_ring_enqueue_room:
  assumes inv: "ring_inv n ring h" and src: "read_cells p n h = Inr xs"
    and room: "ring_len ring + n \<le> blk_size (ring_buf ring)"
    and data: "blk_data (ring_buf ring) = Ptr b 0" and cs: "blocks h b = Some cs"
    and bk: "bk = (ring_front ring + ring_len ring) mod blk_size (ring_buf ring)"
  shows "mem_ring_enqueue ring p n h =
           Inr (True, ring\<lparr>ring_len := ring_len ring + n\<rparr>,
                h\<lparr>blocks := (blocks h)(b := Some (overlay bk xs cs))\<rparr>)"
    and "length xs = n" and "bk + n \<le> length cs" and "length cs = blk_size (ring_buf ring)"
proof -
  let ?size = "blk_size (ring_buf ring)"
  from inv data cs show len_cs: "length cs = ?size" by (auto elim: ring_invE)
  from src show len_xs: "length xs = n" by (rule read_cells_length)
  note bounds = ring_inv_bounds [OF inv]
  have "n dvd bk" "bk < ?size"
    using inv bounds by (auto simp: bk ring_inv_def dvd_mod)
  with inv have fits: "bk + n \<le> ?size"
    by (auto simp: ring_inv_def intro: dvd_entry_fits)
  then show "bk + n \<le> length cs" by (simp add: len_cs)
  have slice: "mem_block_slice (ring_buf ring) bk n =
      Inr \<lparr>blk_data = Ptr b bk, blk_size = n, blk_capacity = n\<rparr>"
    using fits inv data by (simp add: mem_block_slice_ok ring_inv_def)
  have "size_rem (size_add (ring_front ring) (ring_len ring)) ?size = Inr bk"
    using bounds \<open>bk < ?size\<close> by (simp add: size_rem_def bk)
  with slice fits room bounds len_cs len_xs cs src
  show "mem_ring_enqueue ring p n h =
           Inr (True, ring\<lparr>ring_len := ring_len ring + n\<rparr>,
                h\<lparr>blocks := (blocks h)(b := Some (overlay bk xs cs))\<rparr>)"
    by (simp add: mem_ring_enqueue_def memcpy_def write_cells_block)
qed

lemma ring_inv_after_enqueue:
  assumes inv: "ring_inv n ring h"
    and room: "ring_len ring + n \<le> blk_size (ring_buf ring)"
    and data: "blk_data (ring_buf ring) = Ptr b 0" and cs': "length cs' = blk_size (ring_buf ring)"
  shows "ring_inv n (ring\<lparr>ring_len := ring_len ring + n\<rparr>) (h\<lparr>blocks := (blocks h)(b := Some cs')\<rparr>)"
  using assms by (auto simp: ring_inv_def owned_def)

lemma contents_after_enqueue:
  assumes inv: "ring_inv n ring h" and "length xs = n"
    and room: "ring_len ring + n \<le> blk_size (ring_buf ring)"
    and data: "blk_data (ring_buf ring) = Ptr b 0" and cs: "blocks h b = Some cs"
    and bk: "bk = (ring_front ring + ring_len ring) mod blk_size (ring_buf ring)"
    and fits: "bk + n \<le> length cs" and len: "length cs = blk_size (ring_buf ring)"
  shows "contents (ring\<lparr>ring_len := ring_len ring + n\<rparr>)
           (h\<lparr>blocks := (blocks h)(b := Some (overlay bk xs cs))\<rparr>) = contents ring h @ xs"
  using wrapped_append [of "ring_len ring" xs cs bk "ring_front ring"] assms
  by (simp add: contents_def storage_def)

lemma mem_ring_dequeue_empty:
  "ring_len ring < n \<Longrightarrow> mem_ring_dequeue ring p n h = Inr (False, ring, h)"
  by (simp add: mem_ring_dequeue_def)

definition ring_advanced :: "nat \<Rightarrow> MemRing \<Rightarrow> MemRing" where
  "ring_advanced n ring =
     ring\<lparr>ring_front := (ring_front ring + n) mod blk_size (ring_buf ring),
          ring_len := ring_len ring - n\<rparr>"

lemma mem_ring_drop_some:
  assumes inv: "ring_inv n ring h" and some: "n \<le> ring_len ring"
  shows "mem_ring_drop ring n = Inr (True, ring_advanced n ring)"
  using ring_inv_bounds [OF inv] inv some
  by (auto simp: mem_ring_drop_def size_rem_def ring_advanced_def ring_inv_def)

lemma mem_ring_dequeue_some:
  assumes inv: "ring_inv n ring h" and some: "n \<le> ring_len ring"
    and data: "blk_data (ring_buf ring) = Ptr b 0" and cs: "blocks h b = Some cs"
    and dst: "blocks h d = Some ds" "i + n \<le> length ds"
  shows "mem_ring_dequeue ring (Ptr d i) n h =
           Inr (True, ring_advanced n ring,
                h\<lparr>blocks := (blocks h)(d := Some (overlay i (take n (contents ring h)) ds))\<rparr>)"
proof -
  let ?size = "blk_size (ring_buf ring)"
  note bounds = ring_inv_bounds [OF inv]
  from inv data cs have len_cs: "length cs = ?size" by (auto elim: ring_invE)
  have slice: "mem_block_slice (ring_buf ring) (ring_front ring) n =
      Inr \<lparr>blk_data = Ptr b (ring_front ring), blk_size = n, blk_capacity = n\<rparr>"
    using bounds inv data by (simp add: mem_block_slice_ok ring_inv_def)
  have rem: "size_rem (size_add (ring_front ring) n) ?size = Inr ((ring_front ring + n) mod ?size)"
    using bounds inv by (auto simp: size_rem_def ring_inv_def)
  have read: "read_cells (Ptr b (ring_front ring)) n h = Inr (take n (contents ring h))"
    using bounds len_cs some cs data
    by (simp add: read_cells_block contents_def storage_def wrapped_take)
  have "length (take n (contents ring h)) = n"
    using some by simp
  with dst have wr: "write_cells (Ptr d i) (take n (contents ring h)) h =
      Inr (h\<lparr>blocks := (blocks h)(d := Some (overlay i (take n (contents ring h)) ds))\<rparr>)"
    by (intro write_cells_block) auto
  from some inv have "size_sub (ring_len ring) n = ring_len ring - n"
    by (auto simp: ring_inv_def)
  with slice rem read wr some show ?thesis
    by (simp add: mem_ring_dequeue_def memcpy_def ring_advanced_def)
qed

lemma mem_ring_peek_some:
  assumes inv: "ring_inv n ring h" and some: "n \<le> ring_len ring"
    and data: "blk_data (ring_buf ring) = Ptr b 0"
  shows "mem_ring_peek ring p n = Inr (True, Ptr b (ring_front ring))"
    and "read_cells (Ptr b (ring_front ring)) n h = Inr (take n (contents ring h))"
proof -
  note bounds = ring_inv_bounds [OF inv]
  show "mem_ring_peek ring p n = Inr (True, Ptr b (ring_front ring))"
    using bounds inv data some by (simp add: mem_ring_peek_def mem_block_slice_ok ring_inv_def)
  from inv data obtain cs where "blocks h b = Some cs" "length cs = blk_size (ring_buf ring)"
    by (auto elim!: ring_invE)
  with bounds data some show "read_cells (Ptr b (ring_front ring)) n h = Inr (take n (contents ring h))"
    by (simp add: read_cells_block contents_def storage_def wrapped_take)
qed

lemma ring_inv_advanced:
  assumes inv: "ring_inv n ring h" and some: "n \<le> ring_len ring"
    and len: "\<And>b cs. blk_data (ring_buf ring) = Ptr b 0 \<Longrightarrow> blocks h b = Some cs \<Longrightarrow>
                \<exists>cs'. blocks h' b = Some cs' \<and> length cs' = length cs"
    and nxt: "next_block h' = next_block h"
  shows "ring_inv n (ring_advanced n ring) h'"
proof -
  from inv obtain b cs where b: "blk_data (ring_buf ring) = Ptr b 0" "blocks h b = Some cs"
    "length cs = blk_size (ring_buf ring)" "blk_capacity (ring_buf ring) = blk_size (ring_buf ring)"
    "b < next_block h" "0 < blk_size (ring_buf ring)"
    by (auto elim: ring_invE)
  from len [OF b(1,2)] obtain cs' where "blocks h' b = Some cs'" "length cs' = length cs"
    by blast
  with b nxt have "owned (ring_buf ring) b (blk_size (ring_buf ring)) h'"
    by (auto simp: owned_def)
  with inv some b show ?thesis
    by (auto simp: ring_inv_def ring_advanced_def intro!: dvd_mod)
qed

lemma contents_advanced:
  assumes inv: "ring_inv n ring h" and some: "n \<le> ring_len ring"
    and same: "storage ring h' = storage ring h"
  shows "contents (ring_advanced n ring) h' = drop n (contents ring h)"
proof -
  from inv have "length (storage ring h) = blk_size (ring_buf ring)" by (auto elim: ring_invE)
  moreover have "storage (ring_advanced n ring) h' = storage ring h"
    using same by (simp add: storage_def ring_advanced_def)
  ultimately show ?thesis
    using some wrapped_drop [of n "ring_len ring" "storage ring h" "ring_front ring"]
    by (simp add: contents_def ring_advanced_def)
qed

lemma storage_other_block:
  "blk_data (ring_buf ring) = Ptr b 0 \<Longrightarrow> d \<noteq> b \<Longrightarrow>
   storage ring (h\<lparr>blocks := (blocks h)(d := x)\<rparr>) = storage ring h"
  by (simp add: storage_def)

lemma ring_inv_shape: "ring_inv n ring h \<Longrightarrow> shape h' = shape h \<Longrightarrow> ring_inv n ring h'"
  using owned_shape unfolding ring_inv_def by blast

lemma contents_same_block:
  "blk_data (ring_buf ring) = Ptr b 0 \<Longrightarrow> blocks h' b = blocks h b \<Longrightarrow>
   contents ring h' = contents ring h"
  by (simp add: contents_def storage_def)

section \<open>The ring is a queue of entries\<close>

text \<open>
  The interface instance: the queue state is the ring with the heap, and an entry buffer is
  any readable run of \<open>n\<close> cells in another block.
\<close>

fun ring_enq :: "nat \<Rightarrow> ptr \<Rightarrow> MemRing \<times> 'a heap_scheme \<Rightarrow> (bool \<times> MemRing \<times> 'a heap_scheme) result"
  where "ring_enq n p (ring, h) = mem_ring_enqueue ring p n h"

fun ring_deq :: "nat \<Rightarrow> ptr \<Rightarrow> MemRing \<times> 'a heap_scheme \<Rightarrow> (bool \<times> MemRing \<times> 'a heap_scheme) result"
  where "ring_deq n p (ring, h) = mem_ring_dequeue ring p n h"

fun ring_buffer :: "nat \<Rightarrow> ptr \<Rightarrow> MemRing \<times> 'a heap_scheme \<Rightarrow> cell list option" where
  "ring_buffer n Null (ring, h) = None"
| "ring_buffer n (Ptr d i) (ring, h) =
     (if blk_data (ring_buf ring) = Ptr d 0 then None
      else case read_cells (Ptr d i) n h of Inl e \<Rightarrow> None | Inr xs \<Rightarrow> Some xs)"

lemma ring_buffer_Some:
  "ring_buffer n p (ring, h) = Some xs \<longleftrightarrow>
   (\<exists>d i. p = Ptr d i \<and> blk_data (ring_buf ring) \<noteq> Ptr d 0 \<and> read_cells p n h = Inr xs)"
  by (cases p) (auto split: sum.splits)

lemma ring_buffer_frame:
  assumes "blk_data (ring_buf ring) = Ptr b 0" "ring_buf ring' = ring_buf ring"
  shows "ring_buffer n p (ring', h\<lparr>blocks := (blocks h)(b := x)\<rparr>) = ring_buffer n p (ring, h)"
  using assms by (cases p) auto

lemma ring_dequeue_returns:
  assumes inv: "ring_inv n ring h" and some: "n \<le> ring_len ring"
    and data: "blk_data (ring_buf ring) = Ptr b 0" and dst: "blocks h d = Some ds"
    "i + n \<le> length ds" "d \<noteq> b"
  shows "returns (mem_ring_dequeue ring (Ptr d i) n h) (\<lambda>(ok, ring', h').
     ok \<and> ring' = ring_advanced n ring \<and> ring_inv n ring' h' \<and>
     contents ring' h' = drop n (contents ring h) \<and>
     h' = h\<lparr>blocks := (blocks h)(d := Some (overlay i (take n (contents ring h)) ds))\<rparr>)"
proof -
  let ?h = "h\<lparr>blocks := (blocks h)(d := Some (overlay i (take n (contents ring h)) ds))\<rparr>"
  from inv data obtain cs where cs: "blocks h b = Some cs" by (auto elim: ring_invE)
  have "storage ring ?h = storage ring h"
    using data dst by (intro storage_other_block)
  moreover have "ring_inv n (ring_advanced n ring) ?h"
    using inv some by (rule ring_inv_advanced) (use data dst in auto)
  ultimately show ?thesis
    using mem_ring_dequeue_some [OF inv some data cs dst(1,2)] contents_advanced [OF inv some]
    by simp
qed

interpretation ring: entry_queue "ring_enq n" "ring_deq n"
    "\<lambda>(ring, h). contents ring h" "\<lambda>(ring, h). blk_size (ring_buf ring)" n "ring_buffer n"
    "\<lambda>(ring, h). ring_inv n ring h" for n
proof unfold_locales
  fix q :: "MemRing \<times> 'a heap_scheme" and p xs ys
  obtain ring h where q: "q = (ring, h)" by (cases q)
  let ?view = "\<lambda>(ring, h). contents ring h"
  let ?cap = "\<lambda>(ring :: MemRing, h :: 'a heap_scheme). blk_size (ring_buf ring)"
  assume "(\<lambda>(ring, h). ring_inv n ring h) q"
  then have inv: "ring_inv n ring h" by (simp add: q)
  then obtain b cs where b: "blk_data (ring_buf ring) = Ptr b 0" "blocks h b = Some cs"
    "length cs = blk_size (ring_buf ring)" by (rule ring_invE)
  show "0 < n \<and> n dvd length (?view q) \<and> n dvd ?cap q \<and> length (?view q) \<le> ?cap q"
    using inv by (auto simp: q ring_inv_def)
  show "ring_enq n p q = Inr (False, q)" if "?cap q < length (?view q) + n"
    using that ring_inv_bounds [OF inv] by (simp add: q mem_ring_enqueue_full)
  show "ring_deq n p q = Inr (False, q)" if "length (?view q) < n"
    using that by (simp add: q mem_ring_dequeue_empty)
  show "returns (ring_enq n p q) (\<lambda>(ok, q'). ok \<and> (\<lambda>(ring, h). ring_inv n ring h) q' \<and>
      ?view q' = ?view q @ xs \<and> ?cap q' = ?cap q \<and>
      (\<forall>p'. ring_buffer n p' q' = ring_buffer n p' q))"
    if buf: "ring_buffer n p q = Some xs" and room: "length (?view q) + n \<le> ?cap q"
  proof -
    from buf have src: "read_cells p n h = Inr xs" by (auto simp: q ring_buffer_Some)
    from room have room': "ring_len ring + n \<le> blk_size (ring_buf ring)" by (simp add: q)
    note enq = mem_ring_enqueue_room [OF inv src room' b(1,2) refl]
    let ?h = "h\<lparr>blocks := (blocks h)(b := Some (overlay
      ((ring_front ring + ring_len ring) mod blk_size (ring_buf ring)) xs cs))\<rparr>"
    have "\<forall>p'. ring_buffer n p' (ring\<lparr>ring_len := ring_len ring + n\<rparr>, ?h) = ring_buffer n p' (ring, h)"
      using b by (intro allI ring_buffer_frame) auto
    with enq show ?thesis
      using b ring_inv_after_enqueue [OF inv room' b(1)]
        contents_after_enqueue [OF inv enq(2) room' b(1,2) refl enq(3) b(3)]
      by (simp add: q)
  qed
  show "returns (ring_deq n p q) (\<lambda>(ok, q'). ok \<and> (\<lambda>(ring, h). ring_inv n ring h) q' \<and>
      ?view q' = drop n (?view q) \<and> ?cap q' = ?cap q \<and>
      ring_buffer n p q' = Some (take n (?view q)))"
    if buf: "ring_buffer n p q = Some ys" and some: "n \<le> length (?view q)"
  proof -
    from some have some': "n \<le> ring_len ring" by (simp add: q)
    from buf b(1) obtain d i where p: "p = Ptr d i" "d \<noteq> b" "read_cells (Ptr d i) n h = Inr ys"
      by (auto simp: q ring_buffer_Some)
    with ring_inv_bounds(4) [OF inv] obtain ds where ds: "blocks h d = Some ds" "i + n \<le> length ds"
      by (auto simp: read_cells_def split: option.splits if_splits)
    from some' have "length (take n (contents ring h)) = n" by simp
    with ds have "take n (drop i (overlay i (take n (contents ring h)) ds)) = take n (contents ring h)"
      by (metis take_drop_overlay)
    with ds some' have "read_cells (Ptr d i) n (h\<lparr>blocks := (blocks h)
        (d := Some (overlay i (take n (contents ring h)) ds))\<rparr>) = Inr (take n (contents ring h))"
      by (subst read_cells_block) auto
    then show ?thesis
      using ring_dequeue_returns [OF inv some' b(1) ds p(2)] b p
      by (auto simp: q ring_buffer_Some ring_advanced_def elim!: returns_mono)
  qed
next
  fix p and q :: "MemRing \<times> 'a heap_scheme" and xs
  show "ring_buffer n p q = Some xs \<Longrightarrow> length xs = n"
    by (cases q) (auto simp: ring_buffer_Some dest: read_cells_length)
qed

end
