(* ===== verification/Uint16.thy ===== *)
theory Uint16
  imports Prelude
begin

unbundle bit_operations_syntax

text \<open>
  \<^verbatim>\<open>src/mem/uint16_byte.h\<close> and \<^verbatim>\<open>src/mem/uint16le.h\<close>: the two bytes of a 16-bit integer, and
  the conversion between the byte order of the machine and the little endian order of the
  protocol. \<open>be\<close> is true on a big endian machine.
\<close>

section \<open>Bytes of a 16-bit integer\<close>

definition mem_uint16_byte_low :: "u16 \<Rightarrow> u8" where
  "mem_uint16_byte_low x = ucast (x mod 256)"

definition mem_uint16_byte_high :: "u16 \<Rightarrow> u8" where
  "mem_uint16_byte_high x = ucast (x div 256)"

text \<open>A 16-bit load of two bytes in memory order.\<close>

definition native_uint16 :: "bool \<Rightarrow> u8 \<Rightarrow> u8 \<Rightarrow> u16" where
  "native_uint16 be b0 b1 = (if be then word_cat b0 b1 else word_cat b1 b0)"

text \<open>The run-time test reads the two bytes \<open>00 FF\<close> as a 16-bit integer.\<close>

definition IS_BIG_ENDIAN :: "bool \<Rightarrow> bool" where
  "IS_BIG_ENDIAN be \<longleftrightarrow> native_uint16 be 0 0xFF < 0x100"

text \<open>The operands are promoted to the 32-bit \<open>int\<close> before they are shifted.\<close>

definition mem_uint16le_from :: "bool \<Rightarrow> u16 \<Rightarrow> u16" where
  "mem_uint16le_from be x =
     (if IS_BIG_ENDIAN be
      then ucast (push_bit 8 (ucast x :: u32) OR drop_bit 8 ((ucast x :: u32) AND 0xFFFF))
      else x)"

definition mem_uint16le_to :: "bool \<Rightarrow> u16 \<Rightarrow> u16" where
  "mem_uint16le_to be x =
     (if IS_BIG_ENDIAN be
      then ucast (push_bit 8 (ucast x :: u32) OR drop_bit 8 ((ucast x :: u32) AND 0xFFFF))
      else x)"

section \<open>Lemmas\<close>

lemma IS_BIG_ENDIAN_iff [simp]: "IS_BIG_ENDIAN be \<longleftrightarrow> be"
  by (simp add: IS_BIG_ENDIAN_def native_uint16_def word_cat_eq)

lemma byte_low_take_bit: "mem_uint16_byte_low x = ucast x"
proof -
  have "x mod 256 = take_bit 8 x" by (simp add: take_bit_eq_mod)
  then show ?thesis
    by (intro bit_word_eqI) (simp add: mem_uint16_byte_low_def bit_simps)
qed

lemma byte_high_drop_bit: "mem_uint16_byte_high x = ucast (drop_bit 8 x)"
  by (simp add: mem_uint16_byte_high_def drop_bit_eq_div)

lemma swap_bytes:
  "(ucast (push_bit 8 (ucast (word_cat a b :: u16) :: u32) OR
      drop_bit 8 ((ucast (word_cat a b :: u16) :: u32) AND 0xFFFF)) :: u16)
   = word_cat (b :: u8) (a :: u8)"
proof -
  have mask: "(0xFFFF :: u32) = mask 16" by (simp add: mask_eq_exp_minus_1)
  show ?thesis
    by (rule bit_word_eqI) (auto simp: mask bit_simps not_le less_diff_conv)
qed

text \<open>Whatever the byte order of the machine, a little endian integer is read right.\<close>

lemma mem_uint16le_from_native [simp]:
  "mem_uint16le_from be (native_uint16 be b0 b1) = word_cat b1 b0"
  unfolding mem_uint16le_from_def native_uint16_def IS_BIG_ENDIAN_iff
  by (simp only: swap_bytes split: if_split) simp

lemma mem_uint16le_inverse: "mem_uint16le_from be (mem_uint16le_to be x) = x"
proof -
  have "x = word_cat (ucast (drop_bit 8 x) :: u8) (ucast x :: u8)"
    by (rule bit_word_eqI) (auto simp: bit_simps)
  then show ?thesis
    by (metis mem_uint16le_from_def mem_uint16le_to_def swap_bytes)
qed

lemma word_cat_bytes [simp]: "word_cat (mem_uint16_byte_high x) (mem_uint16_byte_low x) = x"
  by (rule bit_word_eqI) (auto simp: byte_low_take_bit byte_high_drop_bit bit_simps)

lemma byte_low_word_cat [simp]: "mem_uint16_byte_low (word_cat (a :: u8) b) = b"
  by (rule bit_word_eqI) (auto simp: byte_low_take_bit bit_simps)

lemma byte_high_word_cat [simp]: "mem_uint16_byte_high (word_cat a (b :: u8)) = a"
  by (rule bit_word_eqI) (auto simp: byte_high_drop_bit bit_simps)

lemma unat_word_cat: "unat (word_cat (a :: u8) (b :: u8) :: u16) = 256 * unat a + unat b"
proof -
  have "unat (word_cat a b :: u16) = unat ((ucast a :: u16) * 256 + ucast b)"
    by (simp add: word_cat_eq push_bit_eq_mult mult.commute)
  also have "\<dots> = 256 * unat a + unat b"
    using unat_u8_less [of a] unat_u8_less [of b]
    by (simp add: unat_word_ariths unsigned_ucast_eq take_bit_nat_eq_self mult.commute)
  finally show ?thesis .
qed

end
