(* ===== verification/Wire.thy ===== *)
theory Wire
  imports Uint16
begin

text \<open>
  The messages of the atolla protocol, as \<^verbatim>\<open>doc/Atolla Protocol.md\<close> describes them: a type
  byte, a 16-bit message id, a 16-bit payload length and the payload, all integers little
  endian. The builder and the iterator of \<^verbatim>\<open>src/msg\<close> are proved against this format.
  The message types are those of \<^verbatim>\<open>src/msg/type.h\<close>, the error codes those of
  \<^verbatim>\<open>src/atolla/error_codes.h\<close>.
\<close>

section \<open>Message types and error codes\<close>

datatype MsgType = MSG_TYPE_BORROW | MSG_TYPE_LENT | MSG_TYPE_ENQUEUE | MSG_TYPE_FAIL

fun MsgType_value :: "MsgType \<Rightarrow> u8" where
  "MsgType_value MSG_TYPE_BORROW = 0"
| "MsgType_value MSG_TYPE_LENT = 1"
| "MsgType_value MSG_TYPE_ENQUEUE = 2"
| "MsgType_value MSG_TYPE_FAIL = 255"

definition ATOLLA_ERROR_CODE_NOT_BORROWED :: u8 where
  "ATOLLA_ERROR_CODE_NOT_BORROWED = 0"
definition ATOLLA_ERROR_CODE_REQUESTED_BUFFER_TOO_LARGE :: u8 where
  "ATOLLA_ERROR_CODE_REQUESTED_BUFFER_TOO_LARGE = 1"
definition ATOLLA_ERROR_CODE_REQUESTED_FRAME_DURATION_TOO_SHORT :: u8 where
  "ATOLLA_ERROR_CODE_REQUESTED_FRAME_DURATION_TOO_SHORT = 2"
definition ATOLLA_ERROR_CODE_LENT_TO_OTHER_SOURCE :: u8 where
  "ATOLLA_ERROR_CODE_LENT_TO_OTHER_SOURCE = 3"
definition ATOLLA_ERROR_CODE_BAD_MSG :: u8 where
  "ATOLLA_ERROR_CODE_BAD_MSG = 4"
definition ATOLLA_ERROR_CODE_TIMEOUT :: u8 where
  "ATOLLA_ERROR_CODE_TIMEOUT = 5"

lemmas error_code_defs =
  ATOLLA_ERROR_CODE_NOT_BORROWED_def
  ATOLLA_ERROR_CODE_REQUESTED_BUFFER_TOO_LARGE_def
  ATOLLA_ERROR_CODE_REQUESTED_FRAME_DURATION_TOO_SHORT_def
  ATOLLA_ERROR_CODE_LENT_TO_OTHER_SOURCE_def
  ATOLLA_ERROR_CODE_BAD_MSG_def
  ATOLLA_ERROR_CODE_TIMEOUT_def

section \<open>Messages and their encoding\<close>

definition uint16_bytes :: "u16 \<Rightarrow> u8 list" where
  "uint16_bytes x = [mem_uint16_byte_low x, mem_uint16_byte_high x]"

definition message_bytes :: "MsgType \<Rightarrow> u16 \<Rightarrow> u8 list \<Rightarrow> u8 list" where
  "message_bytes type msg_id payload =
     MsgType_value type # uint16_bytes msg_id @ uint16_bytes (of_nat (length payload)) @ payload"

datatype message =
    Borrow u16 u8 u8             \<comment> \<open>id, frame length in ms, buffer length\<close>
  | Lent u16                     \<comment> \<open>id\<close>
  | Enqueue u16 u8 "u8 list"     \<comment> \<open>id, frame index, frame\<close>
  | Fail u16 u16 u8              \<comment> \<open>id, id of the causing message, error code\<close>

fun encode :: "message \<Rightarrow> u8 list" where
  "encode (Borrow i frame_length buffer_length) =
     message_bytes MSG_TYPE_BORROW i [frame_length, buffer_length]"
| "encode (Lent i) = message_bytes MSG_TYPE_LENT i []"
| "encode (Enqueue i frame_idx frame) =
     message_bytes MSG_TYPE_ENQUEUE i (frame_idx # uint16_bytes (of_nat (length frame)) @ frame)"
| "encode (Fail i causing code) =
     message_bytes MSG_TYPE_FAIL i (uint16_bytes causing @ [code])"

text \<open>What fits the 16-bit payload length.\<close>

fun encodable :: "message \<Rightarrow> bool" where
  "encodable (Enqueue i frame_idx frame) \<longleftrightarrow> length frame + 3 \<le> 65535"
| "encodable m \<longleftrightarrow> True"

lemma length_uint16_bytes [simp]: "length (uint16_bytes x) = 2"
  by (simp add: uint16_bytes_def)

lemma length_message_bytes [simp]: "length (message_bytes t i payload) = 5 + length payload"
  by (simp add: message_bytes_def)

lemma length_encode_pos [simp]: "5 \<le> length (encode m)"
  by (cases m) auto

lemma encode_not_Nil [simp]: "encode m \<noteq> []"
  by (cases m) (auto simp: message_bytes_def)

lemma MsgType_value_inject [simp]: "MsgType_value s = MsgType_value t \<longleftrightarrow> s = t"
  by (cases s; cases t) simp_all

end
