(* ===== verification/Msg_Builder.thy ===== *)
theory Msg_Builder
  imports Wire Mem_Block
begin

text \<open>
  \<^verbatim>\<open>src/msg/builder.h\<close> and \<^verbatim>\<open>src/msg/builder.c\<close>: assembles messages in a memory block it
  owns. The functions of the source return a pointer to that block; here the block is the
  \<open>msg_buf\<close> of the builder returned. The local arrays of the source are lists of cells.
\<close>

section \<open>Operations\<close>

definition header_len :: nat where
  "header_len = 1 + 2 + 2"

definition max_payload_len :: nat where
  "max_payload_len = 65535"

definition initial_block_capacity :: nat where
  "initial_block_capacity = 32"

record MsgBuilder =
  msg_buf :: MemBlock
  next_msg_id :: u16

definition msg_builder_init :: "'a heap_scheme \<Rightarrow> (MsgBuilder \<times> 'a heap_scheme) result" where
  "msg_builder_init h =
     bind_res (mem_block_alloc initial_block_capacity h) (\<lambda>(buf, h).
     Inr (\<lparr>msg_buf = buf, next_msg_id = 0\<rparr>, h))"

definition msg_builder_free ::
  "MsgBuilder \<Rightarrow> 'a heap_scheme \<Rightarrow> (MsgBuilder \<times> 'a heap_scheme) result" where
  "msg_builder_free builder h =
     bind_res (mem_block_free (msg_buf builder) h) (\<lambda>(buf, h).
     Inr (builder\<lparr>msg_buf := buf\<rparr>, h))"

definition set_uint8 :: "MemBlock \<Rightarrow> nat \<Rightarrow> u8 \<Rightarrow> 'a heap_scheme \<Rightarrow> 'a heap_scheme result" where
  "set_uint8 block byte_offset value h =
     bind_res (assert_that (blk_size block \<ge> size_add byte_offset 1)) (\<lambda>_.
     write_cells (ptr_add (blk_data block) byte_offset) [Some value] h)"

definition set_uint16 :: "MemBlock \<Rightarrow> nat \<Rightarrow> u16 \<Rightarrow> 'a heap_scheme \<Rightarrow> 'a heap_scheme result" where
  "set_uint16 block byte_offset value h =
     bind_res (assert_that (blk_size block \<ge> size_add byte_offset 2)) (\<lambda>_.
     let target = ptr_add (blk_data block) byte_offset in
     bind_res (write_cells target [Some (mem_uint16_byte_low value)] h) (\<lambda>h.
     write_cells (ptr_add target 1) [Some (mem_uint16_byte_high value)] h))"

definition set_data ::
  "MemBlock \<Rightarrow> nat \<Rightarrow> cell list \<Rightarrow> nat \<Rightarrow> 'a heap_scheme \<Rightarrow> 'a heap_scheme result" where
  "set_data block byte_offset data data_len h =
     bind_res (assert_that (blk_size block \<ge> size_add (size_add byte_offset 2) data_len)) (\<lambda>_.
     let data_header_ptr = ptr_add (blk_data block) byte_offset in
     bind_res (write_cells data_header_ptr [Some (mem_uint16_byte_low (of_nat data_len))] h) (\<lambda>h.
     bind_res (write_cells (ptr_add data_header_ptr 1)
                 [Some (mem_uint16_byte_high (of_nat data_len))] h) (\<lambda>h.
     if data_len > 0
     then bind_res (array_read 0 data_len data) (\<lambda>cs. write_cells (ptr_add data_header_ptr 2) cs h)
     else Inr h)))"

definition build ::
  "MsgBuilder \<Rightarrow> MsgType \<Rightarrow> cell list \<Rightarrow> nat \<Rightarrow> 'a heap_scheme \<Rightarrow>
   (MsgBuilder \<times> 'a heap_scheme) result" where
  "build builder type payload payload_len h =
     bind_res (assert_that (payload_len \<le> max_payload_len)) (\<lambda>_.
     let msg_len = size_add header_len payload_len in
     bind_res (mem_block_resize (msg_buf builder) msg_len h) (\<lambda>(block, h).
     bind_res (set_uint8 block 0 (MsgType_value type) h) (\<lambda>h.
     bind_res (set_uint16 block 1 (next_msg_id builder) h) (\<lambda>h.
     bind_res (set_data block 3 payload payload_len h) (\<lambda>h.
     Inr (builder\<lparr>msg_buf := block, next_msg_id := next_msg_id builder + 1\<rparr>, h))))))"

definition msg_builder_borrow ::
  "MsgBuilder \<Rightarrow> u8 \<Rightarrow> u8 \<Rightarrow> 'a heap_scheme \<Rightarrow> (MsgBuilder \<times> 'a heap_scheme) result" where
  "msg_builder_borrow builder frame_length buffer_length h =
     (let payload = [Some frame_length, Some buffer_length] in
      build builder MSG_TYPE_BORROW payload (length payload) h)"

definition msg_builder_lent ::
  "MsgBuilder \<Rightarrow> 'a heap_scheme \<Rightarrow> (MsgBuilder \<times> 'a heap_scheme) result" where
  "msg_builder_lent builder h = build builder MSG_TYPE_LENT [] 0 h"

definition msg_builder_enqueue ::
  "MsgBuilder \<Rightarrow> u8 \<Rightarrow> ptr \<Rightarrow> nat \<Rightarrow> 'a heap_scheme \<Rightarrow> (MsgBuilder \<times> 'a heap_scheme) result" where
  "msg_builder_enqueue builder frame_idx frame frame_len h =
     (let frame_idx_len = 1; frame_len_len = 2;
          payload_len = size_add (size_add frame_idx_len frame_len_len) frame_len;
          payload = replicate payload_len None in
      bind_res (array_write 0 [Some frame_idx] payload) (\<lambda>payload.
      bind_res (array_write 1 [Some (mem_uint16_byte_low (of_nat frame_len))] payload) (\<lambda>payload.
      bind_res (array_write 2 [Some (mem_uint16_byte_high (of_nat frame_len))] payload) (\<lambda>payload.
      bind_res (read_cells frame frame_len h) (\<lambda>cs.
      bind_res (array_write 3 cs payload) (\<lambda>payload.
      build builder MSG_TYPE_ENQUEUE payload payload_len h))))))"

definition msg_builder_fail ::
  "MsgBuilder \<Rightarrow> u16 \<Rightarrow> u8 \<Rightarrow> 'a heap_scheme \<Rightarrow> (MsgBuilder \<times> 'a heap_scheme) result" where
  "msg_builder_fail builder causing_message_id error_code h =
     (let payload = [Some (mem_uint16_byte_low causing_message_id),
                     Some (mem_uint16_byte_high causing_message_id),
                     Some error_code] in
      build builder MSG_TYPE_FAIL payload (length payload) h)"

section \<open>Lemmas\<close>

text \<open>The three stores of \<open>build\<close> lay out the message at the start of the block.\<close>

definition message_cells :: "MsgType \<Rightarrow> u16 \<Rightarrow> cell list \<Rightarrow> cell list" where
  "message_cells type msg_id payload =
     map Some (MsgType_value type # uint16_bytes msg_id @ uint16_bytes (of_nat (length payload))) @
     payload"

lemma length_message_cells [simp]: "length (message_cells t i payload) = 5 + length payload"
  by (simp add: message_cells_def)

lemma message_cells_bytes: "message_cells t i (map Some payload) = map Some (message_bytes t i payload)"
  by (simp add: message_cells_def message_bytes_def)

lemma write_cells_upd:
  "i + length xs \<le> length cs \<Longrightarrow>
   write_cells (Ptr k i) xs (h\<lparr>blocks := (blocks h)(k := Some cs)\<rparr>) =
   Inr (h\<lparr>blocks := (blocks h)(k := Some (overlay i xs cs))\<rparr>)"
  by (subst write_cells_block) auto

lemma stores_lay_out_message:
  assumes "blk_data block = Ptr k 0" "blk_size block = 5 + length payload"
    "5 + length payload \<le> length cs" "length payload \<le> max_payload_len"
  shows "bind_res (set_uint8 block 0 (MsgType_value t) (h\<lparr>blocks := (blocks h)(k := Some cs)\<rparr>)) (\<lambda>h.
         bind_res (set_uint16 block 1 i h) (\<lambda>h.
         set_data block 3 payload (length payload) h)) =
         Inr (h\<lparr>blocks := (blocks h)(k := Some (overlay 0 (message_cells t i payload) cs))\<rparr>)"
proof -
  let ?lo = "\<lambda>x. Some (mem_uint16_byte_low x)" and ?hi = "\<lambda>x. Some (mem_uint16_byte_high x)"
  let ?n = "of_nat (length payload)"
  have "overlay 5 payload (overlay 4 [?hi ?n] (overlay 3 [?lo ?n]
          (overlay 2 [?hi i] (overlay 1 [?lo i] (overlay 0 [Some (MsgType_value t)] cs)))))
      = overlay 0 (message_cells t i payload) cs"
    using assms(3) by (simp add: overlay_extend message_cells_def uint16_bytes_def)
  then show ?thesis
    using assms
    by (auto simp: set_uint8_def set_uint16_def set_data_def write_cells_upd array_read_def
        max_payload_len_def numeral_2_eq_2 [symmetric])
qed

lemma build_after_resize:
  assumes "length payload \<le> max_payload_len"
    and "mem_block_resize (msg_buf b) (5 + length payload) h =
      Inr (block, h'\<lparr>blocks := (blocks h')(k := Some cs)\<rparr>)"
    and "blk_data block = Ptr k 0" "blk_size block = 5 + length payload"
    "5 + length payload \<le> length cs"
  shows "build b t payload (length payload) h =
    Inr (b\<lparr>msg_buf := block, next_msg_id := next_msg_id b + 1\<rparr>,
         h'\<lparr>blocks := (blocks h')(k := Some (overlay 0 (message_cells t (next_msg_id b) payload) cs))\<rparr>)"
proof -
  have len: "size_add header_len (length payload) = 5 + length payload"
    using assms(1) by (simp add: header_len_def max_payload_len_def)
  have "build b t payload (length payload) h =
      bind_res (bind_res (set_uint8 block 0 (MsgType_value t) (h'\<lparr>blocks := (blocks h')(k := Some cs)\<rparr>)) (\<lambda>h.
         bind_res (set_uint16 block 1 (next_msg_id b) h) (\<lambda>h.
         set_data block 3 payload (length payload) h)))
      (\<lambda>h. Inr (b\<lparr>msg_buf := block, next_msg_id := next_msg_id b + 1\<rparr>, h))"
    using assms(1,2) by (simp add: build_def len bind_res_assoc)
  also have "\<dots> = Inr (b\<lparr>msg_buf := block, next_msg_id := next_msg_id b + 1\<rparr>,
      h'\<lparr>blocks := (blocks h')(k := Some (overlay 0 (message_cells t (next_msg_id b) payload) cs))\<rparr>)"
    using assms by (simp only: stores_lay_out_message bind_res_simps)
  finally show ?thesis .
qed

lemma build_fits:
  assumes "owned (msg_buf b) k n h" "blocks h k = Some cs" "5 + length payload \<le> n"
    "length payload \<le> max_payload_len"
  shows "build b t payload (length payload) h =
    Inr (b\<lparr>msg_buf := (msg_buf b)\<lparr>blk_size := 5 + length payload\<rparr>,
           next_msg_id := next_msg_id b + 1\<rparr>,
         h\<lparr>blocks := (blocks h)(k := Some (overlay 0 (message_cells t (next_msg_id b) payload) cs))\<rparr>)"
proof (rule build_after_resize)
  show "mem_block_resize (msg_buf b) (5 + length payload) h =
      Inr ((msg_buf b)\<lparr>blk_size := 5 + length payload\<rparr>, h\<lparr>blocks := (blocks h)(k := Some cs)\<rparr>)"
    using assms by (simp add: mem_block_resize_fits owned_def fun_upd_idem)
qed (use assms in \<open>auto simp: owned_def\<close>)

lemma build_grows:
  assumes "owned (msg_buf b) k n h" "n < 5 + length payload" "length payload \<le> max_payload_len"
    "\<not> oom h (next_block h)"
  shows "build b t payload (length payload) h =
    Inr (b\<lparr>msg_buf := \<lparr>blk_data = Ptr (next_block h) 0, blk_size = 5 + length payload,
                        blk_capacity = 5 + length payload\<rparr>,
           next_msg_id := next_msg_id b + 1\<rparr>,
         h\<lparr>blocks := (blocks h)(k := None,
             next_block h := Some (message_cells t (next_msg_id b) payload)),
           next_block := Suc (next_block h)\<rparr>)"
proof -
  let ?h = "h\<lparr>blocks := (blocks h)(k := None), next_block := Suc (next_block h)\<rparr>"
  have "mem_block_resize (msg_buf b) (5 + length payload) h =
      Inr (\<lparr>blk_data = Ptr (next_block h) 0, blk_size = 5 + length payload,
           blk_capacity = 5 + length payload\<rparr>,
        ?h\<lparr>blocks := (blocks ?h)(next_block h := Some (replicate (5 + length payload) None))\<rparr>)"
    using mem_block_resize_grows [OF assms(1,2,4)] by simp
  from build_after_resize [OF assms(3) this, of t] show ?thesis
    by simp
qed

section \<open>The messages built\<close>

text \<open>
  The block of a builder is live and at least as large as every message without a frame,
  so those messages are built in place. An ENQUEUE message may need a larger block.
\<close>

definition builder_ok :: "MsgBuilder \<Rightarrow> 'a heap_scheme \<Rightarrow> bool" where
  "builder_ok b h \<longleftrightarrow> (\<exists>k n. owned (msg_buf b) k n h \<and> initial_block_capacity \<le> n)"

definition holds_message :: "MsgBuilder \<Rightarrow> u8 list \<Rightarrow> 'a heap_scheme \<Rightarrow> bool" where
  "holds_message b bytes h \<longleftrightarrow>
     blk_size (msg_buf b) = length bytes \<and>
     read_bytes (blk_data (msg_buf b)) (length bytes) h = Inr bytes"

lemma build_small:
  assumes "owned (msg_buf b) k n h" "5 + length payload \<le> n" "length payload \<le> max_payload_len"
  obtains cs where "length cs = n"
    "take (5 + length payload) cs = map Some (message_bytes t (next_msg_id b) payload)"
    "build b t (map Some payload) (length payload) h =
      Inr (b\<lparr>msg_buf := (msg_buf b)\<lparr>blk_size := 5 + length payload\<rparr>,
             next_msg_id := next_msg_id b + 1\<rparr>,
           h\<lparr>blocks := (blocks h)(k := Some cs)\<rparr>)"
proof -
  from assms(1) obtain cs where cs: "blocks h k = Some cs" "length cs = n"
    by (auto simp: owned_def)
  let ?cs = "overlay 0 (map Some (message_bytes t (next_msg_id b) payload)) cs"
  have "build b t (map Some payload) (length payload) h =
      Inr (b\<lparr>msg_buf := (msg_buf b)\<lparr>blk_size := 5 + length payload\<rparr>,
             next_msg_id := next_msg_id b + 1\<rparr>, h\<lparr>blocks := (blocks h)(k := Some ?cs)\<rparr>)"
    using build_fits [OF assms(1) cs(1), of "map Some payload" t] assms(2,3)
    by (simp add: message_cells_bytes)
  moreover have "length ?cs = n" using assms(2) cs(2) by simp
  moreover have "take (5 + length payload) ?cs = map Some (message_bytes t (next_msg_id b) payload)"
    using overlay_front [of "map Some (message_bytes t (next_msg_id b) payload)" cs] assms(2) cs(2)
    by simp
  ultimately show ?thesis by (rule that [rotated 2])
qed

lemma msg_builder_lent_small:
  assumes "owned (msg_buf b) k n h" "initial_block_capacity \<le> n"
  obtains cs where "length cs = n" "take 5 cs = map Some (encode (Lent (next_msg_id b)))"
    "msg_builder_lent b h =
      Inr (b\<lparr>msg_buf := (msg_buf b)\<lparr>blk_size := 5\<rparr>, next_msg_id := next_msg_id b + 1\<rparr>,
           h\<lparr>blocks := (blocks h)(k := Some cs)\<rparr>)"
  using assms
  by (auto simp: msg_builder_lent_def initial_block_capacity_def max_payload_len_def
      intro: build_small [OF assms(1), of "[]" MSG_TYPE_LENT])

lemma msg_builder_fail_small:
  assumes "owned (msg_buf b) k n h" "initial_block_capacity \<le> n"
  obtains cs where "length cs = n" "take 8 cs = map Some (encode (Fail (next_msg_id b) i c))"
    "msg_builder_fail b i c h =
      Inr (b\<lparr>msg_buf := (msg_buf b)\<lparr>blk_size := 8\<rparr>, next_msg_id := next_msg_id b + 1\<rparr>,
           h\<lparr>blocks := (blocks h)(k := Some cs)\<rparr>)"
  using assms
  by (auto simp: msg_builder_fail_def initial_block_capacity_def max_payload_len_def uint16_bytes_def
      intro: build_small [OF assms(1), of "uint16_bytes i @ [c]" MSG_TYPE_FAIL])

lemma msg_builder_borrow_small:
  assumes "owned (msg_buf b) k n h" "initial_block_capacity \<le> n"
  obtains cs where "length cs = n" "take 7 cs = map Some (encode (Borrow (next_msg_id b) fl bl))"
    "msg_builder_borrow b fl bl h =
      Inr (b\<lparr>msg_buf := (msg_buf b)\<lparr>blk_size := 7\<rparr>, next_msg_id := next_msg_id b + 1\<rparr>,
           h\<lparr>blocks := (blocks h)(k := Some cs)\<rparr>)"
  using assms
  by (auto simp: msg_builder_borrow_def initial_block_capacity_def max_payload_len_def
      intro: build_small [OF assms(1), of "[fl, bl]" MSG_TYPE_BORROW])

lemma msg_builder_borrow_returns:
  assumes "builder_ok b h" "blk_data (msg_buf b) = Ptr k 0"
  shows "returns (msg_builder_borrow b fl bl h) (\<lambda>(b', h').
    builder_ok b' h' \<and> next_msg_id b' = next_msg_id b + 1 \<and>
    holds_message b' (encode (Borrow (next_msg_id b) fl bl)) h' \<and> changes {k} h h' \<and>
    blk_data (msg_buf b') = Ptr k 0)"
proof -
  from assms obtain n where own: "owned (msg_buf b) k n h" "initial_block_capacity \<le> n"
    by (auto simp: builder_ok_def owned_def)
  from msg_builder_borrow_small [OF own, of fl bl] obtain cs where cs: "length cs = n"
    "take 7 cs = map Some (encode (Borrow (next_msg_id b) fl bl))"
    "msg_builder_borrow b fl bl h =
      Inr (b\<lparr>msg_buf := (msg_buf b)\<lparr>blk_size := 7\<rparr>, next_msg_id := next_msg_id b + 1\<rparr>,
           h\<lparr>blocks := (blocks h)(k := Some cs)\<rparr>)" by blast
  moreover have "owned ((msg_buf b)\<lparr>blk_size := 7\<rparr>) k n (h\<lparr>blocks := (blocks h)(k := Some cs)\<rparr>)"
    using own cs(1) by (auto simp: owned_def initial_block_capacity_def)
  ultimately show ?thesis
    using own assms(2)
    by (auto simp: builder_ok_def holds_message_def changes_update initial_block_capacity_def
        intro!: read_bytes_block)
qed

text \<open>The local array of \<open>msg_builder_enqueue\<close> holds the index, the length and the frame.\<close>

lemma msg_builder_enqueue_build:
  assumes "read_cells frame frame_len h = Inr cs" "frame_len + 3 < size_t_range"
  shows "msg_builder_enqueue b frame_idx frame frame_len h =
    build b MSG_TYPE_ENQUEUE
      (map Some (frame_idx # uint16_bytes (of_nat frame_len)) @ cs) (frame_len + 3) h"
proof -
  let ?a = "replicate (frame_len + 3) None"
  let ?lo = "Some (mem_uint16_byte_low (of_nat frame_len))"
  let ?hi = "Some (mem_uint16_byte_high (of_nat frame_len))"
  have len: "length cs = frame_len" using assms(1) by (rule read_cells_length)
  have "overlay 3 cs (overlay 2 [?hi] (overlay 1 [?lo] (overlay 0 [Some frame_idx] ?a)))
      = overlay 0 (Some frame_idx # ?lo # ?hi # cs) ?a"
    by (simp add: overlay_extend len)
  also have "\<dots> = Some frame_idx # ?lo # ?hi # cs"
    by (rule overlay_all) (simp add: len)
  finally have lay: "overlay 3 cs (overlay 2 [?hi] (overlay 1 [?lo] (overlay 0 [Some frame_idx] ?a)))
      = Some frame_idx # ?lo # ?hi # cs" .
  have payload_len: "size_add (size_add 1 2) frame_len = frame_len + 3"
    using assms(2) by (simp add: add.commute)
  from lay assms len show ?thesis
    unfolding msg_builder_enqueue_def Let_def payload_len
    by (simp add: array_write_ok uint16_bytes_def del: replicate_add)
qed

lemma msg_builder_enqueue_returns:
  assumes ok: "builder_ok b h" and frame: "read_cells frame (length bs) h = Inr (map Some bs)"
    and fits: "length bs \<le> 65532" and mem: "\<not> oom h (next_block h)"
    and data: "blk_data (msg_buf b) = Ptr k 0"
  shows "returns (msg_builder_enqueue b frame_idx frame (length bs) h) (\<lambda>(b', h').
    builder_ok b' h' \<and> next_msg_id b' = next_msg_id b + 1 \<and>
    holds_message b' (encode (Enqueue (next_msg_id b) frame_idx bs)) h' \<and> changes {k} h h' \<and>
    (\<exists>k'. blk_data (msg_buf b') = Ptr k' 0 \<and> (k' = k \<or> next_block h \<le> k')))"
proof -
  let ?payload = "frame_idx # uint16_bytes (of_nat (length bs)) @ bs"
  let ?bytes = "message_bytes MSG_TYPE_ENQUEUE (next_msg_id b) ?payload"
  have max: "length ?payload \<le> max_payload_len" using fits by (simp add: max_payload_len_def)
  have enq: "msg_builder_enqueue b frame_idx frame (length bs) h =
      build b MSG_TYPE_ENQUEUE (map Some ?payload) (length ?payload) h"
  proof -
    have "length ?payload = length bs + 3" by simp
    then show ?thesis
      using msg_builder_enqueue_build [OF frame, of b frame_idx] fits by (simp only: map_append) simp
  qed
  from ok data obtain n where own: "owned (msg_buf b) k n h" "initial_block_capacity \<le> n"
    by (auto simp: builder_ok_def owned_def)
  show ?thesis
  proof (cases "5 + length ?payload \<le> n")
    case True
    from build_small [OF own(1) True max, of MSG_TYPE_ENQUEUE] obtain cs where cs: "length cs = n"
      "take (5 + length ?payload) cs = map Some ?bytes"
      "build b MSG_TYPE_ENQUEUE (map Some ?payload) (length ?payload) h =
        Inr (b\<lparr>msg_buf := (msg_buf b)\<lparr>blk_size := 5 + length ?payload\<rparr>,
               next_msg_id := next_msg_id b + 1\<rparr>, h\<lparr>blocks := (blocks h)(k := Some cs)\<rparr>)"
      by blast
    moreover have "owned ((msg_buf b)\<lparr>blk_size := 5 + length ?payload\<rparr>) k n
        (h\<lparr>blocks := (blocks h)(k := Some cs)\<rparr>)"
      using own(1) cs(1) True by (auto simp: owned_def)
    ultimately show ?thesis
      using own True
      by (auto simp: enq builder_ok_def holds_message_def owned_def changes_update
          intro!: read_bytes_block)
  next
    case False
    then have "n < 5 + length (map Some ?payload)" by simp
    from build_grows [OF own(1) this _ mem, of MSG_TYPE_ENQUEUE] max
    have "build b MSG_TYPE_ENQUEUE (map Some ?payload) (length ?payload) h =
      Inr (b\<lparr>msg_buf := \<lparr>blk_data = Ptr (next_block h) 0, blk_size = 5 + length ?payload,
                          blk_capacity = 5 + length ?payload\<rparr>,
             next_msg_id := next_msg_id b + 1\<rparr>,
           h\<lparr>blocks := (blocks h)(k := None, next_block h := Some (map Some ?bytes)),
             next_block := Suc (next_block h)\<rparr>)"
      by (simp add: message_cells_bytes del: map_append list.map)
    then show ?thesis
      using own False
      by (auto simp: enq builder_ok_def holds_message_def owned_def changes_def
          intro!: read_bytes_block)
  qed
qed

end
