(* ===== verification/Msg_Iter.thy ===== *)
theory Msg_Iter
  imports Wire Mem_Block
begin

text \<open>
  \<^verbatim>\<open>src/msg/iter.h\<close> and \<^verbatim>\<open>src/msg/iter.c\<close>: a pair of pointers into a receive buffer that
  visits the messages in it. \<open>at_message\<close> and \<open>at_messages\<close> relate an iterator to the messages
  of the protocol, and the second half states the contract between the iterator and the loops
  over it as the locale \<open>message_stream\<close>.
\<close>

section \<open>Operations\<close>

record MsgIter =
  msg_buf_start :: ptr
  msg_buf_end :: ptr

definition msg_iter_make :: "ptr \<Rightarrow> nat \<Rightarrow> MsgIter" where
  "msg_iter_make msg_buffer msg_buffer_size =
     \<lparr>msg_buf_start = msg_buffer, msg_buf_end = ptr_add msg_buffer msg_buffer_size\<rparr>"

definition msg_iter_has_msg :: "MsgIter \<Rightarrow> bool" where
  "msg_iter_has_msg iter \<longleftrightarrow> msg_buf_start iter < msg_buf_end iter"

text \<open>\<open>memcpy(&x, p, 2)\<close> into a \<open>uint16_t\<close>, then the conversion from little endian.\<close>

definition load_uint16le :: "ptr \<Rightarrow> 'a heap_scheme \<Rightarrow> u16 result" where
  "load_uint16le p h =
     bind_res (read_bytes p 2 h) (\<lambda>bs.
     Inr (mem_uint16le_from (big_endian h) (native_uint16 (big_endian h) (bs ! 0) (bs ! 1))))"

definition msg_iter_payload_length :: "MsgIter \<Rightarrow> 'a heap_scheme \<Rightarrow> u16 result" where
  "msg_iter_payload_length iter h =
     bind_res (assert_that (msg_iter_has_msg iter)) (\<lambda>_.
     load_uint16le (ptr_add (msg_buf_start iter) 3) h)"

definition msg_iter_next :: "MsgIter \<Rightarrow> 'a heap_scheme \<Rightarrow> MsgIter result" where
  "msg_iter_next iter h =
     bind_res (assert_that (msg_iter_has_msg iter)) (\<lambda>_.
     bind_res (msg_iter_payload_length iter h) (\<lambda>payload_length.
     let msg_len = 5 + unat payload_length in
     Inr (iter\<lparr>msg_buf_start := ptr_add (msg_buf_start iter) msg_len\<rparr>)))"

definition MsgType_of_byte :: "u8 \<Rightarrow> MsgType" where
  "MsgType_of_byte b =
     (if b = 0 then MSG_TYPE_BORROW else if b = 1 then MSG_TYPE_LENT
      else if b = 2 then MSG_TYPE_ENQUEUE else MSG_TYPE_FAIL)"

definition msg_iter_type :: "MsgIter \<Rightarrow> 'a heap_scheme \<Rightarrow> MsgType result" where
  "msg_iter_type iter h =
     bind_res (assert_that (msg_iter_has_msg iter)) (\<lambda>_.
     bind_res (read_byte (ptr_add (msg_buf_start iter) 0) h) (\<lambda>msg_type_byte.
     bind_res (assert_that ((msg_type_byte \<ge> 0 \<and> msg_type_byte \<le> 2) \<or> msg_type_byte = 255)) (\<lambda>_.
     Inr (MsgType_of_byte msg_type_byte))))"

definition msg_iter_msg_id :: "MsgIter \<Rightarrow> 'a heap_scheme \<Rightarrow> u16 result" where
  "msg_iter_msg_id iter h =
     bind_res (assert_that (msg_iter_has_msg iter)) (\<lambda>_.
     load_uint16le (ptr_add (msg_buf_start iter) 1) h)"

definition msg_iter_payload :: "MsgIter \<Rightarrow> 'a heap_scheme \<Rightarrow> MemBlock result" where
  "msg_iter_payload iter h =
     bind_res (assert_that (msg_iter_has_msg iter)) (\<lambda>_.
     bind_res (load_uint16le (ptr_add (msg_buf_start iter) 3) h) (\<lambda>payload_len.
     let payload = ptr_add (msg_buf_start iter) 5 in
     Inr (mem_block_make payload (unat payload_len))))"

definition assert_type :: "MsgIter \<Rightarrow> MsgType \<Rightarrow> 'a heap_scheme \<Rightarrow> unit result" where
  "assert_type iter type h =
     bind_res (msg_iter_type iter h) (\<lambda>t. assert_that (t = type))"

definition msg_iter_borrow_frame_length :: "MsgIter \<Rightarrow> 'a heap_scheme \<Rightarrow> u8 result" where
  "msg_iter_borrow_frame_length iter h =
     bind_res (assert_type iter MSG_TYPE_BORROW h) (\<lambda>_.
     bind_res (msg_iter_payload iter h) (\<lambda>payload.
     read_byte (ptr_add (blk_data payload) 0) h))"

definition msg_iter_borrow_buffer_length :: "MsgIter \<Rightarrow> 'a heap_scheme \<Rightarrow> u8 result" where
  "msg_iter_borrow_buffer_length iter h =
     bind_res (assert_type iter MSG_TYPE_BORROW h) (\<lambda>_.
     bind_res (msg_iter_payload iter h) (\<lambda>payload.
     read_byte (ptr_add (blk_data payload) 1) h))"

definition msg_iter_enqueue_frame_idx :: "MsgIter \<Rightarrow> 'a heap_scheme \<Rightarrow> u8 result" where
  "msg_iter_enqueue_frame_idx iter h =
     bind_res (assert_type iter MSG_TYPE_ENQUEUE h) (\<lambda>_.
     bind_res (msg_iter_payload iter h) (\<lambda>payload.
     read_byte (ptr_add (blk_data payload) 0) h))"

definition msg_iter_enqueue_frame :: "MsgIter \<Rightarrow> 'a heap_scheme \<Rightarrow> MemBlock result" where
  "msg_iter_enqueue_frame iter h =
     bind_res (assert_type iter MSG_TYPE_ENQUEUE h) (\<lambda>_.
     bind_res (msg_iter_payload iter h) (\<lambda>payload.
     mem_block_slice payload 3 (size_sub (blk_size payload) 3)))"

definition msg_iter_fail_offending_msg_id :: "MsgIter \<Rightarrow> 'a heap_scheme \<Rightarrow> u16 result" where
  "msg_iter_fail_offending_msg_id iter h =
     bind_res (assert_type iter MSG_TYPE_FAIL h) (\<lambda>_.
     bind_res (msg_iter_payload iter h) (\<lambda>payload.
     load_uint16le (blk_data payload) h))"

definition msg_iter_fail_error_code :: "MsgIter \<Rightarrow> 'a heap_scheme \<Rightarrow> u8 result" where
  "msg_iter_fail_error_code iter h =
     bind_res (assert_type iter MSG_TYPE_FAIL h) (\<lambda>_.
     bind_res (msg_iter_payload iter h) (\<lambda>payload.
     let offending_msg_id_ptr = blk_data payload;
         error_code_ptr = ptr_add offending_msg_id_ptr 2 in
     read_byte error_code_ptr h))"

section \<open>The loop over the messages\<close>

text \<open>
  \<^verbatim>\<open>for(; msg_iter_has_msg(&iter); msg_iter_next(&iter)) body\<close>. Every round moves the
  iterator at least five bytes towards the end, so the loop ends whatever the buffer holds.
\<close>

fun bytes_left :: "ptr \<Rightarrow> ptr \<Rightarrow> nat" where
  "bytes_left (Ptr b i) (Ptr c j) = j - i"
| "bytes_left p q = 0"

lemma msg_iter_next_advances:
  assumes "msg_iter_next iter h = Inr iter'"
  shows "msg_buf_end iter' = msg_buf_end iter"
    and "bytes_left (msg_buf_start iter') (msg_buf_end iter')
       < bytes_left (msg_buf_start iter) (msg_buf_end iter)"
proof -
  from assms obtain n where has: "msg_iter_has_msg iter"
    and iter': "iter' = iter\<lparr>msg_buf_start := ptr_add (msg_buf_start iter) (5 + n)\<rparr>"
    by (auto simp: msg_iter_next_def bind_res_eq_Inr assert_that_def Let_def split: if_splits)
  then show "msg_buf_end iter' = msg_buf_end iter" by simp
  from has iter' show "bytes_left (msg_buf_start iter') (msg_buf_end iter')
      < bytes_left (msg_buf_start iter) (msg_buf_end iter)"
    by (cases "msg_buf_start iter"; cases "msg_buf_end iter") (auto simp: msg_iter_has_msg_def)
qed

function for_messages ::
  "(MsgIter \<Rightarrow> 's \<Rightarrow> 'a heap_scheme \<Rightarrow> ('s \<times> 'a heap_scheme) result) \<Rightarrow>
   MsgIter \<Rightarrow> 's \<Rightarrow> 'a heap_scheme \<Rightarrow> ('s \<times> 'a heap_scheme) result" where
  "for_messages body iter s h =
     (if msg_iter_has_msg iter
      then bind_res (body iter s h) (\<lambda>(s, h).
           bind_res (msg_iter_next iter h) (\<lambda>iter. for_messages body iter s h))
      else Inr (s, h))"
  by pat_completeness auto
termination
  by (relation "measure (\<lambda>(body, iter, s, h). bytes_left (msg_buf_start iter) (msg_buf_end iter))")
    (auto dest: msg_iter_next_advances(2))

declare for_messages.simps [simp del]

section \<open>Iterators at a message\<close>

fun msg_type_of :: "message \<Rightarrow> MsgType" where
  "msg_type_of (Borrow i fl bl) = MSG_TYPE_BORROW"
| "msg_type_of (Lent i) = MSG_TYPE_LENT"
| "msg_type_of (Enqueue i idx frame) = MSG_TYPE_ENQUEUE"
| "msg_type_of (Fail i causing code) = MSG_TYPE_FAIL"

fun msg_id_of :: "message \<Rightarrow> u16" where
  "msg_id_of (Borrow i fl bl) = i"
| "msg_id_of (Lent i) = i"
| "msg_id_of (Enqueue i idx frame) = i"
| "msg_id_of (Fail i causing code) = i"

fun payload_of :: "message \<Rightarrow> u8 list" where
  "payload_of (Borrow i fl bl) = [fl, bl]"
| "payload_of (Lent i) = []"
| "payload_of (Enqueue i idx frame) = idx # uint16_bytes (of_nat (length frame)) @ frame"
| "payload_of (Fail i causing code) = uint16_bytes causing @ [code]"

lemma encode_eq: "encode m = message_bytes (msg_type_of m) (msg_id_of m) (payload_of m)"
  by (cases m) auto

lemma encodable_payload: "encodable m \<longleftrightarrow> length (payload_of m) \<le> 65535"
  by (cases m) auto

text \<open>\<open>bytes_at p bs h\<close>: the bytes \<open>bs\<close> are stored at \<open>p\<close>.\<close>

definition bytes_at :: "ptr \<Rightarrow> u8 list \<Rightarrow> 'a heap_scheme \<Rightarrow> bool" where
  "bytes_at p bs h \<longleftrightarrow> read_bytes p (length bs) h = Inr bs"

definition at_message :: "MsgIter \<Rightarrow> message \<Rightarrow> 'a heap_scheme \<Rightarrow> bool" where
  "at_message iter m h \<longleftrightarrow>
     msg_iter_has_msg iter \<and> bytes_at (msg_buf_start iter) (encode m) h \<and> encodable m"

text \<open>The messages \<open>ms\<close>, one behind the other, fill the buffer from start to end.\<close>

definition at_messages :: "MsgIter \<Rightarrow> message list \<Rightarrow> 'a heap_scheme \<Rightarrow> bool" where
  "at_messages iter ms h \<longleftrightarrow>
     (\<exists>b i. iter = \<lparr>msg_buf_start = Ptr b i,
                   msg_buf_end = Ptr b (i + length (concat (map encode ms)))\<rparr>) \<and>
     bytes_at (msg_buf_start iter) (concat (map encode ms)) h \<and> list_all encodable ms"

lemma bytes_at_block:
  "bytes_at (Ptr b i) bs h \<longleftrightarrow> bs = [] \<or> (\<exists>cs. blocks h b = Some cs \<and> i + length bs \<le> length cs \<and>
     take (length bs) (drop i cs) = map Some bs)"
proof -
  have "determinate cs = Inr bs \<longleftrightarrow> cs = map Some bs" for cs
  proof
    assume "determinate cs = Inr bs"
    then have "list_all (\<lambda>c. c \<noteq> None) cs" "bs = map the cs"
      by (auto simp: determinate_def split: if_splits)
    then show "cs = map Some bs" by (induction cs arbitrary: bs) auto
  qed simp
  then show ?thesis
    by (cases "bs = []")
      (auto simp: bytes_at_def read_bytes_def read_cells_def bind_res_eq_Inr split: option.splits)
qed

lemma bytes_at_append:
  "bytes_at (Ptr b i) (xs @ ys) h \<longleftrightarrow> bytes_at (Ptr b i) xs h \<and> bytes_at (Ptr b (i + length xs)) ys h"
proof (cases "xs = [] \<or> ys = []")
  case True
  then show ?thesis by (auto simp: bytes_at_block)
next
  case False
  have "take (length xs + length ys) (drop i cs) = map Some xs @ map Some ys \<longleftrightarrow>
      take (length xs) (drop i cs) = map Some xs \<and>
      take (length ys) (drop (i + length xs) cs) = map Some ys"
    if "i + length xs + length ys \<le> length cs" for cs :: "cell list"
    using that by (simp add: take_add append_eq_append_conv add.commute)
  with False show ?thesis
    by (auto simp: bytes_at_block add.assoc)
qed

lemma bytes_at_slice:
  assumes "bytes_at (Ptr b i) bs h" "j + n \<le> length bs"
  shows "read_bytes (Ptr b (i + j)) n h = Inr (take n (drop j bs))"
proof -
  have "bs = take j bs @ take n (drop j bs) @ drop (j + n) bs"
    by (metis add.commute append_take_drop_id drop_drop)
  with assms(1) have "bytes_at (Ptr b (i + length (take j bs))) (take n (drop j bs)) h"
    by (metis bytes_at_append)
  moreover from assms(2) have "length (take j bs) = j" "length (take n (drop j bs)) = n" by auto
  ultimately show ?thesis by (simp only: bytes_at_def)
qed

lemma bytes_at_byte:
  assumes "bytes_at (Ptr b i) bs h" "j < length bs"
  shows "read_byte (Ptr b (i + j)) h = Inr (bs ! j)"
  using bytes_at_slice [OF assms(1), of j 1] assms(2)
  by (simp add: read_byte_def hd_drop_conv_nth take_Suc)

lemma bytes_at_uint16:
  assumes "bytes_at (Ptr b i) bs h" "Suc j < length bs"
  shows "load_uint16le (Ptr b (i + j)) h = Inr (word_cat (bs ! Suc j) (bs ! j))"
  using bytes_at_slice [OF assms(1), of j 2] assms(2)
  by (simp add: load_uint16le_def nth_drop)

lemma message_bytes_nth:
  "message_bytes t i payload ! 0 = MsgType_value t"
  "message_bytes t i payload ! 1 = mem_uint16_byte_low i"
  "message_bytes t i payload ! 2 = mem_uint16_byte_high i"
  "message_bytes t i payload ! 3 = mem_uint16_byte_low (of_nat (length payload))"
  "message_bytes t i payload ! 4 = mem_uint16_byte_high (of_nat (length payload))"
  "message_bytes t i payload ! (5 + n) = payload ! n"
  by (simp_all add: message_bytes_def uint16_bytes_def numeral_eq_Suc)

lemma MsgType_of_value:
  "(MsgType_value t \<le> 2 \<or> MsgType_value t = 255) \<and> MsgType_of_byte (MsgType_value t) = t"
  by (cases t) (simp_all add: MsgType_of_byte_def)

lemma at_messageE:
  assumes "at_message iter m h"
  obtains b i e where "msg_buf_start iter = Ptr b i" "msg_buf_end iter = Ptr b e" "i < e"
    "bytes_at (Ptr b i) (message_bytes (msg_type_of m) (msg_id_of m) (payload_of m)) h"
    "length (payload_of m) \<le> 65535"
  using assms
  by (cases "msg_buf_start iter"; cases "msg_buf_end iter")
    (auto simp: at_message_def msg_iter_has_msg_def encode_eq encodable_payload)

lemma at_message_header:
  assumes "at_message iter m h"
  shows "msg_iter_type iter h = Inr (msg_type_of m)"
    and "msg_iter_msg_id iter h = Inr (msg_id_of m)"
    and "msg_iter_payload_length iter h = Inr (of_nat (length (payload_of m)))"
    and "unat (of_nat (length (payload_of m)) :: u16) = length (payload_of m)"
proof -
  let ?bytes = "message_bytes (msg_type_of m) (msg_id_of m) (payload_of m)"
  from assms obtain b i e where start: "msg_buf_start iter = Ptr b i" and
    bytes: "bytes_at (Ptr b i) ?bytes h" and len: "length (payload_of m) \<le> 65535"
    by (rule at_messageE)
  from assms have has: "msg_iter_has_msg iter" by (simp add: at_message_def)
  show "unat (of_nat (length (payload_of m)) :: u16) = length (payload_of m)"
    using len by (simp add: unat_of_nat)
  show "msg_iter_type iter h = Inr (msg_type_of m)"
    using bytes_at_byte [OF bytes, of 0] MsgType_of_value [of "msg_type_of m"] has
    by (simp add: msg_iter_type_def start message_bytes_nth)
  show "msg_iter_msg_id iter h = Inr (msg_id_of m)"
    using bytes_at_uint16 [OF bytes, of 1] has
    by (simp add: msg_iter_msg_id_def start message_bytes_nth [simplified] numeral_2_eq_2 [symmetric])
  show "msg_iter_payload_length iter h = Inr (of_nat (length (payload_of m)))"
    using bytes_at_uint16 [OF bytes, of 3] has
    by (simp add: msg_iter_payload_length_def start message_bytes_nth)
qed

lemma at_message_payload:
  assumes "at_message iter m h"
  obtains b i where "msg_buf_start iter = Ptr b i"
    and "msg_iter_payload iter h = Inr \<lparr>blk_data = Ptr b (i + 5),
      blk_size = length (payload_of m), blk_capacity = length (payload_of m)\<rparr>"
    and "bytes_at (Ptr b (i + 5)) (payload_of m) h"
proof -
  from assms obtain b i e where start: "msg_buf_start iter = Ptr b i" and
    bytes: "bytes_at (Ptr b i) (message_bytes (msg_type_of m) (msg_id_of m) (payload_of m)) h"
    by (rule at_messageE)
  let ?header = "take 5 (message_bytes (msg_type_of m) (msg_id_of m) (payload_of m))"
  have "message_bytes (msg_type_of m) (msg_id_of m) (payload_of m) = ?header @ payload_of m"
    by (simp add: message_bytes_def uint16_bytes_def)
  with bytes have "bytes_at (Ptr b (i + length ?header)) (payload_of m) h"
    by (metis bytes_at_append)
  then have payload: "bytes_at (Ptr b (i + 5)) (payload_of m) h"
    by simp
  note header = at_message_header [OF assms]
  from assms have "msg_iter_has_msg iter" by (simp add: at_message_def)
  with header(3,4) have "msg_iter_payload iter h = Inr \<lparr>blk_data = Ptr b (i + 5),
      blk_size = length (payload_of m), blk_capacity = length (payload_of m)\<rparr>"
    by (simp add: msg_iter_payload_def msg_iter_payload_length_def start mem_block_make_def)
  with payload start show ?thesis by (auto intro: that)
qed

lemma assert_type_at_message [simp]:
  "at_message iter m h \<Longrightarrow> assert_type iter t h = assert_that (msg_type_of m = t)"
  by (simp add: assert_type_def at_message_header)

lemma at_borrow:
  assumes "at_message iter (Borrow i fl bl) h"
  shows "msg_iter_borrow_frame_length iter h = Inr fl"
    and "msg_iter_borrow_buffer_length iter h = Inr bl"
proof -
  from assms obtain b j where "msg_buf_start iter = Ptr b j" and
    payload: "msg_iter_payload iter h = Inr \<lparr>blk_data = Ptr b (j + 5), blk_size = 2, blk_capacity = 2\<rparr>"
    and bytes: "bytes_at (Ptr b (j + 5)) [fl, bl] h"
    by (rule at_message_payload) simp
  show "msg_iter_borrow_frame_length iter h = Inr fl"
    using assms payload bytes_at_byte [OF bytes, of 0]
    by (simp add: msg_iter_borrow_frame_length_def)
  show "msg_iter_borrow_buffer_length iter h = Inr bl"
    using assms payload bytes_at_byte [OF bytes, of 1]
    by (simp add: msg_iter_borrow_buffer_length_def)
qed

lemma at_enqueue:
  assumes "at_message iter (Enqueue i idx frame) h"
  shows "msg_iter_enqueue_frame_idx iter h = Inr idx"
    and "\<exists>p. msg_iter_enqueue_frame iter h =
      Inr \<lparr>blk_data = p, blk_size = length frame, blk_capacity = length frame\<rparr> \<and>
      bytes_at p frame h \<and> (\<exists>b j k. msg_buf_start iter = Ptr b j \<and> p = Ptr b k)"
proof -
  let ?len = "uint16_bytes (of_nat (length frame))"
  from assms obtain b j where start: "msg_buf_start iter = Ptr b j" and
    payload: "msg_iter_payload iter h = Inr \<lparr>blk_data = Ptr b (j + 5),
      blk_size = 3 + length frame, blk_capacity = 3 + length frame\<rparr>"
    and bytes: "bytes_at (Ptr b (j + 5)) ((idx # ?len) @ frame) h"
    by (rule at_message_payload) simp
  have max: "length frame + 3 \<le> 65535" using assms by (auto simp: at_message_def)
  from bytes have "bytes_at (Ptr b (j + 5 + length (idx # ?len))) frame h"
    by (simp only: bytes_at_append)
  then have frame: "bytes_at (Ptr b (j + 5 + 3)) frame h" by simp
  have slice: "mem_block_slice \<lparr>blk_data = Ptr b (j + 5), blk_size = 3 + length frame,
      blk_capacity = 3 + length frame\<rparr> 3 (size_sub (3 + length frame) 3) =
      Inr \<lparr>blk_data = Ptr b (j + 5 + 3), blk_size = length frame, blk_capacity = length frame\<rparr>"
    using max by (simp add: mem_block_slice_ok)
  have eq: "msg_iter_enqueue_frame iter h =
      Inr \<lparr>blk_data = Ptr b (j + 5 + 3), blk_size = length frame, blk_capacity = length frame\<rparr>"
    using assms payload
    by (simp only: msg_iter_enqueue_frame_def assert_type_at_message msg_type_of.simps
        assert_that_simps bind_res_simps MemBlock.select_convs slice refl)
  show "msg_iter_enqueue_frame_idx iter h = Inr idx"
    using assms payload bytes_at_byte [OF bytes, of 0]
    by (simp add: msg_iter_enqueue_frame_idx_def)
  show "\<exists>p. msg_iter_enqueue_frame iter h =
      Inr \<lparr>blk_data = p, blk_size = length frame, blk_capacity = length frame\<rparr> \<and>
      bytes_at p frame h \<and> (\<exists>b j k. msg_buf_start iter = Ptr b j \<and> p = Ptr b k)"
    using frame start eq by auto
qed

lemma at_fail:
  assumes "at_message iter (Fail i causing code) h"
  shows "msg_iter_fail_offending_msg_id iter h = Inr causing"
    and "msg_iter_fail_error_code iter h = Inr code"
proof -
  from assms obtain b j where "msg_buf_start iter = Ptr b j" and
    payload: "msg_iter_payload iter h = Inr \<lparr>blk_data = Ptr b (j + 5), blk_size = 3, blk_capacity = 3\<rparr>"
    and bytes: "bytes_at (Ptr b (j + 5)) (uint16_bytes causing @ [code]) h"
    by (rule at_message_payload) (simp add: uint16_bytes_def)
  show "msg_iter_fail_offending_msg_id iter h = Inr causing"
    using assms payload bytes_at_uint16 [OF bytes, of 0]
    by (simp add: msg_iter_fail_offending_msg_id_def uint16_bytes_def)
  show "msg_iter_fail_error_code iter h = Inr code"
    using assms payload bytes_at_byte [OF bytes, of 2]
    by (simp add: msg_iter_fail_error_code_def uint16_bytes_def)
qed

section \<open>Buffers full of messages\<close>

lemma at_messages_Nil [simp]: "at_messages iter [] h \<Longrightarrow> \<not> msg_iter_has_msg iter"
  by (auto simp: at_messages_def msg_iter_has_msg_def)

lemma at_messages_ConsD:
  assumes "at_messages iter (m # ms) h"
  shows "at_message iter m h"
    and "\<exists>iter'. msg_iter_next iter h = Inr iter' \<and> at_messages iter' ms h"
proof -
  let ?rest = "concat (map encode ms)"
  from assms obtain b i where
    iter: "iter = \<lparr>msg_buf_start = Ptr b i, msg_buf_end = Ptr b (i + length (encode m @ ?rest))\<rparr>"
    and bytes: "bytes_at (Ptr b i) (encode m @ ?rest) h" and enc: "list_all encodable (m # ms)"
    by (auto simp: at_messages_def)
  from bytes have split: "bytes_at (Ptr b i) (encode m) h"
      "bytes_at (Ptr b (i + length (encode m))) ?rest h"
    by (simp_all add: bytes_at_append)
  have "0 < length (encode m)" by simp
  then have has: "msg_iter_has_msg iter" by (simp add: iter msg_iter_has_msg_def)
  with split(1) enc show m: "at_message iter m h" by (simp add: at_message_def iter)
  let ?iter = "\<lparr>msg_buf_start = Ptr b (i + length (encode m)),
      msg_buf_end = Ptr b (i + length (encode m @ ?rest))\<rparr>"
  have "msg_iter_next iter h = Inr ?iter"
    using has at_message_header(3,4) [OF m]
    by (simp add: msg_iter_next_def iter encode_eq)
  moreover have "at_messages ?iter ms h"
    using split(2) enc by (auto simp: at_messages_def)
  ultimately show "\<exists>iter'. msg_iter_next iter h = Inr iter' \<and> at_messages iter' ms h" by blast
qed

lemma at_messages_make:
  assumes "blocks h b = Some cs" "length (concat (map encode ms)) \<le> length cs"
    "take (length (concat (map encode ms))) cs = map Some (concat (map encode ms))"
    "list_all encodable ms"
  shows "at_messages (msg_iter_make (Ptr b 0) (length (concat (map encode ms)))) ms h"
  using assms by (auto simp: at_messages_def msg_iter_make_def bytes_at_block)

lemma at_messages_cong:
  "at_messages iter ms h \<Longrightarrow> (\<And>b i. msg_buf_start iter = Ptr b i \<Longrightarrow> blocks h' b = blocks h b) \<Longrightarrow>
   at_messages iter ms h'"
  by (auto simp: at_messages_def bytes_at_block)

section \<open>The contract with the loops\<close>

text \<open>
  The interface between an iterator and a client that loops over it: \<open>holds it ms h\<close> says
  which messages are still to come. A client whose body implements an abstract step \<open>spec\<close>,
  one message at a time, implements the run of \<open>spec\<close> over all the messages. \<open>spec\<close> is \<open>None\<close>
  where the body does not return.
\<close>

fun run_spec :: "('m \<Rightarrow> 'a \<Rightarrow> 'a option) \<Rightarrow> 'm list \<Rightarrow> 'a \<Rightarrow> 'a option" where
  "run_spec spec [] a = Some a"
| "run_spec spec (m # ms) a = (case spec m a of None \<Rightarrow> None | Some a' \<Rightarrow> run_spec spec ms a')"

locale message_stream =
  fixes has_msg :: "'it \<Rightarrow> bool"
    and advance :: "'it \<Rightarrow> 'h \<Rightarrow> 'it result"
    and holds :: "'it \<Rightarrow> 'm list \<Rightarrow> 'h \<Rightarrow> bool"
    and for_each :: "('it \<Rightarrow> 's \<Rightarrow> 'h \<Rightarrow> ('s \<times> 'h) result) \<Rightarrow> 'it \<Rightarrow> 's \<Rightarrow> 'h \<Rightarrow> ('s \<times> 'h) result"
  assumes holds_Nil: "holds it [] h \<Longrightarrow> \<not> has_msg it"
    and holds_Cons: "holds it (m # ms) h \<Longrightarrow>
      has_msg it \<and> (\<exists>it'. advance it h = Inr it' \<and> holds it' ms h)"
    and for_each_unfold: "for_each body it s h =
      (if has_msg it
       then bind_res (body it s h) (\<lambda>(s, h). bind_res (advance it h) (\<lambda>it. for_each body it s h))
       else Inr (s, h))"
begin

lemma for_each_implements:
  assumes body: "\<And>it m ms a a' s h. rel a s h \<Longrightarrow> holds it (m # ms) h \<Longrightarrow> spec m a = Some a' \<Longrightarrow>
      returns (body it s h) (\<lambda>(s', h'). rel a' s' h' \<and> holds it (m # ms) h')"
    and "rel a s h" "holds it ms h" "run_spec spec ms a = Some a'"
  shows "returns (for_each body it s h) (\<lambda>(s', h'). rel a' s' h')"
  using assms(2-)
proof (induction ms arbitrary: a s h it)
  case Nil
  then show ?case by (simp add: for_each_unfold [of body it s h] holds_Nil)
next
  case (Cons m ms)
  then obtain a1 where a1: "spec m a = Some a1" "run_spec spec ms a1 = Some a'"
    by (auto split: option.splits)
  from body [OF Cons.prems(1,2) a1(1)] obtain s1 h1 where
    s1: "body it s h = Inr (s1, h1)" "rel a1 s1 h1" "holds it (m # ms) h1"
    by (auto simp: returns_iff)
  from holds_Cons [OF s1(3)] obtain it' where "advance it h1 = Inr it'" "holds it' ms h1" by blast
  moreover from this Cons.IH [OF s1(2) _ a1(2)]
  have "returns (for_each body it' s1 h1) (\<lambda>(s', h'). rel a' s' h')" by blast
  ultimately show ?case
    using s1 holds_Cons [OF Cons.prems(2)] by (simp add: for_each_unfold [of body it s h])
qed

text \<open>If the body fails at some message, the loop fails there too.\<close>

lemma for_each_fails:
  assumes body: "\<And>it m ms a s h. rel a s h \<Longrightarrow> holds it (m # ms) h \<Longrightarrow>
      (case spec m a of
         None \<Rightarrow> body it s h = Inl e
       | Some a' \<Rightarrow> returns (body it s h) (\<lambda>(s', h'). rel a' s' h' \<and> holds it (m # ms) h'))"
    and "rel a s h" "holds it ms h" "run_spec spec ms a = None"
  shows "for_each body it s h = Inl e"
  using assms(2-)
proof (induction ms arbitrary: a s h it)
  case Nil
  then show ?case by simp
next
  case (Cons m ms)
  note has = holds_Cons [OF Cons.prems(2)]
  show ?case
  proof (cases "spec m a")
    case None
    with body [OF Cons.prems(1,2)] has show ?thesis
      by (simp add: for_each_unfold [of body it s h])
  next
    case (Some a1)
    with body [OF Cons.prems(1,2)] obtain s1 h1 where
      s1: "body it s h = Inr (s1, h1)" "rel a1 s1 h1" "holds it (m # ms) h1"
      by (auto simp: returns_iff)
    from holds_Cons [OF s1(3)] obtain it' where "advance it h1 = Inr it'" "holds it' ms h1" by blast
    moreover from this Cons.IH [OF s1(2)] Cons.prems(3) Some
    have "for_each body it' s1 h1 = Inl e" by simp
    ultimately show ?thesis
      using s1 has by (simp add: for_each_unfold [of body it s h])
  qed
qed

end

text \<open>\<open>remaining rb\<close>: the messages still to come in an iterator over block \<open>rb\<close>.\<close>

definition remaining :: "nat \<Rightarrow> MsgIter \<Rightarrow> message list \<Rightarrow> 'a heap_scheme \<Rightarrow> bool" where
  "remaining rb it ms h \<longleftrightarrow> at_messages it ms h \<and> (\<exists>i. msg_buf_start it = Ptr rb i)"

lemma remaining_cong: "remaining rb it ms h \<Longrightarrow> blocks h' rb = blocks h rb \<Longrightarrow> remaining rb it ms h'"
  by (auto simp: remaining_def intro: at_messages_cong)

lemma remaining_ConsD: "remaining rb it (m # ms) h \<Longrightarrow> at_message it m h"
  by (auto simp: remaining_def dest: at_messages_ConsD)

text \<open>A receive buffer at \<open>p\<close> that begins with the messages \<open>ms\<close>.\<close>

definition messages_in :: "ptr \<Rightarrow> 'a heap_scheme \<Rightarrow> message list \<Rightarrow> bool" where
  "messages_in p h ms \<longleftrightarrow> list_all encodable ms \<and>
     (\<exists>rb cs. p = Ptr rb 0 \<and> blocks h rb = Some cs \<and>
        length (concat (map encode ms)) \<le> length cs \<and>
        take (length (concat (map encode ms))) cs = map Some (concat (map encode ms)))"

lemma messages_inE:
  assumes "messages_in p h ms"
  obtains rb cs where "p = Ptr rb 0" "blocks h rb = Some cs"
    "remaining rb (msg_iter_make (Ptr rb 0) (length (concat (map encode ms)))) ms h"
proof -
  from assms obtain rb cs where "p = Ptr rb 0" "blocks h rb = Some cs"
    "at_messages (msg_iter_make (Ptr rb 0) (length (concat (map encode ms)))) ms h"
    by (auto simp: messages_in_def intro: at_messages_make)
  then show ?thesis by (intro that) (auto simp: remaining_def msg_iter_make_def)
qed

interpretation iter: message_stream msg_iter_has_msg msg_iter_next "remaining rb" for_messages for rb
proof unfold_locales
  fix it m ms and h :: "'a heap_scheme"
  show "remaining rb it [] h \<Longrightarrow> \<not> msg_iter_has_msg it" by (auto simp: remaining_def)
  assume "remaining rb it (m # ms) h"
  then obtain i where msgs: "at_messages it (m # ms) h" and start: "msg_buf_start it = Ptr rb i"
    by (auto simp: remaining_def)
  from at_messages_ConsD(2) [OF msgs] obtain it' where
    it': "msg_iter_next it h = Inr it'" "at_messages it' ms h" by blast
  then have "\<exists>j. msg_buf_start it' = Ptr rb j"
    using start by (auto simp: msg_iter_next_def bind_res_eq_Inr Let_def)
  with it' at_messages_ConsD(1) [OF msgs]
  show "msg_iter_has_msg it \<and> (\<exists>it'. msg_iter_next it h = Inr it' \<and> remaining rb it' ms h)"
    by (auto simp: remaining_def at_message_def)
next
  fix body :: "MsgIter \<Rightarrow> 's \<Rightarrow> 'a heap_scheme \<Rightarrow> ('s \<times> 'a heap_scheme) result" and it s h
  show "for_messages body it s h =
      (if msg_iter_has_msg it
       then bind_res (body it s h) (\<lambda>(s, h).
            bind_res (msg_iter_next it h) (\<lambda>it. for_messages body it s h))
       else Inr (s, h))"
    by (rule for_messages.simps)
qed

end
