(* ===== verification/Memory_Properties.thy ===== *)
theory Memory_Properties
  imports Mem_Ring Msg_Builder Msg_Iter
begin

text \<open>
  What \<^verbatim>\<open>src/mem\<close> promises to its clients: the ring is a bounded first-in first-out queue, blocks
  are resized without their contents and freed without leaks, and 16-bit integers mean the
  same on machines of both byte orders.
\<close>

section \<open>A heap to try things on\<close>

text \<open>
  Block 1 is the storage of a ring of two entries of two cells, blocks 2 and 3 are an entry
  buffer each, block 4 is the block of a builder.
\<close>

definition small_heap :: heap where
  "small_heap = \<lparr>blocks = (\<lambda>b.
       if b = 1 then Some (replicate 4 None)
       else if b = 2 then Some [Some 7, Some 8]
       else if b = 3 then Some [Some 5, Some 6]
       else if b = 4 then Some (replicate 32 None) else None),
     next_block = 5, oom = (\<lambda>_. False), big_endian = True\<rparr>"

definition small_ring :: "nat \<Rightarrow> nat \<Rightarrow> MemRing" where
  "small_ring front len =
     \<lparr>ring_buf = \<lparr>blk_data = Ptr 1 0, blk_size = 4, blk_capacity = 4\<rparr>, ring_front = front, ring_len = len\<rparr>"

lemma small_ring_inv:
  "ring_inv 2 (small_ring 0 0) small_heap"
  "ring_inv 2 (small_ring 2 2) small_heap"
  "ring_inv 2 (small_ring 2 4) small_heap"
  by (auto simp: ring_inv_def owned_def small_ring_def small_heap_def)

section \<open>The ring\<close>

text \<open>
  C17. A ring is a first-in first-out queue: if a client enqueues the entries at \<open>ps\<close> into an empty
  ring with room for them and dequeues as many, it gets the same entries in the same order, and
  the ring is empty again, wherever the front of the ring stood.
\<close>

theorem ring_first_in_first_out:
  assumes "ring_inv n ring h" "ring_len ring = 0"
    and "map (\<lambda>p. ring_buffer n p (ring, h)) ps = map Some es"
    and "ring_buffer n d (ring, h) = Some ys" "n * length ps \<le> blk_size (ring_buf ring)"
  shows "returns (bind_res (enq_all (ring_enq n) ps (ring, h))
      (\<lambda>(ok, q). deq_all (ring_deq n) (ring_buffer n) d (length ps) q))
    (\<lambda>(out, (ring', h')). out = es \<and> ring_inv n ring' h' \<and> ring_len ring' = 0)"
  using ring.first_in_first_out [of n "(ring, h)" ps es d ys] assms
  by (auto simp: contents_empty_iff elim!: returns_mono)

theorem ring_first_in_first_out_witness:
  "returns (bind_res (enq_all (ring_enq 2) [Ptr 2 0, Ptr 3 0] (small_ring 2 0, small_heap))
      (\<lambda>(ok, q). deq_all (ring_deq 2) (ring_buffer 2) (Ptr 2 0) (length [Ptr 2 0, Ptr 3 0]) q))
    (\<lambda>(out, (ring', h')). out = [[Some 7, Some 8], [Some 5, Some 6]])"
proof -
  let ?ps = "[Ptr 2 0, Ptr 3 0]" and ?es = "[[Some 7, Some 8], [Some 5, Some 6]]"
  have inv: "ring_inv 2 (small_ring 2 0) small_heap"
    by (auto simp: ring_inv_def owned_def small_ring_def small_heap_def)
  have "map (\<lambda>p. ring_buffer 2 p (small_ring 2 0, small_heap)) ?ps = map Some ?es"
    "ring_buffer 2 (Ptr 2 0) (small_ring 2 0, small_heap) = Some [Some 7, Some 8]"
    "ring_len (small_ring 2 0) = 0" "2 * length ?ps \<le> blk_size (ring_buf (small_ring 2 0))"
    by (simp_all add: small_ring_def small_heap_def read_cells_def)
  from ring_first_in_first_out [OF inv this(3) this(1,2,4)] show ?thesis
    by (rule returns_mono) auto
qed

text \<open>
  Enqueueing succeeds exactly when the entry fits; it then appends the entry to the contents and
  stores into the ring's block only. Otherwise nothing changes.
\<close>

lemma ring_enqueue_exact:
  assumes inv: "ring_inv n ring h" and src: "read_cells src n h = Inr xs"
    and data: "blk_data (ring_buf ring) = Ptr b 0"
  shows "returns (mem_ring_enqueue ring src n h) (\<lambda>(ok, ring', h').
    ok = (ring_len ring + n \<le> blk_size (ring_buf ring)) \<and>
    (if ok then contents ring' h' = contents ring h @ xs \<and> ring_len ring' = ring_len ring + n \<and>
       ring_inv n ring' h' \<and> (\<forall>c. c \<noteq> b \<longrightarrow> blocks h' c = blocks h c) \<and> next_block h' = next_block h
     else ring' = ring \<and> h' = h))"
proof (cases "ring_len ring + n \<le> blk_size (ring_buf ring)")
  case False
  then show ?thesis using ring_inv_bounds [OF inv] by (simp add: mem_ring_enqueue_full)
next
  case True
  from inv data obtain cs where cs: "blocks h b = Some cs" "length cs = blk_size (ring_buf ring)"
    by (auto elim: ring_invE)
  note enq = mem_ring_enqueue_room [OF inv src True data cs(1) refl]
  show ?thesis
    using enq True ring_inv_after_enqueue [OF inv True data]
      contents_after_enqueue [OF inv enq(2) True data cs(1) refl enq(3) cs(2)]
    by simp
qed

text \<open>
  Dequeueing copies the oldest entry to the caller's buffer and removes it, storing into that
  buffer only. Peeking returns a pointer to the same cells without removing them, and dropping
  removes them without copying. With too little in the ring all three refuse and change nothing.
\<close>

lemma ring_dequeue_exact:
  assumes inv: "ring_inv n ring h" and dst: "blocks h d = Some ds" "i + n \<le> length ds"
    and other: "blk_data (ring_buf ring) \<noteq> Ptr d 0"
  shows "if n \<le> ring_len ring
    then returns (mem_ring_dequeue ring (Ptr d i) n h) (\<lambda>(ok, ring', h'). ok \<and> ring_inv n ring' h' \<and>
        contents ring' h' = drop n (contents ring h) \<and>
        h' = h\<lparr>blocks := (blocks h)(d := Some (overlay i (take n (contents ring h)) ds))\<rparr> \<and>
        mem_ring_drop ring n = Inr (True, ring')) \<and>
      returns (mem_ring_peek ring old n) (\<lambda>(ok, p). ok \<and> read_cells p n h = Inr (take n (contents ring h)))
    else mem_ring_dequeue ring (Ptr d i) n h = Inr (False, ring, h) \<and>
      mem_ring_drop ring n = Inr (False, ring) \<and> mem_ring_peek ring old n = Inr (False, old)"
proof (cases "n \<le> ring_len ring")
  case False
  then show ?thesis by (simp add: mem_ring_dequeue_empty mem_ring_drop_def mem_ring_peek_def)
next
  case True
  from inv obtain b cs where b: "blk_data (ring_buf ring) = Ptr b 0" "blocks h b = Some cs"
    by (rule ring_invE)
  with other have "d \<noteq> b" by auto
  then show ?thesis
    using True b ring_dequeue_returns [OF inv True b(1) dst] mem_ring_drop_some [OF inv True]
      mem_ring_peek_some [OF inv True b(1)]
    by (auto elim!: returns_mono)
qed

text \<open>
  \<^verbatim>\<open>mem_ring_is_empty\<close> answers the opposite of its name: it is true exactly when the ring holds
  something.
\<close>

lemma ring_is_empty_inverted: "mem_ring_is_empty ring \<longleftrightarrow> contents ring h \<noteq> []"
  by (simp add: mem_ring_is_empty_def contents_empty_iff)

section \<open>Blocks\<close>

text \<open>The blocks a client can hold: one without memory, or one that owns its memory.\<close>

lemma block_ok_cases:
  assumes "block_ok block h"
  obtains "blk_capacity block = 0" "blk_size block = 0"
  | b where "owned block b (blk_capacity block) h"
  using assms block_ok_owned [OF assms] by (cases "blk_capacity block = 0") (auto simp: block_ok_def)

text \<open>
  Resizing a block gives it the requested size. While the capacity is large enough nothing moves
  and no byte changes; otherwise the old memory is freed and the new memory holds nothing: the
  contents are not carried over.
\<close>

lemma block_resize_exact:
  assumes ok: "block_ok block h" and mem: "\<not> oom h (next_block h)"
  shows "returns (mem_block_resize block n h) (\<lambda>(block', h'). block_ok block' h' \<and>
    blk_size block' = n \<and> blk_capacity block' = max n (blk_capacity block) \<and>
    (if n \<le> blk_capacity block then blk_data block' = blk_data block \<and> h' = h
     else blk_data block' = Ptr (next_block h) 0 \<and> blocks h' (next_block h) = Some (replicate n None) \<and>
       (0 < blk_capacity block \<longrightarrow> blocks h' (block_of (blk_data block)) = None)))"
  using ok
proof (cases rule: block_ok_cases)
  case 1
  then show ?thesis
    using mem mem_block_alloc_ok [of n h]
    by (cases "n = 0") (auto simp: mem_block_resize_def block_ok_def)
next
  case (2 b)
  then show ?thesis
    using mem mem_block_resize_grows [OF 2, of n] mem_block_resize_fits [of n block h]
    by (cases "n \<le> blk_capacity block") (auto simp: owned_def block_ok_def)
qed

fun resize_all :: "nat list \<Rightarrow> MemBlock \<times> 'a heap_scheme \<Rightarrow> (MemBlock \<times> 'a heap_scheme) result" where
  "resize_all [] (block, h) = Inr (block, h)"
| "resize_all (n # ns) (block, h) = bind_res (mem_block_resize block n h) (resize_all ns)"

text \<open>All memory of \<open>h'\<close> that was not in \<open>h\<close> is the block's.\<close>

definition only_new :: "MemBlock \<Rightarrow> 'a heap_scheme \<Rightarrow> 'a heap_scheme \<Rightarrow> bool" where
  "only_new block h h' \<longleftrightarrow> block_ok block h' \<and> oom h' = oom h \<and> next_block h \<le> next_block h' \<and>
     (0 < blk_capacity block \<longrightarrow> next_block h \<le> block_of (blk_data block)) \<and>
     (\<forall>b. (blk_capacity block = 0 \<or> b \<noteq> block_of (blk_data block)) \<longrightarrow> blocks h' b = blocks h b)"

lemma only_new_resize:
  assumes new: "only_new block h h'" and mem: "\<And>b. \<not> oom h b"
    and fresh: "\<And>b. next_block h \<le> b \<Longrightarrow> blocks h b = None"
  shows "returns (mem_block_resize block n h') (\<lambda>(block', h''). only_new block' h h'')"
proof -
  from new have ok: "block_ok block h'" and oom: "\<not> oom h' b" for b
    using mem by (auto simp: only_new_def)
  from ok show ?thesis
  proof (cases rule: block_ok_cases)
    case 1
    then show ?thesis
      using new oom mem_block_alloc_ok [of n h']
      by (cases "n = 0") (auto simp: mem_block_resize_def only_new_def block_ok_def)
  next
    case (2 b)
    then show ?thesis
      using new oom fresh mem_block_resize_grows [OF 2, of n] mem_block_resize_fits [of n block h']
      by (cases "n \<le> blk_capacity block") (auto simp: only_new_def owned_def block_ok_def)
  qed
qed

lemma only_new_resize_all:
  assumes "only_new block h h'" and mem: "\<And>b. \<not> oom h b"
    and fresh: "\<And>b. next_block h \<le> b \<Longrightarrow> blocks h b = None"
  shows "returns (resize_all ns (block, h')) (\<lambda>(block', h''). only_new block' h h'')"
  using assms(1)
proof (induction ns arbitrary: block h')
  case Nil
  then show ?case by simp
next
  case (Cons n ns)
  then show ?case
    by (auto intro: returns_mono [OF only_new_resize [OF Cons.prems mem fresh]])
qed

text \<open>
  C34. A block leaks nothing and frees nothing twice: however often it is resized between
  \<^verbatim>\<open>mem_block_alloc\<close> and \<^verbatim>\<open>mem_block_free\<close>, the memory of the program is afterwards what it was
  before.
\<close>

theorem block_lifecycle:
  assumes mem: "\<And>b. \<not> oom h b" and fresh: "\<And>b. next_block h \<le> b \<Longrightarrow> blocks h b = None"
  shows "returns (bind_res (mem_block_alloc n h) (\<lambda>x. bind_res (resize_all ns x) (\<lambda>(block, h).
      mem_block_free block h)))
    (\<lambda>(block, h'). blk_capacity block = 0 \<and> (\<forall>b. blocks h' b = blocks h b))"
proof -
  have alloc: "returns (mem_block_alloc n h) (\<lambda>(block, h'). only_new block h h')"
    using mem mem_block_alloc_ok [of n h] mem_block_alloc_0 [of h]
    by (cases "n = 0") (auto simp: only_new_def block_ok_def)
  have free: "returns (mem_block_free block h') (\<lambda>(block, h''). blk_capacity block = 0 \<and>
      (\<forall>b. blocks h'' b = blocks h b))" if new: "only_new block h h'" for block h'
  proof -
    from new have "block_ok block h'" by (simp add: only_new_def)
    then show ?thesis
    proof (cases rule: block_ok_cases)
      case 1
      with new show ?thesis by (simp add: mem_block_free_def only_new_def)
    next
      case (2 b)
      then show ?thesis
        using new fresh mem_block_free_owned [OF 2] by (auto simp: only_new_def owned_def)
    qed
  qed
  show ?thesis
    using free by (auto intro!: returns_mono [OF alloc] intro: returns_mono [OF only_new_resize_all [OF _ mem fresh]])
qed

theorem block_lifecycle_witness:
  "returns (bind_res (mem_block_alloc 0 small_heap) (\<lambda>x. bind_res (resize_all [3, 1, 8] x) (\<lambda>(block, h).
      mem_block_free block h))) (\<lambda>(block, h'). \<forall>b. blocks h' b = blocks small_heap b)"
  by (rule returns_mono [OF block_lifecycle [of small_heap 0 "[3, 1, 8]"]]) (auto simp: small_heap_def)

section \<open>Integers in memory\<close>

text \<open>
  A 16-bit integer that the builder stores and the iterator loads is the same integer, on machines
  of both byte orders, at every offset that fits, and its bytes are low byte first.
\<close>

lemma uint16_memory_round_trip:
  assumes block: "blk_data block = Ptr k 0" "blk_size block \<le> length cs" "blocks h k = Some cs"
    and fits: "off + 2 \<le> blk_size block" "blk_size block < size_t_range"
  shows "returns (set_uint16 block off x h) (\<lambda>h'.
    load_uint16le (ptr_add (blk_data block) off) h' = Inr x \<and>
    read_bytes (Ptr k off) 2 h' = Inr [mem_uint16_byte_low x, mem_uint16_byte_high x] \<and>
    big_endian h' = big_endian h)"
proof -
  let ?lo = "Some (mem_uint16_byte_low x)" and ?hi = "Some (mem_uint16_byte_high x)"
  let ?h = "h\<lparr>blocks := (blocks h)(k := Some (overlay off [?lo, ?hi] cs))\<rparr>"
  have "set_uint16 block off x h = Inr ?h"
    using block fits overlay_overlay_adjacent [of off "[?lo]" "[?hi]" cs]
    by (simp add: set_uint16_def write_cells_block)
  moreover have "read_bytes (Ptr k off) 2 ?h = Inr [mem_uint16_byte_low x, mem_uint16_byte_high x]"
    using block fits take_drop_overlay [of off "[?lo, ?hi]" cs]
    by (intro read_bytes_block) (auto simp: numeral_2_eq_2)
  ultimately show ?thesis
    using block by (simp add: load_uint16le_def)
qed

end
