(* ===== verification/Wire_Parser.thy ===== *)
theory Wire_Parser
  imports Wire
begin

text \<open>
  A reference decoder for the protocol: which byte sequences are datagrams of whole messages,
  and of which. It is the inverse of \<open>encode\<close>, and what the loops over a receive buffer are
  compared with. It does not model code of the repository.
\<close>

fun parse_payload :: "u8 \<Rightarrow> u16 \<Rightarrow> u8 list \<Rightarrow> message option" where
  "parse_payload t i payload =
     (if t = 0 then (case payload of [fl, bl] \<Rightarrow> Some (Borrow i fl bl) | _ \<Rightarrow> None)
      else if t = 1 then (case payload of [] \<Rightarrow> Some (Lent i) | _ \<Rightarrow> None)
      else if t = 2 then (case payload of
          idx # l0 # l1 # frame \<Rightarrow>
            if length frame = unat (word_cat l1 l0 :: u16) then Some (Enqueue i idx frame) else None
        | _ \<Rightarrow> None)
      else if t = 255 then (case payload of
          [c0, c1, code] \<Rightarrow> Some (Fail i (word_cat c1 c0) code) | _ \<Rightarrow> None)
      else None)"

function parse :: "u8 list \<Rightarrow> message list option" where
  "parse bs = (case bs of
       [] \<Rightarrow> Some []
     | t # i0 # i1 # l0 # l1 # rest \<Rightarrow>
         let n = unat (word_cat l1 l0 :: u16) in
         if length rest < n then None
         else (case parse_payload t (word_cat i1 i0) (take n rest) of
                 None \<Rightarrow> None
               | Some m \<Rightarrow> map_option ((#) m) (parse (drop n rest)))
     | _ \<Rightarrow> None)"
  by pat_completeness auto
termination
  by (relation "measure length") auto

declare parse.simps [simp del]

abbreviation datagram :: "message list \<Rightarrow> u8 list" where
  "datagram ms \<equiv> concat (map encode ms)"

lemma uint16_bytes_word_cat [simp]: "uint16_bytes (word_cat b a) = [a, b]"
  by (simp add: uint16_bytes_def)

lemma length_field:
  assumes "n \<le> 65535"
  shows "unat (word_cat (mem_uint16_byte_high (of_nat n)) (mem_uint16_byte_low (of_nat n)) :: u16) = n"
  using assms by (simp add: unat_of_nat)

lemma length_field_inverse:
  "n = unat (word_cat b a :: u16) \<Longrightarrow> uint16_bytes (of_nat n) = [a, b]"
  by simp

lemma parse_payload_encode:
  assumes "encodable m"
  shows "\<exists>t i p. encode m = MsgType_value t # uint16_bytes i @ uint16_bytes (of_nat (length p)) @ p \<and>
    length p \<le> 65535 \<and> parse_payload (MsgType_value t) i p = Some m"
proof (cases m)
  case (Enqueue i idx frame)
  with assms have "length frame \<le> 65535" by simp
  with assms Enqueue show ?thesis
    by (intro exI [of _ MSG_TYPE_ENQUEUE] exI [of _ i]
        exI [of _ "idx # uint16_bytes (of_nat (length frame)) @ frame"])
      (simp add: message_bytes_def uint16_bytes_def length_field [simplified])
next
  case (Borrow i fl bl)
  then show ?thesis
    by (intro exI [of _ MSG_TYPE_BORROW] exI [of _ i] exI [of _ "[fl, bl]"])
      (simp add: message_bytes_def)
next
  case (Lent i)
  then show ?thesis
    by (intro exI [of _ MSG_TYPE_LENT] exI [of _ i] exI [of _ "[]"]) (simp add: message_bytes_def)
next
  case (Fail i causing code)
  then show ?thesis
    by (intro exI [of _ MSG_TYPE_FAIL] exI [of _ i] exI [of _ "uint16_bytes causing @ [code]"])
      (simp add: message_bytes_def uint16_bytes_def)
qed

lemma parse_header:
  "parse (t # i0 # i1 # l0 # l1 # rest) =
     (let n = unat (word_cat l1 l0 :: u16) in
      if length rest < n then None
      else (case parse_payload t (word_cat i1 i0) (take n rest) of
              None \<Rightarrow> None
            | Some m \<Rightarrow> map_option ((#) m) (parse (drop n rest))))"
  by (subst parse.simps) (simp del: parse_payload.simps)

lemma parse_datagram: "list_all encodable ms \<Longrightarrow> parse (datagram ms) = Some ms"
proof (induction ms)
  case Nil
  then show ?case by (simp add: parse.simps)
next
  case (Cons m ms)
  from Cons.prems have "encodable m" by simp
  from parse_payload_encode [OF this] obtain t i p where
    enc: "encode m = MsgType_value t # uint16_bytes i @ uint16_bytes (of_nat (length p)) @ p"
    and p: "length p \<le> 65535" "parse_payload (MsgType_value t) i p = Some m"
    by blast
  have "datagram (m # ms) = MsgType_value t # mem_uint16_byte_low i # mem_uint16_byte_high i #
      mem_uint16_byte_low (of_nat (length p)) # mem_uint16_byte_high (of_nat (length p)) #
      p @ datagram ms"
    by (simp add: enc uint16_bytes_def)
  moreover have "parse (datagram ms) = Some ms" using Cons by simp
  ultimately show ?case
    using p(2) length_field [OF p(1)]
    by (simp add: parse_header Let_def del: parse_payload.simps)
qed

lemma parse_payload_Some:
  assumes "parse_payload t i p = Some m" "length p \<le> 65535"
  shows "encode m = t # uint16_bytes i @ uint16_bytes (of_nat (length p)) @ p \<and> encodable m"
  using assms
  by (auto simp: message_bytes_def length_field_inverse split: if_splits list.splits)

lemma parse_Some: "parse bs = Some ms \<Longrightarrow> bs = datagram ms \<and> list_all encodable ms"
proof (induction bs arbitrary: ms rule: parse.induct)
  case (1 bs)
  show ?case
  proof (cases "bs = []")
    case True
    with "1.prems" show ?thesis by (simp add: parse.simps)
  next
    case False
    with "1.prems" obtain t i0 i1 l0 l1 rest where bs: "bs = t # i0 # i1 # l0 # l1 # rest"
      by (subst (asm) parse.simps) (auto split: list.splits)
    let ?n = "unat (word_cat l1 l0 :: u16)"
    from "1.prems" obtain m ms' where fits: "\<not> length rest < ?n"
      and m: "parse_payload t (word_cat i1 i0) (take ?n rest) = Some m"
      and ms': "parse (drop ?n rest) = Some ms'" and ms: "ms = m # ms'"
      by (subst (asm) parse.simps)
        (auto simp: bs Let_def simp del: parse_payload.simps split: if_splits option.splits)
    have len: "length (take ?n rest) = ?n" using fits by simp
    then have "length (take ?n rest) \<le> 65535" using unat_u16_less [of "word_cat l1 l0"] by simp
    from parse_payload_Some [OF m this] len
    have "encode m = t # i0 # i1 # l0 # l1 # take ?n rest" "encodable m"
      by (simp_all add: length_field_inverse)
    moreover have "drop ?n rest = datagram ms' \<and> list_all encodable ms'"
      by (rule "1.IH" [OF bs refl refl refl refl refl fits m ms'])
    ultimately show ?thesis
      by (simp add: bs ms) (metis append_take_drop_id)
  qed
qed

end
