(* ===== verification/Message_Properties.thy ===== *)
theory Message_Properties
  imports Memory_Properties Wire_Parser
begin

text \<open>
  What \<^verbatim>\<open>src/msg\<close> promises: the builder lays out exactly the bytes of the protocol, and the
  iterator finds in them what the builder put in, message by message.
\<close>

section \<open>Building\<close>

definition small_builder :: MsgBuilder where
  "small_builder = \<lparr>msg_buf = \<lparr>blk_data = Ptr 4 0, blk_size = 0, blk_capacity = 32\<rparr>, next_msg_id = 65535\<rparr>"

lemma small_builder_ok: "builder_ok small_builder small_heap"
  by (simp add: builder_ok_def owned_def small_builder_def small_heap_def initial_block_capacity_def)

lemma build_in_place:
  assumes ok: "builder_ok b h" and len: "5 + length payload \<le> initial_block_capacity"
  shows "returns (build b t (map Some payload) (length payload) h) (\<lambda>(b', h').
    builder_ok b' h' \<and> next_msg_id b' = next_msg_id b + 1 \<and>
    holds_message b' (message_bytes t (next_msg_id b) payload) h' \<and>
    blk_data (msg_buf b') = blk_data (msg_buf b) \<and> next_block h' = next_block h \<and>
    changes {block_of (blk_data (msg_buf b))} h h')"
proof -
  from ok obtain k n where own: "owned (msg_buf b) k n h" "initial_block_capacity \<le> n"
    by (auto simp: builder_ok_def)
  with len obtain cs where cs: "length cs = n"
    "take (5 + length payload) cs = map Some (message_bytes t (next_msg_id b) payload)"
    "build b t (map Some payload) (length payload) h =
      Inr (b\<lparr>msg_buf := (msg_buf b)\<lparr>blk_size := 5 + length payload\<rparr>, next_msg_id := next_msg_id b + 1\<rparr>,
           h\<lparr>blocks := (blocks h)(k := Some cs)\<rparr>)"
    by (auto simp: initial_block_capacity_def max_payload_len_def intro: build_small [OF own(1), of payload t])
  moreover have "blk_data (msg_buf b) = Ptr k 0" using own by (simp add: owned_def)
  moreover have "owned ((msg_buf b)\<lparr>blk_size := 5 + length payload\<rparr>) k n (h\<lparr>blocks := (blocks h)(k := Some cs)\<rparr>)"
    using own cs(1) len by (auto simp: owned_def)
  ultimately show ?thesis
    using own len by (auto simp: builder_ok_def holds_message_def changes_update intro!: read_bytes_block)
qed

text \<open>
  BORROW, LENT and FAIL messages are built in the block the builder has: it then holds exactly the
  bytes of the message, with the builder's next id, and the id is counted up modulo 65536.
\<close>

lemma small_messages_exact:
  assumes ok: "builder_ok b h"
  defines "built \<equiv> \<lambda>m (b', h'). holds_message b' (encode m) h' \<and> builder_ok b' h' \<and>
    next_msg_id b' = next_msg_id b + 1 \<and> blk_data (msg_buf b') = blk_data (msg_buf b) \<and>
    changes {block_of (blk_data (msg_buf b))} h h'"
  shows "returns (msg_builder_borrow b fl bl h) (built (Borrow (next_msg_id b) fl bl)) \<and>
    returns (msg_builder_lent b h) (built (Lent (next_msg_id b))) \<and>
    returns (msg_builder_fail b causing code h) (built (Fail (next_msg_id b) causing code))"
  using build_in_place [OF ok, of "[fl, bl]" MSG_TYPE_BORROW] build_in_place [OF ok, of "[]" MSG_TYPE_LENT]
    build_in_place [OF ok, of "uint16_bytes causing @ [code]" MSG_TYPE_FAIL]
  by (auto simp: built_def msg_builder_borrow_def msg_builder_lent_def msg_builder_fail_def uint16_bytes_def
      initial_block_capacity_def numeral_2_eq_2 numeral_3_eq_3 elim!: returns_mono)

text \<open>
  C33. A builder builds exactly the message it is asked for: afterwards its block holds the bytes of the
  protocol for it, with the builder's next id, and the id is counted up modulo 65536. BORROW, LENT and
  FAIL messages are built in the block the builder has. An ENQUEUE message is built from the frame of
  the caller, whatever is in it, up to 65532 bytes: the builder gets a larger block when it has to, and
  the caller's memory does not change.
\<close>

theorem built_messages_exact:
  assumes ok: "builder_ok b h" and frame: "read_cells frame (length bs) h = Inr (map Some bs)"
    and fits: "length bs \<le> 65532" and mem: "\<not> oom h (next_block h)"
  defines "built \<equiv> \<lambda>m (b', h'). holds_message b' (encode m) h' \<and> builder_ok b' h' \<and> next_msg_id b' = next_msg_id b + 1"
    and "in_place \<equiv> \<lambda>(b', h'). blk_data (msg_buf b') = blk_data (msg_buf b) \<and> changes {block_of (blk_data (msg_buf b))} h h'"
  shows "returns (msg_builder_borrow b fl bl h) (\<lambda>r. built (Borrow (next_msg_id b) fl bl) r \<and> in_place r) \<and>
    returns (msg_builder_lent b h) (\<lambda>r. built (Lent (next_msg_id b)) r \<and> in_place r) \<and>
    returns (msg_builder_fail b causing code h) (\<lambda>r. built (Fail (next_msg_id b) causing code) r \<and> in_place r) \<and>
    returns (msg_builder_enqueue b frame_idx frame (length bs) h) (\<lambda>r. built (Enqueue (next_msg_id b) frame_idx bs) r \<and>
      (\<forall>c. c < next_block h \<and> c \<noteq> block_of (blk_data (msg_buf b)) \<longrightarrow> blocks (snd r) c = blocks h c))"
proof -
  from ok obtain k where k: "blk_data (msg_buf b) = Ptr k 0" by (auto simp: builder_ok_def owned_def)
  have "returns (msg_builder_enqueue b frame_idx frame (length bs) h) (\<lambda>r. built (Enqueue (next_msg_id b) frame_idx bs) r \<and>
      (\<forall>c. c < next_block h \<and> c \<noteq> block_of (blk_data (msg_buf b)) \<longrightarrow> blocks (snd r) c = blocks h c))"
    by (rule returns_mono [OF msg_builder_enqueue_returns [OF ok frame fits mem k]]) (auto simp: built_def k changesD(1))
  with small_messages_exact [OF ok, of fl bl causing code] show ?thesis
    unfolding built_def in_place_def by (auto simp del: encode.simps elim!: returns_mono)
qed

theorem built_messages_exact_witness:
  "returns (msg_builder_fail small_builder 0x0102 4 small_heap) (\<lambda>(b', h').
     holds_message b' [0xFF, 0xFF, 0xFF, 3, 0, 2, 1, 4] h' \<and> next_msg_id b' = 0) \<and>
   returns (msg_builder_enqueue small_builder 9 (Ptr 2 0) 2 small_heap) (\<lambda>(b', h').
     holds_message b' [2, 0xFF, 0xFF, 5, 0, 9, 2, 0, 7, 8] h' \<and> blocks h' 2 = Some [Some 7, Some 8])"
proof -
  have "encode (Fail 65535 0x0102 4) = [0xFF, 0xFF, 0xFF, 3, 0, 2, 1, 4]"
    "encode (Enqueue 65535 9 [7, 8]) = [2, 0xFF, 0xFF, 5, 0, 9, 2, 0, 7, 8]"
    by (simp_all add: message_bytes_def uint16_bytes_def mem_uint16_byte_low_def mem_uint16_byte_high_def)
  moreover have frame: "read_cells (Ptr 2 0) (length [7, 8 :: u8]) small_heap = Inr (map Some [7, 8])"
    by (simp add: read_cells_def small_heap_def)
  moreover have "length [7, 8 :: u8] = 2" "(65535 :: u16) + 1 = 0" by simp_all
  moreover have "blocks small_heap 2 = Some [Some 7, Some 8]" "next_block small_heap = 5"
    "next_msg_id small_builder = 65535" "blk_data (msg_buf small_builder) = Ptr 4 0" "\<not> oom small_heap 5"
    by (simp_all add: small_heap_def small_builder_def)
  ultimately show ?thesis
    using built_messages_exact [OF small_builder_ok frame, of 0 0 "0x0102" 4 9]
    by (auto simp: numeral_2_eq_2 [symmetric] simp del: encode.simps elim!: returns_mono)
qed

text \<open>
  A frame of more than 65532 bytes is not sent in pieces and not refused with an error: the
  assertion of \<^verbatim>\<open>build\<close> ends the program. (The header allows 65535 bytes.)
\<close>

lemma enqueue_too_long_asserts:
  assumes "read_cells frame frame_len h = Inr cs" "65532 < frame_len" "frame_len + 3 < size_t_range"
  shows "msg_builder_enqueue b frame_idx frame frame_len h = Inl Assert_failed"
  using assms by (simp add: msg_builder_enqueue_build build_def max_payload_len_def)

section \<open>Reading back\<close>

text \<open>What the accessors of the iterator find for a message of each type.\<close>

fun accessors_find :: "MsgIter \<Rightarrow> 'a heap_scheme \<Rightarrow> message \<Rightarrow> bool" where
  "accessors_find it h (Borrow i fl bl) \<longleftrightarrow>
     msg_iter_borrow_frame_length it h = Inr fl \<and> msg_iter_borrow_buffer_length it h = Inr bl"
| "accessors_find it h (Lent i) \<longleftrightarrow> msg_iter_payload_length it h = Inr 0"
| "accessors_find it h (Enqueue i idx frame) \<longleftrightarrow>
     msg_iter_enqueue_frame_idx it h = Inr idx \<and>
     returns (msg_iter_enqueue_frame it h) (\<lambda>b. blk_size b = length frame \<and>
       read_bytes (blk_data b) (blk_size b) h = Inr frame)"
| "accessors_find it h (Fail i causing code) \<longleftrightarrow>
     msg_iter_fail_offending_msg_id it h = Inr causing \<and> msg_iter_fail_error_code it h = Inr code"

lemma at_message_accessors: "at_message it m h \<Longrightarrow> accessors_find it h m"
  using at_borrow at_fail at_message_header(3) at_enqueue
  by (cases m) (fastforce simp: bytes_at_def)+

text \<open>
  C16. The iterator reads back what the builder built: over the block of a builder that holds the bytes
  of a message it finds one message, of its type, id and contents, and then the end.
\<close>

theorem built_message_read_back:
  assumes ok: "builder_ok b h" and holds: "holds_message b (encode m) h" and enc: "encodable m"
  defines "it \<equiv> msg_iter_make (blk_data (msg_buf b)) (blk_size (msg_buf b))"
  shows "msg_iter_has_msg it \<and> msg_iter_type it h = Inr (msg_type_of m) \<and>
    msg_iter_msg_id it h = Inr (msg_id_of m) \<and> accessors_find it h m \<and>
    returns (msg_iter_next it h) (\<lambda>it'. \<not> msg_iter_has_msg it')"
proof -
  from ok obtain k where k: "blk_data (msg_buf b) = Ptr k 0" by (auto simp: builder_ok_def owned_def)
  have "at_messages it [m] h"
    using holds enc by (auto simp: it_def k at_messages_def msg_iter_make_def bytes_at_def holds_message_def)
  note at = at_messages_ConsD [OF this]
  then have "msg_iter_has_msg it" by (simp add: at_message_def)
  with at(2) at_message_header(1,2) [OF at(1)] at_message_accessors [OF at(1)] show ?thesis
    by (auto simp: returns_iff)
qed

theorem built_message_read_back_witness:
  "\<exists>b (h :: heap). holds_message b (encode (Fail 65535 0x0102 4)) h \<and>
     msg_iter_fail_offending_msg_id (msg_iter_make (blk_data (msg_buf b)) (blk_size (msg_buf b))) h = Inr 0x0102 \<and>
     msg_iter_fail_error_code (msg_iter_make (blk_data (msg_buf b)) (blk_size (msg_buf b))) h = Inr 4"
proof -
  have "returns (msg_builder_fail small_builder 0x0102 4 small_heap) (\<lambda>(b', h').
      holds_message b' (encode (Fail 65535 0x0102 4)) h' \<and> builder_ok b' h')"
    using build_in_place [OF small_builder_ok, of "uint16_bytes 0x0102 @ [4]" MSG_TYPE_FAIL]
    by (auto simp: msg_builder_fail_def uint16_bytes_def initial_block_capacity_def numeral_3_eq_3
        small_builder_def elim!: returns_mono)
  then obtain b and h :: heap where "holds_message b (encode (Fail 65535 0x0102 4)) h" "builder_ok b h"
    unfolding returns_iff split_paired_Ex split_conv by blast
  with built_message_read_back [OF this(2,1)] show ?thesis by (auto simp del: encode.simps)
qed

text \<open>The loop that collects what it sees.\<close>

definition collect_ids :: "MsgIter \<Rightarrow> (MsgType \<times> u16) list \<Rightarrow> 'a heap_scheme \<Rightarrow>
    ((MsgType \<times> u16) list \<times> 'a heap_scheme) result" where
  "collect_ids it seen h =
     bind_res (msg_iter_type it h) (\<lambda>t. bind_res (msg_iter_msg_id it h) (\<lambda>i. Inr (seen @ [(t, i)], h)))"

text \<open>
  C32. The loop over a receive buffer visits every message of a datagram once, in order, and ends.
\<close>

theorem loop_visits_every_message:
  assumes "messages_in p h ms"
  shows "returns (for_messages collect_ids (msg_iter_make p (length (datagram ms))) [] h)
    (\<lambda>(seen, h'). seen = map (\<lambda>m. (msg_type_of m, msg_id_of m)) ms \<and> h' = h)"
proof -
  let ?see = "\<lambda>m. (msg_type_of m, msg_id_of m)"
  from assms obtain rb cs where rb: "p = Ptr rb 0"
    and hold: "remaining rb (msg_iter_make (Ptr rb 0) (length (datagram ms))) ms h"
    by (rule messages_inE)
  define rel where "rel = (\<lambda>(a :: (MsgType \<times> u16) list) s h'. s = a \<and> h' = h)"
  have body: "returns (collect_ids it s h') (\<lambda>(s', h''). rel a' s' h'' \<and> remaining rb it (m # ms) h'')"
    if "rel a s h'" "remaining rb it (m # ms) h'" "Some (a @ [?see m]) = Some a'" for it m ms a a' s h'
    using that at_message_header(1,2) [OF remaining_ConsD [OF that(2)]]
    by (simp add: collect_ids_def rel_def)
  have run: "run_spec (\<lambda>m a. Some (a @ [?see m])) ms a = Some (a @ map ?see ms)" for a
    by (induction ms arbitrary: a) simp_all
  from iter.for_each_implements [where rel = rel and spec = "\<lambda>m a. Some (a @ [?see m])" and a = "[]" and s = "[]",
      OF body _ hold run] show ?thesis
    by (auto simp: rb rel_def elim!: returns_mono)
qed

theorem loop_visits_every_message_witness:
  "returns (for_messages collect_ids (msg_iter_make (Ptr 5 0) (length (datagram [Lent 3, Borrow 4 20 8]))) []
      (small_heap\<lparr>blocks := (blocks small_heap)(5 := Some (map Some (datagram [Lent 3, Borrow 4 20 8])))\<rparr>))
    (\<lambda>(seen, h'). seen = [(MSG_TYPE_LENT, 3), (MSG_TYPE_BORROW, 4)])"
  by (rule returns_mono [OF loop_visits_every_message]) (auto simp: messages_in_def)

text \<open>
  An ENQUEUE message whose payload is shorter than the three bytes of its own header is not
  recognised: the length of its frame wraps around to almost \<open>2 ^ 64\<close>, and the frame starts behind
  the payload.
\<close>

lemma short_enqueue_underflows:
  assumes "msg_iter_has_msg it" "msg_buf_start it = Ptr b j"
    and "read_byte (Ptr b j) h = Inr 2" "load_uint16le (Ptr b (j + 3)) h = Inr n" "unat n < 3"
  shows "msg_iter_enqueue_frame it h = Inr \<lparr>blk_data = Ptr b (j + 5 + 3),
    blk_size = size_t_range + unat n - 3, blk_capacity = size_t_range + unat n - 3\<rparr>"
proof -
  have "size_sub (unat n) 3 = size_t_range + unat n - 3" "size_add 3 (size_t_range + unat n - 3) = unat n"
    using assms(5) by (auto simp: size_sub_def size_add_def)
  then show ?thesis
    using assms
    by (simp add: msg_iter_enqueue_frame_def assert_type_def msg_iter_type_def msg_iter_payload_def
        MsgType_of_byte_def mem_block_make_def mem_block_slice_def)
qed

end
