(* ===== verification/Os.thy ===== *)
theory Os
  imports Memory "HOL-Library.Signed_Division"
begin

text \<open>
  The operating system as the program sees it, and \<^verbatim>\<open>src/time\<close>. What the system calls
  return is a parameter of the model: the record \<open>os\<close> gives, for every point in time
  (\<open>tick\<close>, which every call advances), the answer of each call. Theorems hold for every
  such record, or name the documented behaviour they rely on. \<open>os_log\<close> records, oldest
  first, what the program did to the outside world. The state \<open>world\<close> extends the heap.
\<close>

section \<open>Addresses and events\<close>

text \<open>
  \<^verbatim>\<open>struct UdpEndpoint\<close>: an address and its length. Only the first \<open>ep_len\<close> bytes of the
  address are ever used; the bytes of \<open>sockaddr_storage\<close> behind them are not modelled.
\<close>

record UdpEndpoint =
  ep_addr :: "u8 list"
  ep_len :: nat

record addrinfo =
  ai_socktype :: int
  ai_protocol :: int
  ai_addr :: UdpEndpoint

datatype os_event =
    Sent int "UdpEndpoint option" "u8 list"  \<comment> \<open>handle, destination, datagram\<close>
  | Connected int "UdpEndpoint option"       \<comment> \<open>handle, peer\<close>
  | Opened int
  | Bound int nat                            \<comment> \<open>handle, port\<close>
  | Closed int
  | Slept nat                                \<comment> \<open>microseconds\<close>
  | Freed_addrinfo

datatype recv_outcome =
    Recv_data "u8 list" "u8 list"            \<comment> \<open>datagram, address of the sender\<close>
  | Recv_error int                           \<comment> \<open>errno\<close>

section \<open>The world\<close>

text \<open>A call that returns an \<open>int\<close> also has a value for \<open>errno\<close>, used when it returns \<open>-1\<close>.\<close>

record os =
  sys_clock_gettime :: "nat \<Rightarrow> int \<times> int"   \<comment> \<open>\<open>tv_sec\<close>, \<open>tv_nsec\<close>\<close>
  sys_socket :: "nat \<Rightarrow> int \<times> int"
  sys_setsockopt :: "nat \<Rightarrow> int \<times> int"
  sys_bind :: "nat \<Rightarrow> int \<times> int"
  sys_fcntl :: "nat \<Rightarrow> int \<times> int"
  sys_close :: "nat \<Rightarrow> int \<times> int"
  sys_connect :: "nat \<Rightarrow> int \<times> int"
  sys_getaddrinfo :: "nat \<Rightarrow> string \<Rightarrow> nat \<Rightarrow> int \<times> addrinfo list"
  sys_recvfrom :: "nat \<Rightarrow> recv_outcome"
  sys_send :: "nat \<Rightarrow> nat \<Rightarrow> int \<times> int"       \<comment> \<open>given the length of the datagram\<close>
  sys_strerror :: "int \<Rightarrow> string"
  sys_gai_strerror :: "int \<Rightarrow> string"

record world = heap +
  os :: os
  tick :: nat
  errno :: int
  os_log :: "os_event list"

definition sys_return :: "int \<times> int \<Rightarrow> os_event list \<Rightarrow> world \<Rightarrow> int \<times> world" where
  "sys_return r events w =
     (fst r, w\<lparr>tick := Suc (tick w), errno := (if fst r = -1 then snd r else errno w),
              os_log := os_log w @ events\<rparr>)"

section \<open>Time\<close>

text \<open>
  \<^verbatim>\<open>time_now\<close>: milliseconds, computed with 64-bit \<open>time_t\<close> and \<open>long\<close> values and truncated
  to the 32 bits of \<open>unsigned int\<close>. The readings of the clock are within the range in which
  the product does not overflow.
\<close>

definition time_now :: "world \<Rightarrow> u32 \<times> world" where
  "time_now w =
     (let (tv_sec, tv_nsec) = sys_clock_gettime (os w) (tick w) in
      (word_of_int (tv_sec * 1000 + tv_nsec sdiv 1000000), w\<lparr>tick := Suc (tick w)\<rparr>))"

text \<open>The reading of the clock at a given point in time.\<close>

definition clock :: "os \<Rightarrow> nat \<Rightarrow> u32" where
  "clock sys t = (let (tv_sec, tv_nsec) = sys_clock_gettime sys t in
     word_of_int (tv_sec * 1000 + tv_nsec sdiv 1000000))"

lemma time_now_clock [simp]: "fst (time_now w) = clock (os w) (tick w)"
  by (simp add: time_now_def clock_def Let_def split_def)

text \<open>\<^verbatim>\<open>time_sleep(ms)\<close> is \<open>usleep((ms) * 1000)\<close>.\<close>

definition time_sleep :: "nat \<Rightarrow> world \<Rightarrow> world" where
  "time_sleep ms w = w\<lparr>tick := Suc (tick w), os_log := os_log w @ [Slept (ms * 1000)]\<rparr>"

text \<open>
  The other platforms. On the ESP8266 \<^verbatim>\<open>time_now\<close> is the 32-bit \<^verbatim>\<open>millis()\<close> of the Arduino framework,
  here a function of the tick. The macro \<^verbatim>\<open>time_sleep\<close> becomes a call of the platform:
  \<^verbatim>\<open>delay\<close> and \<^verbatim>\<open>Sleep\<close> take milliseconds, \<^verbatim>\<open>usleep\<close> microseconds. (The product with 1000 is of type
  \<^verbatim>\<open>int\<close> and does not overflow for sleeps of up to 35 minutes.)
\<close>

definition time_now_esp8266 :: "(nat \<Rightarrow> u32) \<Rightarrow> nat \<Rightarrow> u32 \<times> nat" where
  "time_now_esp8266 millis t = (millis t, Suc t)"

datatype platform = Esp8266 | Windows | Unixlike

datatype sleep_call = Delay_ms nat | Sleep_ms nat | Usleep_us nat

fun time_sleep_call :: "platform \<Rightarrow> nat \<Rightarrow> sleep_call" where
  "time_sleep_call Esp8266 ms = Delay_ms ms"
| "time_sleep_call Windows ms = Sleep_ms ms"
| "time_sleep_call Unixlike ms = Usleep_us (ms * 1000)"

fun sleep_us :: "sleep_call \<Rightarrow> nat" where
  "sleep_us (Delay_ms ms) = ms * 1000"
| "sleep_us (Sleep_ms ms) = ms * 1000"
| "sleep_us (Usleep_us us) = us"

text \<open>The same sleep everywhere: \<open>time_sleep\<close> logs it in microseconds.\<close>

lemma time_sleep_any_platform:
  "time_sleep ms w = w\<lparr>tick := Suc (tick w), os_log := os_log w @ [Slept (sleep_us (time_sleep_call p ms))]\<rparr>"
  by (cases p) (simp_all add: time_sleep_def)

text \<open>What a clock reading leaves alone: everything but the tick.\<close>

lemma time_now_world [simp]: "snd (time_now w) = w\<lparr>tick := Suc (tick w)\<rparr>"
  by (simp add: time_now_def Let_def split_def)

lemma time_now_split:
  "(case time_now w of (t, w') \<Rightarrow> f t w') = f (fst (time_now w)) (w\<lparr>tick := Suc (tick w)\<rparr>)"
  by (simp add: time_now_def Let_def split_def)

lemma shape_world [simp]:
  "shape (w\<lparr>tick := t\<rparr>) = shape w"
  "shape (w\<lparr>errno := e\<rparr>) = shape w"
  "shape (w\<lparr>os_log := l\<rparr>) = shape w"
  by (simp_all add: shape_def)

lemma changes_world:
  assumes "changes K w (w' :: world)"
  shows "os w' = os w" "tick w' = tick w" "errno w' = errno w" "os_log w' = os_log w"
proof -
  from assms have "w' = w\<lparr>blocks := blocks w', next_block := next_block w'\<rparr>"
    unfolding changes_def by blast
  then show "os w' = os w" "tick w' = tick w" "errno w' = errno w" "os_log w' = os_log w"
    by (metis heap.surjective world.surjective world.select_convs heap.update_convs heap.select_convs)+
qed

end
