(* ===== verification/Udp_Socket.thy ===== *)
theory Udp_Socket
  imports Os "HOL-Library.Sublist"
begin

text \<open>
  \<^verbatim>\<open>src/udp_socket\<close> on a POSIX system: \<^verbatim>\<open>udp_socket_bsdlike.cpp\<close> (in its default, IPv6
  configuration, and what differs in its IPv4 configuration), \<^verbatim>\<open>udp_socket_base.cpp\<close> and the results of
  \<^verbatim>\<open>udp_socket_results_internal.cpp\<close>. A \<^verbatim>\<open>UdpSocket*\<close> or \<^verbatim>\<open>UdpEndpoint*\<close> argument that may be
  \<open>NULL\<close> is an option. Pointers through which a function stores are extra results.
\<close>

section \<open>Results\<close>

datatype UdpSocketResultCode =
    UDP_SOCKET_OK
  | UDP_SOCKET_ERR_SOCKET_IS_NULL
  | UDP_SOCKET_ERR_PLATFORM_INIT_FAILED
  | UDP_SOCKET_ERR_SOCKET_CREATION_FAILED
  | UDP_SOCKET_ERR_PORT_IN_USE
  | UDP_SOCKET_ERR_SET_NONBLOCKING_FAILED
  | UDP_SOCKET_ERR_RESOLVE_HOSTNAME_FAILED
  | UDP_SOCKET_ERR_CONNECT_FAILED
  | UDP_SOCKET_ERR_BAD_BROADCAST
  | UDP_SOCKET_ERR_WOULDBLOCK
  | UDP_SOCKET_ERR_NO_RECEIVER
  | UDP_SOCKET_ERR_PACKET_TOO_BIG
  | UDP_SOCKET_ERR_SEND_FAILED
  | UDP_SOCKET_ERR_FREE_FAILED
  | UDP_SOCKET_ERR_NOTHING_RECEIVED
  | UDP_SOCKET_ERR_RECEIVE_FAILED

record UdpSocketResult =
  res_code :: UdpSocketResultCode
  res_msg :: "string option"

record UdpSocket =
  socket_handle :: int

definition make_success_result :: UdpSocketResult where
  "make_success_result = \<lparr>res_code = UDP_SOCKET_OK, res_msg = None\<rparr>"

definition make_err_result :: "UdpSocketResultCode \<Rightarrow> string \<Rightarrow> UdpSocketResult result" where
  "make_err_result code msg =
     bind_res (assert_that (code \<noteq> UDP_SOCKET_OK)) (\<lambda>_.
     Inr \<lparr>res_code = code, res_msg = Some msg\<rparr>)"

definition msg_socket_is_null :: string where
  "msg_socket_is_null = ''The given UdpSocket is NULL''"
definition msg_socket_creation_failed :: string where
  "msg_socket_creation_failed = ''Failed to create the socket''"
definition msg_port_in_use :: string where
  "msg_port_in_use = ''Failed to bind the socket to the given port, is it already in use?''"
definition msg_set_nonblocking_failed :: string where
  "msg_set_nonblocking_failed =
     ''Failed to set a newly created socket to non-blocking mode''"
definition msg_bad_braodcast :: string where
  "msg_bad_braodcast =
     ''An attempt was made to send to a network/broadcast address as though it was a unicast address''"
definition msg_wouldblock :: string where
  "msg_wouldblock =
     ''The send call would block, but the socket is non-blocking, the most likely reason is that too much data was sent at once''"
definition msg_no_receiver :: string where
  "msg_no_receiver = ''Tried to send data but no receiver is set''"
definition msg_packet_too_big :: string where
  "msg_packet_too_big = ''The given message is too large to send it in one piece''"
definition msg_nothing_received :: string where
  "msg_nothing_received = ''No received data is available right now''"

text \<open>The values of the system headers the source compares with (Linux).\<close>

definition EAGAIN :: int where "EAGAIN = 11"
definition EWOULDBLOCK :: int where "EWOULDBLOCK = 11"
definition EACCES :: int where "EACCES = 13"
definition EDESTADDRREQ :: int where "EDESTADDRREQ = 89"
definition EMSGSIZE :: int where "EMSGSIZE = 90"
definition EAI_SYSTEM :: int where "EAI_SYSTEM = -11"
definition SOCK_DGRAM :: int where "SOCK_DGRAM = 2"
definition IPPROTO_UDP :: int where "IPPROTO_UDP = 17"
definition sockaddr_storage_len :: nat where "sockaddr_storage_len = 128"

section \<open>Opening and closing\<close>

definition udp_socket_initialize_socket_support :: "UdpSocketResult" where
  "udp_socket_initialize_socket_support = make_success_result"

definition udp_socket_create_socket ::
  "UdpSocket \<Rightarrow> nat \<Rightarrow> world \<Rightarrow> (UdpSocketResult \<times> UdpSocket \<times> world) result" where
  "udp_socket_create_socket sock port w =
     (let (handle, w) = sys_return (sys_socket (os w) (tick w)) [Opened (fst (sys_socket (os w) (tick w)))] w;
          sock = sock\<lparr>socket_handle := handle\<rparr> in
      if handle \<le> 0
      then bind_res (make_err_result UDP_SOCKET_ERR_SOCKET_CREATION_FAILED msg_socket_creation_failed)
             (\<lambda>r. Inr (r, sock, w))
      else
        let (setopt_err, w) = sys_return (sys_setsockopt (os w) (tick w)) [] w in
        bind_res (assert_that (setopt_err = 0)) (\<lambda>_.
        let (bind_err, w) = sys_return (sys_bind (os w) (tick w)) [Bound handle port] w in
        if bind_err < 0
        then bind_res (make_err_result UDP_SOCKET_ERR_PORT_IN_USE msg_port_in_use)
               (\<lambda>r. Inr (r, sock, w))
        else Inr (make_success_result, sock, w)))"

text \<open>The same function under \<^verbatim>\<open>UDP_SOCKET_IPV4_ONLY\<close>: no option is set before the socket is bound.\<close>

definition udp_socket_create_socket_ipv4 ::
  "UdpSocket \<Rightarrow> nat \<Rightarrow> world \<Rightarrow> (UdpSocketResult \<times> UdpSocket \<times> world) result" where
  "udp_socket_create_socket_ipv4 sock port w =
     (let (handle, w) = sys_return (sys_socket (os w) (tick w)) [Opened (fst (sys_socket (os w) (tick w)))] w;
          sock = sock\<lparr>socket_handle := handle\<rparr> in
      if handle \<le> 0
      then bind_res (make_err_result UDP_SOCKET_ERR_SOCKET_CREATION_FAILED msg_socket_creation_failed)
             (\<lambda>r. Inr (r, sock, w))
      else
        let (bind_err, w) = sys_return (sys_bind (os w) (tick w)) [Bound handle port] w in
        if bind_err < 0
        then bind_res (make_err_result UDP_SOCKET_ERR_PORT_IN_USE msg_port_in_use)
               (\<lambda>r. Inr (r, sock, w))
        else Inr (make_success_result, sock, w))"

definition udp_socket_set_socket_nonblocking ::
  "UdpSocket \<Rightarrow> world \<Rightarrow> (UdpSocketResult \<times> world) result" where
  "udp_socket_set_socket_nonblocking sock w =
     (let (r, w) = sys_return (sys_fcntl (os w) (tick w)) [] w in
      if r = -1
      then bind_res (make_err_result UDP_SOCKET_ERR_SET_NONBLOCKING_FAILED msg_set_nonblocking_failed)
             (\<lambda>r. Inr (r, w))
      else Inr (make_success_result, w))"

definition udp_socket_init_on_port ::
  "UdpSocket option \<Rightarrow> nat \<Rightarrow> world \<Rightarrow> (UdpSocketResult \<times> UdpSocket option \<times> world) result" where
  "udp_socket_init_on_port socket port w = (case socket of
       None \<Rightarrow> bind_res (make_err_result UDP_SOCKET_ERR_SOCKET_IS_NULL msg_socket_is_null)
                 (\<lambda>r. Inr (r, None, w))
     | Some sock \<Rightarrow>
         let sock = sock\<lparr>socket_handle := 0\<rparr>;
             result = udp_socket_initialize_socket_support in
         if res_code result \<noteq> UDP_SOCKET_OK then Inr (result, Some sock, w)
         else
           bind_res (udp_socket_create_socket sock port w) (\<lambda>(result, sock, w).
           if res_code result \<noteq> UDP_SOCKET_OK then Inr (result, Some sock, w)
           else
             bind_res (udp_socket_set_socket_nonblocking sock w) (\<lambda>(result, w).
             if res_code result \<noteq> UDP_SOCKET_OK
             then (let (_, w) = sys_return (sys_close (os w) (tick w)) [Closed (socket_handle sock)] w in
                   Inr (result, Some sock, w))
             else Inr (make_success_result, Some sock, w))))"

definition udp_socket_init ::
  "UdpSocket option \<Rightarrow> world \<Rightarrow> (UdpSocketResult \<times> UdpSocket option \<times> world) result" where
  "udp_socket_init socket w = udp_socket_init_on_port socket 0 w"

definition udp_socket_close :: "UdpSocket \<Rightarrow> world \<Rightarrow> (UdpSocketResult \<times> world) result" where
  "udp_socket_close sock w =
     (let (err, w) = sys_return (sys_close (os w) (tick w)) [Closed (socket_handle sock)] w in
      if err = -1
      then bind_res (make_err_result UDP_SOCKET_ERR_FREE_FAILED (sys_strerror (os w) (errno w)))
             (\<lambda>r. Inr (r, w))
      else Inr (make_success_result, w))"

definition udp_socket_free ::
  "UdpSocket option \<Rightarrow> world \<Rightarrow> (UdpSocketResult \<times> UdpSocket option \<times> world) result" where
  "udp_socket_free socket w = (case socket of
       None \<Rightarrow> bind_res (make_err_result UDP_SOCKET_ERR_SOCKET_IS_NULL msg_socket_is_null)
                 (\<lambda>r. Inr (r, None, w))
     | Some sock \<Rightarrow>
         bind_res (udp_socket_close sock w) (\<lambda>(result, w).
         if res_code result \<noteq> UDP_SOCKET_OK then Inr (result, Some sock, w)
         else Inr (make_success_result, Some (sock\<lparr>socket_handle := -1\<rparr>), w)))"

section \<open>Choosing the peer\<close>

definition sys_connect_to ::
  "UdpSocket \<Rightarrow> UdpEndpoint option \<Rightarrow> world \<Rightarrow> int \<times> world" where
  "sys_connect_to sock peer w =
     sys_return (sys_connect (os w) (tick w)) [Connected (socket_handle sock) peer] w"

text \<open>\<^verbatim>\<open>do { assert(...); error = connect(...); } while(error != 0 && curr_result != NULL)\<close>.\<close>

fun connect_first :: "UdpSocket \<Rightarrow> addrinfo list \<Rightarrow> world \<Rightarrow> (int \<times> world) result" where
  "connect_first sock [] w = Inl Assert_failed"
| "connect_first sock (curr_result # rest) w =
     bind_res (assert_that (ai_socktype curr_result = SOCK_DGRAM)) (\<lambda>_.
     bind_res (assert_that (ai_protocol curr_result = IPPROTO_UDP)) (\<lambda>_.
     let (error, w) = sys_connect_to sock (Some (ai_addr curr_result)) w in
     if error \<noteq> 0 \<and> rest \<noteq> [] then connect_first sock rest w else Inr (error, w)))"

definition udp_socket_set_receiver ::
  "UdpSocket option \<Rightarrow> string \<Rightarrow> nat \<Rightarrow> world \<Rightarrow> (UdpSocketResult \<times> world) result" where
  "udp_socket_set_receiver socket hostname port w = (case socket of
       None \<Rightarrow> bind_res (make_err_result UDP_SOCKET_ERR_SOCKET_IS_NULL msg_socket_is_null)
                 (\<lambda>r. Inr (r, w))
     | Some sock \<Rightarrow>
         let (error, first_result) = sys_getaddrinfo (os w) (tick w) hostname port;
             w = w\<lparr>tick := Suc (tick w)\<rparr> in
         if error \<noteq> 0
         then bind_res (make_err_result UDP_SOCKET_ERR_RESOLVE_HOSTNAME_FAILED
                 (if error = EAI_SYSTEM then sys_strerror (os w) (errno w)
                  else sys_gai_strerror (os w) error))
                (\<lambda>r. Inr (r, w))
         else
           bind_res (assert_that (first_result \<noteq> [])) (\<lambda>_.
           bind_res (connect_first sock first_result w) (\<lambda>(error, w).
           let w = w\<lparr>os_log := os_log w @ [Freed_addrinfo]\<rparr> in
           if error \<noteq> 0
           then bind_res (make_err_result UDP_SOCKET_ERR_CONNECT_FAILED (sys_strerror (os w) (errno w)))
                  (\<lambda>r. Inr (r, w))
           else Inr (make_success_result, w))))"

text \<open>A \<open>NULL\<close> endpoint disconnects the socket.\<close>

definition udp_socket_set_endpoint ::
  "UdpSocket option \<Rightarrow> UdpEndpoint option \<Rightarrow> world \<Rightarrow> (UdpSocketResult \<times> world) result" where
  "udp_socket_set_endpoint socket endpoint w = (case socket of
       None \<Rightarrow> bind_res (make_err_result UDP_SOCKET_ERR_SOCKET_IS_NULL msg_socket_is_null)
                 (\<lambda>r. Inr (r, w))
     | Some sock \<Rightarrow>
         let (error, w) = sys_connect_to sock endpoint w in
         if error = 0 then Inr (make_success_result, w)
         else bind_res (make_err_result UDP_SOCKET_ERR_CONNECT_FAILED (sys_strerror (os w) (errno w)))
                (\<lambda>r. Inr (r, w)))"

section \<open>Receiving and sending\<close>

text \<open>
  \<open>recvfrom\<close> copies at most the capacity of the buffer and discards the rest of the datagram.
  It returns the number of bytes copied, or \<open>-1\<close>.
\<close>

definition sys_recv ::
  "ptr \<Rightarrow> nat \<Rightarrow> UdpEndpoint option \<Rightarrow> world \<Rightarrow> (int \<times> UdpEndpoint option \<times> world) result" where
  "sys_recv packet_data max_packet_size sender w =
     (case sys_recvfrom (os w) (tick w) of
        Recv_error e \<Rightarrow> Inr (-1, sender, w\<lparr>tick := Suc (tick w), errno := e\<rparr>)
      | Recv_data datagram addr \<Rightarrow>
          let copied = take max_packet_size datagram in
          bind_res (write_cells packet_data (map Some copied) w) (\<lambda>w.
          Inr (int (length copied),
               map_option (\<lambda>s. \<lparr>ep_addr = addr, ep_len = length addr\<rparr>) sender,
               w\<lparr>tick := Suc (tick w)\<rparr>)))"

definition udp_socket_receive_from ::
  "UdpSocket \<Rightarrow> ptr \<Rightarrow> nat \<Rightarrow> UdpEndpoint option \<Rightarrow> world \<Rightarrow>
   (UdpSocketResult \<times> nat \<times> UdpEndpoint option \<times> world) result" where
  "udp_socket_receive_from sock packet_data max_packet_size sender w =
     bind_res (assert_that (packet_data \<noteq> Null)) (\<lambda>_.
     bind_res (assert_that (max_packet_size > 0)) (\<lambda>_.
     let sender = map_option (\<lambda>s. s\<lparr>ep_len := sockaddr_storage_len\<rparr>) sender in
     bind_res (sys_recv packet_data max_packet_size sender w) (\<lambda>(received_bytes, sender, w).
     if received_bytes \<le> 0
     then bind_res
            (if errno w = EAGAIN \<or> errno w = EWOULDBLOCK
             then make_err_result UDP_SOCKET_ERR_NOTHING_RECEIVED msg_nothing_received
             else make_err_result UDP_SOCKET_ERR_RECEIVE_FAILED (sys_strerror (os w) (errno w)))
            (\<lambda>r. Inr (r, 0, sender, w))
     else Inr (make_success_result, nat received_bytes, sender, w))))"

definition udp_socket_send_to ::
  "UdpSocket option \<Rightarrow> ptr \<Rightarrow> nat \<Rightarrow> UdpEndpoint option \<Rightarrow> world \<Rightarrow> (UdpSocketResult \<times> world) result"
  where
  "udp_socket_send_to socket packet_data packet_data_len to w =
     bind_res (assert_that (packet_data \<noteq> Null)) (\<lambda>_.
     bind_res (assert_that (packet_data_len > 0)) (\<lambda>_.
     case socket of
       None \<Rightarrow> bind_res (make_err_result UDP_SOCKET_ERR_SOCKET_IS_NULL msg_socket_is_null)
                 (\<lambda>r. Inr (r, w))
     | Some sock \<Rightarrow>
         bind_res (read_bytes packet_data packet_data_len w) (\<lambda>bytes.
         let r = sys_send (os w) (tick w) packet_data_len;
             (sent_bytes, w) = sys_return r
               (if fst r = -1 then [] else [Sent (socket_handle sock) to bytes]) w in
         if sent_bytes = -1
         then bind_res
                (if errno w = EACCES then make_err_result UDP_SOCKET_ERR_BAD_BROADCAST msg_bad_braodcast
                 else if errno w = EAGAIN \<or> errno w = EWOULDBLOCK
                 then make_err_result UDP_SOCKET_ERR_WOULDBLOCK msg_wouldblock
                 else if errno w = EDESTADDRREQ
                 then make_err_result UDP_SOCKET_ERR_NO_RECEIVER msg_no_receiver
                 else if errno w = EMSGSIZE
                 then make_err_result UDP_SOCKET_ERR_PACKET_TOO_BIG msg_packet_too_big
                 else make_err_result UDP_SOCKET_ERR_SEND_FAILED (sys_strerror (os w) (errno w)))
                (\<lambda>r. Inr (r, w))
         else bind_res (assert_that (sent_bytes = int packet_data_len)) (\<lambda>_.
              Inr (make_success_result, w)))))"

definition udp_socket_send ::
  "UdpSocket option \<Rightarrow> ptr \<Rightarrow> nat \<Rightarrow> world \<Rightarrow> (UdpSocketResult \<times> world) result" where
  "udp_socket_send socket packet_data packet_data_len w =
     udp_socket_send_to socket packet_data packet_data_len None w"

definition udp_socket_receive ::
  "UdpSocket \<Rightarrow> ptr \<Rightarrow> nat \<Rightarrow> bool \<Rightarrow> world \<Rightarrow> (UdpSocketResult \<times> nat \<times> world) result" where
  "udp_socket_receive sock packet_buffer packet_buffer_capacity set_sender_as_receiver w =
     bind_res (udp_socket_receive_from sock packet_buffer packet_buffer_capacity
                 (Some \<lparr>ep_addr = [], ep_len = 0\<rparr>) w) (\<lambda>(receive_result, received, endpoint, w).
     if set_sender_as_receiver \<and> res_code receive_result = UDP_SOCKET_OK
     then bind_res (udp_socket_set_endpoint (Some sock) endpoint w) (\<lambda>(r, w). Inr (r, received, w))
     else Inr (receive_result, received, w))"

definition udp_endpoint_equal :: "UdpEndpoint \<Rightarrow> UdpEndpoint \<Rightarrow> bool" where
  "udp_endpoint_equal a b \<longleftrightarrow>
     (if ep_len a \<noteq> ep_len b then False
      else take (ep_len a) (ep_addr a) = take (ep_len a) (ep_addr b))"

section \<open>What the clients rely on\<close>

text \<open>
  Documented behaviour of UDP sockets: a datagram is sent whole or not at all.
\<close>

definition sends_whole :: "os \<Rightarrow> bool" where
  "sends_whole sys \<longleftrightarrow> (\<forall>t n. fst (sys_send sys t n) = -1 \<or> fst (sys_send sys t n) = int n)"

text \<open>An operating system that never refuses a datagram.\<close>

definition accepts_all :: "os \<Rightarrow> bool" where
  "accepts_all sys \<longleftrightarrow> (\<forall>t n. fst (sys_send sys t n) = int n)"

text \<open>
  \<open>delivered sys requests events\<close>: what the operating system took of the datagrams that were
  to be sent, in their order; all of them when it refuses none.
\<close>

definition delivered :: "os \<Rightarrow> os_event list \<Rightarrow> os_event list \<Rightarrow> bool" where
  "delivered sys requests events \<longleftrightarrow>
     subseq events requests \<and> (accepts_all sys \<longrightarrow> events = requests)"

lemma delivered_Nil [simp]: "delivered sys [] []"
  by (simp add: delivered_def)

lemma delivered_append:
  "delivered sys r e \<Longrightarrow> delivered sys r' e' \<Longrightarrow> delivered sys (r @ r') (e @ e')"
  by (auto simp: delivered_def intro: list_emb_append_mono)

text \<open>\<open>sent out w w'\<close>: between two worlds, the datagrams \<open>out\<close> were sent and nothing else happened.\<close>

definition sent :: "os_event list \<Rightarrow> world \<Rightarrow> world \<Rightarrow> bool" where
  "sent out w w' \<longleftrightarrow>
     os w' = os w \<and> (\<exists>events. os_log w' = os_log w @ events \<and> delivered (os w) out events)"

lemma sent_refl [simp]: "sent [] w w"
  by (simp add: sent_def)

lemma sent_os: "sent out w w' \<Longrightarrow> os w' = os w"
  by (simp add: sent_def)

lemma sent_trans:
  assumes "sent out w w'" "sent out' w' w''"
  shows "sent (out @ out') w w''"
proof -
  from assms obtain e e' where "os_log w'' = os_log w @ e @ e'"
    "delivered (os w) out e" "delivered (os w) out' e'"
    by (auto simp: sent_def)
  moreover from this(2,3) have "delivered (os w) (out @ out') (e @ e')" by (rule delivered_append)
  ultimately show ?thesis using assms by (auto simp: sent_def)
qed

lemma sent_update [simp]:
  "sent out w (w'\<lparr>tick := t\<rparr>) = sent out w w'"
  "sent out w (w'\<lparr>blocks := bs\<rparr>) = sent out w w'"
  "sent out w (w'\<lparr>errno := e\<rparr>) = sent out w w'"
  "sent out (w\<lparr>tick := t\<rparr>) w' = sent out w w'"
  "sent out (w\<lparr>errno := e\<rparr>) w' = sent out w w'"
  "sent out (w\<lparr>blocks := bs\<rparr>) w' = sent out w w'"
  by (simp_all add: sent_def)

text \<open>
  \<open>performs events w w'\<close>: a step that left the memory and the parameters of the world alone
  and did \<open>events\<close>.
\<close>

definition performs :: "os_event list \<Rightarrow> world \<Rightarrow> world \<Rightarrow> bool" where
  "performs events w w' \<longleftrightarrow>
     (\<exists>t e. w' = w\<lparr>tick := t, errno := e, os_log := os_log w @ events\<rparr>)"

lemma performs_upd [simp]:
  "performs events w (w\<lparr>tick := t, errno := e, os_log := os_log w @ events\<rparr>)"
  "performs events w (w\<lparr>tick := t, os_log := os_log w @ events\<rparr>)"
  "performs [] w (w\<lparr>tick := t, errno := e\<rparr>)"
  "performs [] w (w\<lparr>tick := t\<rparr>)"
  unfolding performs_def by (cases w; auto)+

lemma udp_socket_send_to_returns:
  assumes "read_bytes p n w = Inr bytes" "p \<noteq> Null" "0 < n" "sends_whole (os w)"
  shows "returns (udp_socket_send_to (Some sock) p n to w) (\<lambda>(r, w'). \<exists>events.
    performs events w w' \<and> tick w' = Suc (tick w) \<and>
    delivered (os w) [Sent (socket_handle sock) to bytes] events \<and>
    events = (if res_code r = UDP_SOCKET_OK then [Sent (socket_handle sock) to bytes] else []))"
proof -
  let ?r = "sys_send (os w) (tick w) n"
  from assms(4) consider "fst ?r = -1" | "fst ?r = int n" by (auto simp: sends_whole_def)
  then show ?thesis
  proof cases
    case 1
    then have "fst ?r \<noteq> int n" by simp
    then have "\<not> accepts_all (os w)" unfolding accepts_all_def by blast
    with 1 assms show ?thesis
      by (auto simp: udp_socket_send_to_def sys_return_def Let_def make_err_result_def
          delivered_def)
  next
    case 2
    with assms show ?thesis
      by (auto simp: udp_socket_send_to_def sys_return_def Let_def make_success_result_def
          delivered_def)
  qed
qed

text \<open>
  Opening a socket never touches the memory of the program. It relies on \<^verbatim>\<open>setsockopt\<close> not
  failing on a socket that was just made: the source asserts that.
\<close>

definition setsockopt_works :: "os \<Rightarrow> bool" where
  "setsockopt_works sys \<longleftrightarrow> (\<forall>t. fst (sys_setsockopt sys t) = 0)"

lemma performs_trans: "performs e w w' \<Longrightarrow> performs e' w' w'' \<Longrightarrow> performs (e @ e') w w''"
  unfolding performs_def by (cases w; cases w'; cases w'') auto

lemma performs_sys_return: "performs events w (snd (sys_return r events w))"
  by (simp add: sys_return_def)

lemma performs_sys: "sys_return r events w = (x, w') \<Longrightarrow> performs events w w'"
  using performs_sys_return [of events w r] by simp

lemma performs_os: "performs events w w' \<Longrightarrow> os w' = os w"
  by (auto simp: performs_def)

lemma make_err_result_returns: "c \<noteq> UDP_SOCKET_OK \<Longrightarrow> make_err_result c m = Inr \<lparr>res_code = c, res_msg = Some m\<rparr>"
  by (simp add: make_err_result_def)

lemma udp_socket_create_socket_returns:
  assumes "setsockopt_works (os w)"
  shows "returns (udp_socket_create_socket sock port w) (\<lambda>(r, sock', w'). \<exists>events. performs events w w')"
proof -
  obtain h w1 where 1: "sys_return (sys_socket (os w) (tick w)) [Opened (fst (sys_socket (os w) (tick w)))] w = (h, w1)"
    by fastforce
  obtain e w2 where 2: "sys_return (sys_setsockopt (os w1) (tick w1)) [] w1 = (e, w2)" by fastforce
  obtain b w3 where 3: "sys_return (sys_bind (os w2) (tick w2)) [Bound h port] w2 = (b, w3)" by fastforce
  note p = performs_sys [OF 1] performs_sys [OF 2] performs_sys [OF 3]
  have "e = 0" using 2 assms performs_os [OF p(1)] by (simp add: sys_return_def setsockopt_works_def)
  moreover have "\<exists>events. performs events w w1" "\<exists>events. performs events w w3"
    using p performs_trans by blast+
  ultimately show ?thesis
    by (simp add: udp_socket_create_socket_def Let_def 1 2 3 make_err_result_returns)
qed

lemma udp_socket_init_on_port_returns:
  assumes "setsockopt_works (os w)"
  shows "returns (udp_socket_init_on_port (Some sock) port w) (\<lambda>(r, sock', w').
    sock' \<noteq> None \<and> (\<exists>events. performs events w w'))"
proof -
  let ?sock = "sock\<lparr>socket_handle := 0\<rparr>"
  from udp_socket_create_socket_returns [OF assms, of ?sock port] obtain r sock1 w1 e1 where
    1: "udp_socket_create_socket ?sock port w = Inr (r, sock1, w1)" "performs e1 w w1"
    by (auto simp: returns_iff)
  obtain x w2 where 2: "sys_return (sys_fcntl (os w1) (tick w1)) [] w1 = (x, w2)" by fastforce
  obtain y w3 where 3: "sys_return (sys_close (os w2) (tick w2)) [Closed (socket_handle sock1)] w2 = (y, w3)"
    by fastforce
  note p = performs_sys [OF 2] performs_sys [OF 3]
  have "\<exists>events. performs events w w1" "\<exists>events. performs events w w2" "\<exists>events. performs events w w3"
    using 1(2) p performs_trans by blast+
  then show ?thesis
    by (simp add: udp_socket_init_on_port_def udp_socket_initialize_socket_support_def
        make_success_result_def Let_def 1 2 3 udp_socket_set_socket_nonblocking_def make_err_result_returns)
qed

lemma udp_socket_free_returns:
  "returns (udp_socket_free (Some sock) w) (\<lambda>(r, sock', w').
     performs [Closed (socket_handle sock)] w w')"
proof -
  obtain e w1 where 1: "sys_return (sys_close (os w) (tick w)) [Closed (socket_handle sock)] w = (e, w1)"
    by fastforce
  from performs_sys [OF 1] show ?thesis
    by (simp add: udp_socket_free_def udp_socket_close_def Let_def 1 make_err_result_returns
        make_success_result_def)
qed

text \<open>What \<^verbatim>\<open>getaddrinfo\<close> documents: it succeeds with at least one result, of the kind asked for.\<close>

definition resolver_works :: "os \<Rightarrow> bool" where
  "resolver_works sys \<longleftrightarrow> (\<forall>t hostname port. case sys_getaddrinfo sys t hostname port of (error, results) \<Rightarrow>
     error = 0 \<longrightarrow> results \<noteq> [] \<and>
       list_all (\<lambda>r. ai_socktype r = SOCK_DGRAM \<and> ai_protocol r = IPPROTO_UDP) results)"

lemma connect_first_returns:
  assumes "rs \<noteq> []" "list_all (\<lambda>r. ai_socktype r = SOCK_DGRAM \<and> ai_protocol r = IPPROTO_UDP) rs"
  shows "returns (connect_first sock rs w) (\<lambda>(e, w'). \<exists>events. performs events w w')"
  using assms
proof (induction rs arbitrary: w)
  case Nil
  then show ?case by simp
next
  case (Cons r rs)
  obtain e w1 where 1: "sys_connect_to sock (Some (ai_addr r)) w = (e, w1)" by fastforce
  then have p: "performs [Connected (socket_handle sock) (Some (ai_addr r))] w w1"
    unfolding sys_connect_to_def by (rule performs_sys)
  show ?case
  proof (cases "e \<noteq> 0 \<and> rs \<noteq> []")
    case True
    with Cons have "returns (connect_first sock rs w1) (\<lambda>(e, w'). \<exists>events. performs events w1 w')"
      by (intro Cons.IH) auto
    then have "returns (connect_first sock rs w1) (\<lambda>(e, w'). \<exists>events. performs events w w')"
      using performs_trans [OF p] by (auto elim!: returns_mono)
    with True Cons.prems show ?thesis by (simp add: 1)
  next
    case False
    with p Cons.prems show ?thesis by (auto simp: 1)
  qed
qed

lemma udp_socket_set_receiver_returns:
  assumes "resolver_works (os w)"
  shows "returns (udp_socket_set_receiver (Some sock) hostname port w) (\<lambda>(r, w'). \<exists>events. performs events w w')"
proof -
  obtain e rs where res: "sys_getaddrinfo (os w) (tick w) hostname port = (e, rs)" by fastforce
  let ?w = "w\<lparr>tick := Suc (tick w)\<rparr>"
  have tick: "performs [] w ?w" by simp
  show ?thesis
  proof (cases "e = 0")
    case False
    then show ?thesis
      by (auto simp: udp_socket_set_receiver_def res Let_def make_err_result_returns intro!: exI [of _ "[]"])
  next
    case True
    note assms [unfolded resolver_works_def, THEN spec, THEN spec, THEN spec, of "tick w" hostname port]
    with res True have rs: "rs \<noteq> []"
      "list_all (\<lambda>r. ai_socktype r = SOCK_DGRAM \<and> ai_protocol r = IPPROTO_UDP) rs" by auto
    from connect_first_returns [OF rs, of sock ?w] obtain x w1 events where
      1: "connect_first sock rs ?w = Inr (x, w1)" and p: "performs events ?w w1"
      by (auto simp: returns_iff)
    have "performs [Freed_addrinfo] w1 (w1\<lparr>os_log := os_log w1 @ [Freed_addrinfo]\<rparr>)"
      using performs_upd(2) [of "[Freed_addrinfo]" w1 "tick w1"] by simp
    then have "\<exists>events. performs events w (w1\<lparr>os_log := os_log w1 @ [Freed_addrinfo]\<rparr>)"
      using performs_trans [OF tick performs_trans [OF p]] by blast
    then show ?thesis
      using rs True 1
      by (simp add: udp_socket_set_receiver_def res Let_def make_err_result_returns)
  qed
qed

end
