(* ===== verification/Sink.thy ===== *)
theory Sink
  imports Mem_Ring Msg_Builder Msg_Iter Udp_Socket
begin

text \<open>
  \<^verbatim>\<open>src/atolla/sink.h\<close> and \<^verbatim>\<open>src/atolla/sink.cpp\<close>: the receiving end of a stream of frames.
  The record \<open>Sink\<close> is \<^verbatim>\<open>struct AtollaSinkPrivate\<close> (fields prefixed with \<open>snk_\<close>); its member
  array \<^verbatim>\<open>recv_buf\<close>, into which iterators point, lives in the heap block that stands for the
  allocated structure, and \<open>snk_recv_buf\<close> is its address. Every function takes the sink and the
  world and returns both.
\<close>

section \<open>State\<close>

datatype AtollaSinkState =
    ATOLLA_SINK_STATE_ERROR
  | ATOLLA_SINK_STATE_OPEN
  | ATOLLA_SINK_STATE_LENT

record AtollaSinkSpec =
  sink_spec_port :: int
  sink_spec_lights_count :: int

definition sink_recv_buf_len :: nat where "sink_recv_buf_len = 1024"
definition color_channel_count :: nat where "color_channel_count = 3"
definition pending_frames_capacity :: nat where "pending_frames_capacity = 128"
definition drop_timeout :: u32 where "drop_timeout = 1500"
definition lent_send_interval :: u32 where "lent_send_interval = 500"
definition frame_length_ms_min :: int where "frame_length_ms_min = 10"
definition NULL_TIME :: u32 where "NULL_TIME = NOT 0"

record Sink =
  snk_state :: AtollaSinkState
  snk_error_msg :: "string option"
  snk_socket :: UdpSocket
  snk_borrower_endpoint :: UdpEndpoint
  snk_lights_count :: u32
  snk_frame_duration_ms :: u32
  snk_builder :: MsgBuilder
  snk_recv_buf :: ptr
  snk_current_frame :: MemBlock
  snk_received_frame :: MemBlock
  snk_pending_frames :: MemRing
  snk_time_origin :: u32
  snk_last_enqueued_frame_idx :: int
  snk_last_recv_time :: u32
  snk_last_send_lent_time :: u32

section \<open>Helpers\<close>

text \<open>
  The two early returns are also the exit and the progress condition of the loop, so one
  recursive function is both: \<open>pattern_len\<close> is never 0 in a round.
\<close>

function fill_with_pattern ::
  "ptr \<Rightarrow> nat \<Rightarrow> ptr \<Rightarrow> nat \<Rightarrow> 'a heap_scheme \<Rightarrow> 'a heap_scheme result" where
  "fill_with_pattern target target_len pattern pattern_len h =
     (if target_len = 0 then Inr h
      else if pattern_len = 0 then Inr h
      else if pattern_len \<ge> target_len then memcpy target pattern target_len h
      else bind_res (memcpy target pattern pattern_len h) (\<lambda>h.
           fill_with_pattern (ptr_add target pattern_len) (target_len - pattern_len)
             pattern pattern_len h))"
  by pat_completeness auto
termination
  by (relation "measure (\<lambda>(target, target_len, pattern, pattern_len, h). target_len)") auto

declare fill_with_pattern.simps [simp del]

definition bounded_diff :: "int \<Rightarrow> int \<Rightarrow> int \<Rightarrow> int" where
  "bounded_diff from to cap = (if to < from then cap - from + to else to - from)"

definition sink_drop_borrow :: "Sink \<Rightarrow> Sink" where
  "sink_drop_borrow sink = sink\<lparr>snk_state := ATOLLA_SINK_STATE_OPEN\<rparr>"

definition sink_panic :: "Sink \<Rightarrow> string \<Rightarrow> Sink" where
  "sink_panic sink error_msg =
     sink\<lparr>snk_state := ATOLLA_SINK_STATE_ERROR, snk_error_msg := Some error_msg\<rparr>"

section \<open>Sending\<close>

definition sink_send_lent :: "Sink \<Rightarrow> world \<Rightarrow> (Sink \<times> world) result" where
  "sink_send_lent sink w =
     bind_res (msg_builder_lent (snk_builder sink) w) (\<lambda>(builder, w).
     let sink = sink\<lparr>snk_builder := builder\<rparr>; lent_msg = msg_buf builder in
     bind_res (udp_socket_send_to (Some (snk_socket sink)) (blk_data lent_msg) (blk_size lent_msg)
                 (Some (snk_borrower_endpoint sink)) w) (\<lambda>(_, w).
     let (now, w) = time_now w in
     Inr (sink\<lparr>snk_last_send_lent_time := now\<rparr>, w)))"

definition sink_send_fail_to ::
  "Sink \<Rightarrow> u16 \<Rightarrow> u8 \<Rightarrow> UdpEndpoint \<Rightarrow> world \<Rightarrow> (Sink \<times> world) result" where
  "sink_send_fail_to sink offending_msg_id error_code to w =
     bind_res (msg_builder_fail (snk_builder sink) offending_msg_id error_code w) (\<lambda>(builder, w).
     let sink = sink\<lparr>snk_builder := builder\<rparr>; lent_msg = msg_buf builder in
     bind_res (udp_socket_send_to (Some (snk_socket sink)) (blk_data lent_msg) (blk_size lent_msg)
                 (Some to) w) (\<lambda>(_, w).
     Inr (sink, w)))"

definition sink_send_fail :: "Sink \<Rightarrow> u16 \<Rightarrow> u8 \<Rightarrow> world \<Rightarrow> (Sink \<times> world) result" where
  "sink_send_fail sink offending_msg_id error_code w =
     sink_send_fail_to sink offending_msg_id error_code (snk_borrower_endpoint sink) w"

definition sink_send :: "Sink \<Rightarrow> world \<Rightarrow> (Sink \<times> world) result" where
  "sink_send sink w =
     (if snk_state sink = ATOLLA_SINK_STATE_LENT
      then let (now, w) = time_now w in
           if now - snk_last_send_lent_time sink > lent_send_interval
           then sink_send_lent sink w
           else Inr (sink, w)
      else Inr (sink, w))"

section \<open>Handling messages\<close>

definition sink_handle_borrow ::
  "Sink \<Rightarrow> u16 \<Rightarrow> int \<Rightarrow> nat \<Rightarrow> UdpEndpoint \<Rightarrow> world \<Rightarrow> (Sink \<times> world) result" where
  "sink_handle_borrow sink msg_id frame_length_ms buffer_length sender w =
     (if snk_state sink = ATOLLA_SINK_STATE_OPEN \<or>
         (snk_state sink = ATOLLA_SINK_STATE_LENT \<and>
          udp_endpoint_equal sender (snk_borrower_endpoint sink))
      then
        let required_frame_buf_size =
              size_mul buffer_length
                (size_mul (unat (snk_lights_count sink)) color_channel_count) in
        if required_frame_buf_size > blk_capacity (ring_buf (snk_pending_frames sink))
        then bind_res (sink_send_fail_to sink msg_id
                 ATOLLA_ERROR_CODE_REQUESTED_BUFFER_TOO_LARGE sender w) (\<lambda>(sink, w).
             Inr (if snk_state sink = ATOLLA_SINK_STATE_LENT then sink_drop_borrow sink else sink, w))
        else if frame_length_ms < frame_length_ms_min
        then bind_res (sink_send_fail_to sink msg_id
                 ATOLLA_ERROR_CODE_REQUESTED_FRAME_DURATION_TOO_SHORT sender w) (\<lambda>(sink, w).
             Inr (if snk_state sink = ATOLLA_SINK_STATE_LENT then sink_drop_borrow sink else sink, w))
        else
          let sink = sink\<lparr>snk_borrower_endpoint := sender,
                          snk_frame_duration_ms := word_of_int frame_length_ms,
                          snk_time_origin := NULL_TIME,
                          snk_last_enqueued_frame_idx := sint NULL_TIME,
                          snk_last_recv_time := NULL_TIME,
                          snk_state := ATOLLA_SINK_STATE_LENT\<rparr> in
          sink_send_lent sink w
      else if snk_state sink = ATOLLA_SINK_STATE_LENT
      then sink_send_fail_to sink msg_id ATOLLA_ERROR_CODE_LENT_TO_OTHER_SOURCE sender w
      else Inr (sink, w))"

definition sink_enqueue :: "Sink \<Rightarrow> MemBlock \<Rightarrow> world \<Rightarrow> (Sink \<times> world) result" where
  "sink_enqueue sink frame w =
     bind_res (fill_with_pattern
                 (blk_data (snk_received_frame sink)) (blk_capacity (snk_received_frame sink))
                 (blk_data frame) (blk_size frame) w) (\<lambda>w.
     bind_res (mem_ring_enqueue (snk_pending_frames sink)
                 (blk_data (snk_received_frame sink)) (blk_capacity (snk_received_frame sink)) w)
       (\<lambda>(ok, ring, w).
     let sink = sink\<lparr>snk_pending_frames := ring\<rparr> in
     Inr (if ok
          then sink\<lparr>snk_last_enqueued_frame_idx := (snk_last_enqueued_frame_idx sink + 1) smod 256\<rparr>
          else sink, w)))"

text \<open>
  \<^verbatim>\<open>while(diff > 0) { sink_enqueue(sink, frame); diff = bounded_diff(...); }\<close>. A round in which
  the ring is full changes nothing the condition depends on, so a loop that has not ended
  after \<open>enqueue_rounds\<close> rounds never ends (\<open>enqueue_loop_refines\<close> and \<open>enqueue_loop_hangs\<close> in \<open>Sink_Refinement\<close>).
\<close>

definition enqueue_rounds :: nat where "enqueue_rounds = 300"

definition enqueue_round ::
  "MemBlock \<Rightarrow> int \<Rightarrow> int \<times> Sink \<times> world \<Rightarrow> ((int \<times> Sink \<times> world) + (Sink \<times> world)) result" where
  "enqueue_round frame frame_idx = (\<lambda>(diff, sink, w).
     if diff > 0
     then bind_res (sink_enqueue sink frame w) (\<lambda>(sink, w).
          Inr (Inl (bounded_diff (snk_last_enqueued_frame_idx sink) frame_idx 256, sink, w)))
     else Inr (Inr (sink, w)))"

definition enqueue_loop ::
  "nat \<Rightarrow> MemBlock \<Rightarrow> int \<Rightarrow> int \<Rightarrow> Sink \<Rightarrow> world \<Rightarrow> (Sink \<times> world) result" where
  "enqueue_loop rounds frame frame_idx diff sink w =
     loop rounds (enqueue_round frame frame_idx) (diff, sink, w)"

definition sink_handle_enqueue ::
  "Sink \<Rightarrow> u16 \<Rightarrow> nat \<Rightarrow> MemBlock \<Rightarrow> UdpEndpoint \<Rightarrow> world \<Rightarrow> (Sink \<times> world) result" where
  "sink_handle_enqueue sink msg_id frame_idx frame sender w =
     (if snk_state sink = ATOLLA_SINK_STATE_ERROR then Inr (sink, w)
      else if snk_state sink = ATOLLA_SINK_STATE_OPEN
      then sink_send_fail_to sink msg_id ATOLLA_ERROR_CODE_NOT_BORROWED sender w
      else if blk_size frame < 3
      then bind_res (sink_send_fail_to sink msg_id ATOLLA_ERROR_CODE_BAD_MSG sender w) (\<lambda>(sink, w).
           Inr (sink_drop_borrow sink, w))
      else if udp_endpoint_equal sender (snk_borrower_endpoint sink)
      then
        let diff = bounded_diff (snk_last_enqueued_frame_idx sink) (int frame_idx) 256 in
        if diff > 128 then Inr (sink, w)
        else enqueue_loop enqueue_rounds frame (int frame_idx) diff sink w
      else sink_send_fail_to sink msg_id ATOLLA_ERROR_CODE_LENT_TO_OTHER_SOURCE sender w)"

definition sink_handle_message ::
  "UdpEndpoint \<Rightarrow> MsgIter \<Rightarrow> Sink \<Rightarrow> world \<Rightarrow> (Sink \<times> world) result" where
  "sink_handle_message sender iter sink w =
     bind_res (msg_iter_type iter w) (\<lambda>type.
     bind_res (msg_iter_msg_id iter w) (\<lambda>msg_id.
     case type of
       MSG_TYPE_BORROW \<Rightarrow>
         bind_res (msg_iter_borrow_frame_length iter w) (\<lambda>frame_len.
         bind_res (msg_iter_borrow_buffer_length iter w) (\<lambda>buffer_len.
         sink_handle_borrow sink msg_id (uint frame_len) (unat buffer_len) sender w))
     | MSG_TYPE_ENQUEUE \<Rightarrow>
         bind_res (msg_iter_enqueue_frame_idx iter w) (\<lambda>frame_idx.
         bind_res (msg_iter_enqueue_frame iter w) (\<lambda>frame.
         sink_handle_enqueue sink msg_id (unat frame_idx) frame sender w))
     | _ \<Rightarrow> sink_send_fail_to sink msg_id ATOLLA_ERROR_CODE_BAD_MSG sender w))"

definition sink_iterate_recv_buf ::
  "Sink \<Rightarrow> nat \<Rightarrow> UdpEndpoint \<Rightarrow> world \<Rightarrow> (Sink \<times> world) result" where
  "sink_iterate_recv_buf sink received_bytes sender w =
     (let iter = msg_iter_make (snk_recv_buf sink) received_bytes in
      for_messages (sink_handle_message sender) iter sink w)"

section \<open>Receiving\<close>

definition max_receives :: nat where "max_receives = 1"

fun sink_receive_loop :: "nat \<Rightarrow> Sink \<Rightarrow> world \<Rightarrow> (Sink \<times> world) result" where
  "sink_receive_loop 0 sink w = Inr (sink, w)"
| "sink_receive_loop (Suc n) sink w =
     bind_res (udp_socket_receive_from (snk_socket sink) (snk_recv_buf sink) sink_recv_buf_len
                 (Some \<lparr>ep_addr = [], ep_len = 0\<rparr>) w) (\<lambda>(result, received_bytes, sender, w).
     if res_code result = UDP_SOCKET_OK
     then bind_res (sink_iterate_recv_buf sink received_bytes (the sender) w) (\<lambda>(sink, w).
          let (now, w) = time_now w in
          sink_receive_loop n (sink\<lparr>snk_last_recv_time := now\<rparr>) w)
     else if snk_state sink = ATOLLA_SINK_STATE_LENT
     then let (now, w) = time_now w in
          if now - snk_last_recv_time sink > drop_timeout
          then bind_res (sink_send_fail sink 0 ATOLLA_ERROR_CODE_TIMEOUT w) (\<lambda>(sink, w).
               Inr (sink_drop_borrow sink, w))
          else Inr (sink, w)
     else Inr (sink, w))"

definition sink_receive :: "Sink \<Rightarrow> world \<Rightarrow> (Sink \<times> world) result" where
  "sink_receive sink w = sink_receive_loop max_receives sink w"

definition sink_update :: "Sink \<Rightarrow> world \<Rightarrow> (Sink \<times> world) result" where
  "sink_update sink w =
     bind_res (sink_receive sink w) (\<lambda>(sink, w). sink_send sink w)"

section \<open>The interface\<close>

definition sink_private_make :: "AtollaSinkSpec \<Rightarrow> world \<Rightarrow> (Sink \<times> world) result" where
  "sink_private_make spec w =
     bind_res (assert_that (sink_spec_port spec \<ge> 0 \<and> sink_spec_port spec < 65536)) (\<lambda>_.
     bind_res (assert_that (sink_spec_lights_count spec \<ge> 1)) (\<lambda>_.
     let frame_size = size_mul (nat (sink_spec_lights_count spec)) color_channel_count in
     bind_res (assert_that (size_add frame_size 10 < sink_recv_buf_len)) (\<lambda>_.
     let (sink_ptr, w) = malloc sink_recv_buf_len w in
     bind_res (assert_that (sink_ptr \<noteq> Null)) (\<lambda>_.
     bind_res (write_cells sink_ptr (replicate sink_recv_buf_len (Some 0)) w) (\<lambda>w.
     bind_res (mem_block_alloc frame_size w) (\<lambda>(current, w).
     bind_res (mem_block_alloc frame_size w) (\<lambda>(received, w).
     bind_res (mem_ring_alloc (size_mul frame_size pending_frames_capacity) w) (\<lambda>(ring, w).
     Inr (\<lparr>snk_state = ATOLLA_SINK_STATE_OPEN,
           snk_error_msg = None,
           snk_socket = \<lparr>socket_handle = 0\<rparr>,
           snk_borrower_endpoint = \<lparr>ep_addr = [], ep_len = 0\<rparr>,
           snk_lights_count = word_of_int (sink_spec_lights_count spec),
           snk_frame_duration_ms = 0,
           snk_builder = \<lparr>msg_buf = \<lparr>blk_data = Null, blk_size = 0, blk_capacity = 0\<rparr>, next_msg_id = 0\<rparr>,
           snk_recv_buf = sink_ptr,
           snk_current_frame = current,
           snk_received_frame = received,
           snk_pending_frames = ring,
           snk_time_origin = 0,
           snk_last_enqueued_frame_idx = 0,
           snk_last_recv_time = 0,
           snk_last_send_lent_time = 0\<rparr>, w)))))))))"

definition atolla_sink_make :: "AtollaSinkSpec \<Rightarrow> world \<Rightarrow> (Sink \<times> world) result" where
  "atolla_sink_make spec w =
     bind_res (sink_private_make spec w) (\<lambda>(sink, w).
     bind_res (udp_socket_init_on_port (Some (snk_socket sink)) (nat (sink_spec_port spec) mod 65536) w)
       (\<lambda>(result, socket, w).
     let sink = sink\<lparr>snk_socket := the socket\<rparr>;
         sink = (if res_code result \<noteq> UDP_SOCKET_OK
                 then sink_panic sink ''Failed to bind source to port specified in spec.''
                 else sink) in
     bind_res (msg_builder_init w) (\<lambda>(builder, w).
     Inr (sink\<lparr>snk_builder := builder\<rparr>, w))))"

definition atolla_sink_free :: "Sink \<Rightarrow> world \<Rightarrow> world result" where
  "atolla_sink_free sink w =
     bind_res (msg_builder_free (snk_builder sink) w) (\<lambda>(_, w).
     bind_res (udp_socket_free (Some (snk_socket sink)) w) (\<lambda>(_, _, w).
     bind_res (mem_block_free (snk_current_frame sink) w) (\<lambda>(_, w).
     bind_res (mem_block_free (snk_received_frame sink) w) (\<lambda>(_, w).
     bind_res (mem_ring_free (snk_pending_frames sink) w) (\<lambda>(_, w).
     free_ptr (snk_recv_buf sink) w)))))"

definition atolla_sink_state :: "Sink \<Rightarrow> world \<Rightarrow> (AtollaSinkState \<times> Sink \<times> world) result" where
  "atolla_sink_state sink w =
     bind_res (if snk_state sink \<noteq> ATOLLA_SINK_STATE_ERROR then sink_update sink w else Inr (sink, w))
       (\<lambda>(sink, w). Inr (snk_state sink, sink, w))"

definition atolla_sink_error_msg :: "Sink \<Rightarrow> string option" where
  "atolla_sink_error_msg sink = snk_error_msg sink"

definition sink_dequeue :: "Sink \<Rightarrow> world \<Rightarrow> (bool \<times> Sink \<times> world) result" where
  "sink_dequeue sink w =
     bind_res (mem_ring_dequeue (snk_pending_frames sink)
                 (blk_data (snk_current_frame sink)) (blk_capacity (snk_current_frame sink)) w)
       (\<lambda>(ok, ring, w). Inr (ok, sink\<lparr>snk_pending_frames := ring\<rparr>, w))"

text \<open>
  \<^verbatim>\<open>while((now - sink->time_origin) > sink->frame_duration_ms) { ... }\<close>. Every round but the
  last takes a frame out of the ring, so as many rounds as the ring has bytes, and one more,
  are enough (\<open>get_loop_refines\<close> in \<open>Sink_Api\<close>).
\<close>

definition get_round :: "u32 \<Rightarrow> Sink \<times> world \<Rightarrow> ((Sink \<times> world) + (Sink \<times> world)) result" where
  "get_round now = (\<lambda>(sink, w).
     if now - snk_time_origin sink > snk_frame_duration_ms sink
     then bind_res (sink_dequeue sink w) (\<lambda>(ok, sink, w).
          if ok
          then Inr (Inl (sink\<lparr>snk_time_origin := snk_time_origin sink + snk_frame_duration_ms sink\<rparr>, w))
          else Inr (Inr (sink, w)))
     else Inr (Inr (sink, w)))"

definition get_loop :: "u32 \<Rightarrow> Sink \<Rightarrow> world \<Rightarrow> (Sink \<times> world) result" where
  "get_loop now sink w =
     loop (Suc (Suc (ring_len (snk_pending_frames sink)))) (get_round now) (sink, w)"

definition atolla_sink_get ::
  "Sink \<Rightarrow> ptr \<Rightarrow> nat \<Rightarrow> world \<Rightarrow> (bool \<times> Sink \<times> world) result" where
  "atolla_sink_get sink frame frame_len w =
     (let fill = (\<lambda>sink w. bind_res (fill_with_pattern frame frame_len
            (blk_data (snk_current_frame sink)) (blk_capacity (snk_current_frame sink)) w)
            (\<lambda>w. Inr (True, sink, w))) in
      if snk_state sink = ATOLLA_SINK_STATE_LENT
      then
        if snk_time_origin sink = NULL_TIME
        then bind_res (sink_dequeue sink w) (\<lambda>(ok, sink, w).
             if ok
             then let (now, w) = time_now w in fill (sink\<lparr>snk_time_origin := now\<rparr>) w
             else Inr (False, sink, w))
        else
          let (now, w) = time_now w in
          bind_res (get_loop now sink w) (\<lambda>(sink, w). fill sink w)
      else Inr (False, sink, w))"

end
