(* ===== verification/Sink_Protocol.thy ===== *)
theory Sink_Protocol
  imports Sink
begin

text \<open>
  What a sink promises, without its memory: the abstract state is who has borrowed it, the
  frames that wait to be shown, oldest first, and the frame that is shown, and each message of
  a datagram is one step on it. \<open>None\<close> is the one case in which the sink does not come back.
  \<^verbatim>\<open>doc/Atolla Protocol.md\<close> is the informal counterpart. \<open>Sink_Refinement\<close> shows that
  \<^verbatim>\<open>sink.cpp\<close> implements these steps.
\<close>

record Sink_View =
  sv_state :: AtollaSinkState
  sv_borrower :: UdpEndpoint
  sv_frame_size :: nat
  sv_duration :: u32
  sv_origin :: u32
  sv_last_idx :: int
  sv_frames :: "u8 list list"
  sv_shown :: "cell list"
  sv_next_id :: u16
  sv_handle :: int

type_synonym sink_step = "Sink_View \<times> os_event list"

section \<open>Patterns\<close>

text \<open>\<open>cycle len ps\<close>: the pattern \<open>ps\<close> repeated, and cut off, to fill \<open>len\<close> places.\<close>

definition cycle :: "nat \<Rightarrow> 'a list \<Rightarrow> 'a list" where
  "cycle len ps = map (\<lambda>j. ps ! (j mod length ps)) [0..<len]"

lemma length_cycle [simp]: "length (cycle len ps) = len"
  by (simp add: cycle_def)

lemma cycle_short: "len \<le> length ps \<Longrightarrow> cycle len ps = take len ps"
  by (rule nth_equalityI) (auto simp: cycle_def)

lemma cycle_same [simp]: "length ps = len \<Longrightarrow> cycle len ps = ps"
  by (simp add: cycle_short)

lemma cycle_long:
  assumes "length ps < len"
  shows "cycle len ps = ps @ cycle (len - length ps) ps"
proof (rule nth_equalityI)
  show "length (cycle len ps) = length (ps @ cycle (len - length ps) ps)" using assms by simp
  fix j assume "j < length (cycle len ps)"
  then show "cycle len ps ! j = (ps @ cycle (len - length ps) ps) ! j"
    using assms by (auto simp: cycle_def nth_append le_mod_geq not_less)
qed

lemma map_cycle: "ps \<noteq> [] \<Longrightarrow> cycle len (map f ps) = map f (cycle len ps)"
  by (simp add: cycle_def)

section \<open>Steps\<close>

definition reply :: "(u16 \<Rightarrow> message) \<Rightarrow> UdpEndpoint \<Rightarrow> Sink_View \<Rightarrow> sink_step" where
  "reply m to v =
     (v\<lparr>sv_next_id := sv_next_id v + 1\<rparr>,
      [Sent (sv_handle v) (Some to) (encode (m (sv_next_id v)))])"

definition refuse :: "u16 \<Rightarrow> u8 \<Rightarrow> UdpEndpoint \<Rightarrow> Sink_View \<Rightarrow> sink_step" where
  "refuse causing code to v = reply (\<lambda>i. Fail i causing code) to v"

definition drop_lease :: "sink_step \<Rightarrow> sink_step" where
  "drop_lease = (\<lambda>(v, out).
     (if sv_state v = ATOLLA_SINK_STATE_LENT then v\<lparr>sv_state := ATOLLA_SINK_STATE_OPEN\<rparr> else v, out))"

text \<open>Whose messages the sink obeys: anybody's while it is open, the borrower's while it is lent.\<close>

definition may_borrow :: "UdpEndpoint \<Rightarrow> Sink_View \<Rightarrow> bool" where
  "may_borrow sender v \<longleftrightarrow>
     sv_state v = ATOLLA_SINK_STATE_OPEN \<or>
     sv_state v = ATOLLA_SINK_STATE_LENT \<and> udp_endpoint_equal sender (sv_borrower v)"

definition borrow_step :: "UdpEndpoint \<Rightarrow> u16 \<Rightarrow> u8 \<Rightarrow> u8 \<Rightarrow> Sink_View \<Rightarrow> sink_step" where
  "borrow_step sender i frame_length buffer_length v =
     (if may_borrow sender v
      then
        if unat buffer_length > pending_frames_capacity
        then drop_lease (refuse i ATOLLA_ERROR_CODE_REQUESTED_BUFFER_TOO_LARGE sender v)
        else if uint frame_length < frame_length_ms_min
        then drop_lease (refuse i ATOLLA_ERROR_CODE_REQUESTED_FRAME_DURATION_TOO_SHORT sender v)
        else reply Lent sender
               (v\<lparr>sv_state := ATOLLA_SINK_STATE_LENT, sv_borrower := sender,
                  sv_duration := ucast frame_length, sv_origin := NULL_TIME, sv_last_idx := -1\<rparr>)
      else if sv_state v = ATOLLA_SINK_STATE_LENT
      then refuse i ATOLLA_ERROR_CODE_LENT_TO_OTHER_SOURCE sender v
      else (v, []))"

text \<open>
  How many frames the frame with index \<open>idx\<close> stands for: one, and one for every frame lost
  since the last one received. More than 128 means it came late.
\<close>

definition frames_ahead :: "int \<Rightarrow> int \<Rightarrow> nat" where
  "frames_ahead last_idx idx = nat ((idx - last_idx) mod 256)"

definition enqueue_step :: "UdpEndpoint \<Rightarrow> u16 \<Rightarrow> u8 \<Rightarrow> u8 list \<Rightarrow> Sink_View \<Rightarrow> sink_step option" where
  "enqueue_step sender i idx frame v =
     (case sv_state v of
        ATOLLA_SINK_STATE_ERROR \<Rightarrow> Some (v, [])
      | ATOLLA_SINK_STATE_OPEN \<Rightarrow> Some (refuse i ATOLLA_ERROR_CODE_NOT_BORROWED sender v)
      | ATOLLA_SINK_STATE_LENT \<Rightarrow>
          if length frame < 3 then Some (drop_lease (refuse i ATOLLA_ERROR_CODE_BAD_MSG sender v))
          else if \<not> udp_endpoint_equal sender (sv_borrower v)
          then Some (refuse i ATOLLA_ERROR_CODE_LENT_TO_OTHER_SOURCE sender v)
          else
            let k = frames_ahead (sv_last_idx v) (uint idx) in
            if k = 0 \<or> 128 < k then Some (v, [])
            else if length (sv_frames v) + k \<le> pending_frames_capacity
            then Some (v\<lparr>sv_frames := sv_frames v @ replicate k (cycle (sv_frame_size v) frame),
                          sv_last_idx := uint idx\<rparr>, [])
            else None)"

fun message_step :: "UdpEndpoint \<Rightarrow> message \<Rightarrow> Sink_View \<Rightarrow> sink_step option" where
  "message_step sender (Borrow i frame_length buffer_length) v =
     Some (borrow_step sender i frame_length buffer_length v)"
| "message_step sender (Enqueue i idx frame) v = enqueue_step sender i idx frame v"
| "message_step sender (Lent i) v = Some (refuse i ATOLLA_ERROR_CODE_BAD_MSG sender v)"
| "message_step sender (Fail i causing code) v = Some (refuse i ATOLLA_ERROR_CODE_BAD_MSG sender v)"

text \<open>A step on what was sent so far, and the steps of a whole datagram.\<close>

definition sink_spec :: "UdpEndpoint \<Rightarrow> message \<Rightarrow> sink_step \<Rightarrow> sink_step option" where
  "sink_spec sender m = (\<lambda>(v, out).
     map_option (\<lambda>(v', out'). (v', out @ out')) (message_step sender m v))"

definition datagram_step :: "UdpEndpoint \<Rightarrow> message list \<Rightarrow> Sink_View \<Rightarrow> sink_step option" where
  "datagram_step sender ms v = run_spec (sink_spec sender) ms (v, [])"

text \<open>
  Showing frames. The frames due at time \<open>now\<close>: one for every whole frame duration that has
  passed, not counting a duration that ends exactly now.
\<close>

definition frames_due :: "u32 \<Rightarrow> Sink_View \<Rightarrow> nat" where
  "frames_due now v = (unat (now - sv_origin v) - 1) div unat (sv_duration v)"

definition show_frames :: "nat \<Rightarrow> Sink_View \<Rightarrow> Sink_View" where
  "show_frames k v =
     (if k = 0 then v
      else v\<lparr>sv_shown := map Some (sv_frames v ! (k - 1)), sv_frames := drop k (sv_frames v)\<rparr>)"

definition get_step :: "u32 \<Rightarrow> Sink_View \<Rightarrow> bool \<times> Sink_View" where
  "get_step now v =
     (if sv_state v = ATOLLA_SINK_STATE_LENT
      then
        if sv_origin v = NULL_TIME
        then if sv_frames v = [] then (False, v)
             else (True, (show_frames 1 v)\<lparr>sv_origin := now\<rparr>)
        else
          let k = min (frames_due now v) (length (sv_frames v)) in
          (True, (show_frames k v)\<lparr>sv_origin := sv_origin v + of_nat k * sv_duration v\<rparr>)
      else (False, v))"

section \<open>What every step keeps\<close>

definition view_ok :: "Sink_View \<Rightarrow> bool" where
  "view_ok v \<longleftrightarrow>
     3 \<le> sv_frame_size v \<and> sv_frame_size v \<le> 1011 \<and>
     length (sv_frames v) \<le> pending_frames_capacity \<and>
     list_all (\<lambda>f. length f = sv_frame_size v) (sv_frames v) \<and>
     length (sv_shown v) = sv_frame_size v \<and>
     -1 \<le> sv_last_idx v \<and> sv_last_idx v \<le> 255 \<and>
     (sv_state v = ATOLLA_SINK_STATE_LENT \<longrightarrow> 10 \<le> unat (sv_duration v) \<and> unat (sv_duration v) \<le> 255)"

lemmas step_defs = reply_def refuse_def drop_lease_def may_borrow_def

lemma view_ok_next_id [simp]: "view_ok (v\<lparr>sv_next_id := i\<rparr>) = view_ok v"
  by (simp add: view_ok_def)

lemma view_ok_reply: "view_ok v \<Longrightarrow> view_ok (fst (reply m to v))"
  by (simp add: view_ok_def reply_def)

lemma view_ok_refuse: "view_ok v \<Longrightarrow> view_ok (fst (refuse i c to v))"
  unfolding refuse_def by (rule view_ok_reply)

lemma view_ok_drop_lease: "view_ok (fst r) \<Longrightarrow> view_ok (fst (drop_lease r))"
  by (cases r) (simp add: view_ok_def drop_lease_def)

lemma unat_ucast_u8: "unat (ucast (b :: u8) :: u32) = unat b"
proof -
  have "unat b < 2 ^ 32" using unat_u8_less [of b] by simp
  then show ?thesis by (simp add: unsigned_ucast_eq take_bit_nat_eq_self)
qed

lemma u8_at_least: "\<not> uint (b :: u8) < int n \<Longrightarrow> n \<le> unat b"
proof -
  assume "\<not> uint b < int n"
  then have "int n \<le> int (unat b)" by simp
  then show "n \<le> unat b" by (simp only: of_nat_le_iff)
qed

lemma u8_at_most: "unat (b :: u8) \<le> 255" "uint b \<le> 255" "-1 \<le> uint b"
proof -
  show "unat b \<le> 255" using unat_u8_less [of b] by simp
  then have "int (unat b) \<le> 255" by linarith
  then show "uint b \<le> 255" by simp
  have "0 \<le> uint b" by simp
  then show "-1 \<le> uint b" by linarith
qed

lemma view_ok_borrow:
  assumes "view_ok v"
  shows "view_ok (fst (borrow_step sender i fl bl v))"
proof -
  have "view_ok (v\<lparr>sv_state := ATOLLA_SINK_STATE_LENT, sv_borrower := sender,
      sv_duration := ucast fl, sv_origin := NULL_TIME, sv_last_idx := -1\<rparr>)"
    if "\<not> uint fl < frame_length_ms_min"
    using assms u8_at_least [of fl 10] u8_at_most(1) [of fl] that
    by (simp add: view_ok_def unat_ucast_u8 frame_length_ms_min_def)
  with assms show ?thesis
    by (simp add: borrow_step_def view_ok_refuse view_ok_drop_lease view_ok_reply)
qed

lemma view_ok_enqueue:
  assumes "view_ok v" "enqueue_step sender i idx frame v = Some r"
  shows "view_ok (fst r)"
proof -
  have "view_ok (v\<lparr>sv_frames := sv_frames v @ replicate k (cycle (sv_frame_size v) frame),
      sv_last_idx := uint idx\<rparr>)" if "length (sv_frames v) + k \<le> pending_frames_capacity" for k
    using assms(1) that u8_at_most [of idx] by (auto simp: view_ok_def list_all_iff)
  with assms show ?thesis
    by (auto simp: enqueue_step_def Let_def view_ok_refuse view_ok_drop_lease
        split: AtollaSinkState.splits if_splits)
qed

lemma view_ok_message: "view_ok v \<Longrightarrow> message_step sender m v = Some r \<Longrightarrow> view_ok (fst r)"
  by (cases m) (auto intro: view_ok_borrow view_ok_refuse view_ok_enqueue)

end
