(* ===== verification/Sink_Refinement.thy ===== *)
theory Sink_Refinement
  imports Sink_Protocol
begin

text \<open>
  \<^verbatim>\<open>sink.cpp\<close> implements the steps of \<open>Sink_Protocol\<close>: the layout of the memory a sink owns,
  the relation \<open>represents\<close> between a sink in memory and its abstract state, and one lemma per
  function of the source that shows the relation kept and the datagrams sent.
\<close>

section \<open>Copying a pattern\<close>

lemma fill_with_pattern_cells:
  assumes "blocks h t = Some ts" "i + len \<le> length ts" "t \<noteq> b"
    and "0 < n" "read_cells (Ptr b j) n h = Inr ps"
  shows "fill_with_pattern (Ptr t i) len (Ptr b j) n h =
    Inr (h\<lparr>blocks := (blocks h)(t := Some (overlay i (cycle len ps) ts))\<rparr>)"
  using assms
proof (induction len arbitrary: i h ts rule: less_induct)
  case (less len)
  from less.prems have n: "length ps = n" by (auto dest: read_cells_length)
  note unfold = fill_with_pattern.simps [of "Ptr t i" len "Ptr b j" n h]
  show ?case
  proof (cases "len \<le> n")
    case True
    have "read_cells (Ptr b j) len h = Inr (take len ps)"
      using less.prems(4,5) True
      by (auto simp: read_cells_def min_def split: option.splits if_splits)
    moreover have "write_cells (Ptr t i) (take len ps) h =
        Inr (h\<lparr>blocks := (blocks h)(t := Some (overlay i (take len ps) ts))\<rparr>)"
      using less.prems True n by (intro write_cells_block) auto
    ultimately have "memcpy (Ptr t i) (Ptr b j) len h =
        Inr (h\<lparr>blocks := (blocks h)(t := Some (overlay i (take len ps) ts))\<rparr>)"
      by (simp only: memcpy_def bind_res_simps)
    moreover have "h\<lparr>blocks := (blocks h)(t := Some (overlay i (take 0 ps) ts))\<rparr> = h"
      using less.prems(1) by (simp add: fun_upd_idem)
    ultimately have "fill_with_pattern (Ptr t i) len (Ptr b j) n h =
        Inr (h\<lparr>blocks := (blocks h)(t := Some (overlay i (take len ps) ts))\<rparr>)"
      using True less.prems(4) by (subst unfold) auto
    moreover have "cycle len ps = take len ps" using True n by (simp add: cycle_short)
    ultimately show ?thesis by (simp only:)
  next
    case False
    let ?ts = "overlay i ps ts"
    let ?h = "h\<lparr>blocks := (blocks h)(t := Some ?ts)\<rparr>"
    have "memcpy (Ptr t i) (Ptr b j) n h = Inr ?h"
      using less.prems n False by (simp add: memcpy_def write_cells_block)
    moreover have "fill_with_pattern (Ptr t (i + n)) (len - n) (Ptr b j) n ?h =
        Inr (?h\<lparr>blocks := (blocks ?h)(t := Some (overlay (i + n) (cycle (len - n) ps) ?ts))\<rparr>)"
      by (rule less.IH) (use less.prems n False in auto)
    moreover have "overlay (i + n) (cycle (len - n) ps) ?ts = overlay i (cycle len ps) ts"
      using overlay_overlay_adjacent [of i ps "cycle (len - n) ps" ts] less.prems n False
        cycle_long [of ps len]
      by simp
    ultimately have "fill_with_pattern (Ptr t i) len (Ptr b j) n h =
        Inr (h\<lparr>blocks := (blocks h)(t := Some (overlay i (cycle len ps) ts))\<rparr>)"
      using less.prems False by (simp add: unfold)
    then show ?thesis by (simp only:)
  qed
qed

section \<open>The memory of a sink\<close>

abbreviation recv_block :: "Sink \<Rightarrow> nat" where
  "recv_block s \<equiv> block_of (snk_recv_buf s)"
abbreviation current_block :: "Sink \<Rightarrow> nat" where
  "current_block s \<equiv> block_of (blk_data (snk_current_frame s))"
abbreviation received_block :: "Sink \<Rightarrow> nat" where
  "received_block s \<equiv> block_of (blk_data (snk_received_frame s))"
abbreviation ring_block :: "Sink \<Rightarrow> nat" where
  "ring_block s \<equiv> block_of (blk_data (ring_buf (snk_pending_frames s)))"
abbreviation builder_block :: "Sink \<Rightarrow> nat" where
  "builder_block s \<equiv> block_of (blk_data (msg_buf (snk_builder s)))"
abbreviation frame_size :: "Sink \<Rightarrow> nat" where
  "frame_size s \<equiv> blk_capacity (snk_current_frame s)"

text \<open>
  Five live blocks, no two of them the same: the receive buffer, the two frames of three bytes
  per light, the ring of 128 such frames and the block of the builder.
\<close>

definition sink_blocks :: "Sink \<Rightarrow> nat list" where
  "sink_blocks s = [recv_block s, current_block s, received_block s, ring_block s, builder_block s]"

definition frame_size_ok :: "Sink \<Rightarrow> bool" where
  "frame_size_ok s \<longleftrightarrow>
     frame_size s = unat (snk_lights_count s) * color_channel_count \<and>
     3 \<le> frame_size s \<and> frame_size s \<le> 1011"

definition sink_layout :: "Sink \<Rightarrow> 'a heap_scheme \<Rightarrow> bool" where
  "sink_layout s h \<longleftrightarrow>
     distinct (sink_blocks s) \<and> frame_size_ok s \<and>
     live (snk_recv_buf s) sink_recv_buf_len h \<and>
     owns (snk_current_frame s) (frame_size s) h \<and>
     owns (snk_received_frame s) (frame_size s) h \<and>
     ring_inv (frame_size s) (snk_pending_frames s) h \<and>
     blk_size (ring_buf (snk_pending_frames s)) = frame_size s * pending_frames_capacity \<and>
     initial_block_capacity \<le> blk_capacity (msg_buf (snk_builder s)) \<and>
     owns (msg_buf (snk_builder s)) (blk_capacity (msg_buf (snk_builder s))) h"

lemma frame_size_ok_update [simp]:
  "frame_size_ok (s\<lparr>snk_builder := b\<rparr>) = frame_size_ok s"
  "frame_size_ok (s\<lparr>snk_pending_frames := ring\<rparr>) = frame_size_ok s"
  by (simp_all add: frame_size_ok_def)

lemma sink_blocks_update:
  "blk_data (msg_buf b) = blk_data (msg_buf (snk_builder s)) \<Longrightarrow>
   sink_blocks (s\<lparr>snk_builder := b\<rparr>) = sink_blocks s"
  "ring_buf ring = ring_buf (snk_pending_frames s) \<Longrightarrow>
   sink_blocks (s\<lparr>snk_pending_frames := ring\<rparr>) = sink_blocks s"
  by (simp_all add: sink_blocks_def)

lemma sink_blocks_scalar [simp]:
  "sink_blocks (s\<lparr>snk_state := a\<rparr>) = sink_blocks s"
  "sink_blocks (s\<lparr>snk_borrower_endpoint := b\<rparr>) = sink_blocks s"
  "sink_blocks (s\<lparr>snk_frame_duration_ms := c\<rparr>) = sink_blocks s"
  "sink_blocks (s\<lparr>snk_time_origin := c\<rparr>) = sink_blocks s"
  "sink_blocks (s\<lparr>snk_last_enqueued_frame_idx := d\<rparr>) = sink_blocks s"
  "sink_blocks (s\<lparr>snk_last_recv_time := c\<rparr>) = sink_blocks s"
  "sink_blocks (s\<lparr>snk_last_send_lent_time := c\<rparr>) = sink_blocks s"
  by (simp_all add: sink_blocks_def)

lemma sink_layout_shape: "sink_layout s h \<Longrightarrow> shape h' = shape h \<Longrightarrow> sink_layout s h'"
  unfolding sink_layout_def by (metis owns_shape live_shape ring_inv_shape)

lemma sink_layoutE:
  assumes "sink_layout s h"
  obtains rb cb fb gb kb n where "n = frame_size s" "3 \<le> n" "n \<le> 1011"
    "distinct [rb, cb, fb, gb, kb]" "snk_recv_buf s = Ptr rb 0"
    "owned (snk_current_frame s) cb n h" "owned (snk_received_frame s) fb n h"
    "blk_data (snk_current_frame s) = Ptr cb 0" "blk_data (snk_received_frame s) = Ptr fb 0"
    "blk_data (ring_buf (snk_pending_frames s)) = Ptr gb 0"
    "blk_data (msg_buf (snk_builder s)) = Ptr kb 0"
    "owned (msg_buf (snk_builder s)) kb (blk_capacity (msg_buf (snk_builder s))) h"
    "initial_block_capacity \<le> blk_capacity (msg_buf (snk_builder s))"
    "ring_inv n (snk_pending_frames s) h"
    "blk_size (ring_buf (snk_pending_frames s)) = n * pending_frames_capacity"
proof -
  from assms obtain rb cb fb kb cs where own: "snk_recv_buf s = Ptr rb 0"
    "owned (snk_current_frame s) cb (frame_size s) h"
    "owned (snk_received_frame s) fb (frame_size s) h"
    "owned (msg_buf (snk_builder s)) kb (blk_capacity (msg_buf (snk_builder s))) h"
    by (auto simp: sink_layout_def live_def owns_def)
  from assms have "ring_inv (frame_size s) (snk_pending_frames s) h"
    by (simp add: sink_layout_def)
  then obtain gb where "blk_data (ring_buf (snk_pending_frames s)) = Ptr gb 0"
    by (rule ring_invE)
  moreover have "blk_data (snk_current_frame s) = Ptr cb 0" "blk_data (snk_received_frame s) = Ptr fb 0"
    "blk_data (msg_buf (snk_builder s)) = Ptr kb 0"
    using own by (simp_all add: owned_def)
  ultimately show ?thesis
    using assms own by (intro that [of "frame_size s" rb cb fb gb kb]) (auto simp: sink_layout_def frame_size_ok_def sink_blocks_def)
qed

section \<open>The abstraction\<close>

definition represents :: "Sink \<Rightarrow> 'a heap_scheme \<Rightarrow> Sink_View \<Rightarrow> bool" where
  "represents s h v \<longleftrightarrow>
     sink_layout s h \<and> view_ok v \<and>
     snk_state s = sv_state v \<and> snk_borrower_endpoint s = sv_borrower v \<and>
     frame_size s = sv_frame_size v \<and> snk_frame_duration_ms s = sv_duration v \<and>
     snk_time_origin s = sv_origin v \<and> snk_last_enqueued_frame_idx s = sv_last_idx v \<and>
     next_msg_id (snk_builder s) = sv_next_id v \<and> socket_handle (snk_socket s) = sv_handle v \<and>
     contents (snk_pending_frames s) h = map Some (concat (sv_frames v)) \<and>
     blocks h (current_block s) = Some (sv_shown v)"

text \<open>
  What a step of the sink may do to the outside: send datagrams, and nothing else. It stores
  into the five blocks of the sink only, and allocates and frees nothing (\<open>keeps\<close>).
\<close>

definition keeps :: "Sink \<times> world \<Rightarrow> Sink \<times> world \<Rightarrow> bool" where
  "keeps = (\<lambda>(s, w) (s', w').
     sink_blocks s' = sink_blocks s \<and> shape w' = shape w \<and>
     (\<forall>b. b \<notin> set (sink_blocks s) \<longrightarrow> blocks w' b = blocks w b))"

lemma keeps_refl [simp]: "keeps x x"
  by (simp add: keeps_def split: prod.splits)

lemma keeps_unseen [simp]:
  "keeps x (s\<lparr>snk_state := a\<rparr>, w) = keeps x (s, w)"
  "keeps x (s\<lparr>snk_last_recv_time := c\<rparr>, w) = keeps x (s, w)"
  "keeps x (s\<lparr>snk_last_send_lent_time := c\<rparr>, w) = keeps x (s, w)"
  "keeps x (s, w\<lparr>tick := t\<rparr>) = keeps x (s, w)"
  "keeps x (s, w\<lparr>errno := e\<rparr>) = keeps x (s, w)"
  "keeps (s, w\<lparr>tick := t\<rparr>) x = keeps (s, w) x"
  "keeps (s, w\<lparr>errno := e\<rparr>) x = keeps (s, w) x"
  by (cases x; simp add: keeps_def shape_def)+

lemma keeps_trans: "keeps x y \<Longrightarrow> keeps y z \<Longrightarrow> keeps x z"
  by (auto simp: keeps_def split: prod.splits)

definition emits :: "os_event list \<Rightarrow> Sink \<times> world \<Rightarrow> Sink \<times> world \<Rightarrow> bool" where
  "emits out = (\<lambda>(s, w) (s', w').
     sent out w w' \<and> keeps (s, w) (s', w') \<and> snk_recv_buf s' = snk_recv_buf s \<and>
     blocks w' (recv_block s) = blocks w (recv_block s))"

lemma emits_refl: "emits [] (s, w) (s, w)"
  by (simp add: emits_def)

lemma emits_trans:
  "emits out (s, w) (s', w') \<Longrightarrow> emits out' (s', w') (s'', w'') \<Longrightarrow>
   emits (out @ out') (s, w) (s'', w'')"
  by (auto simp: emits_def intro: sent_trans keeps_trans)

lemma length_concat_frames:
  "list_all (\<lambda>f. length f = n) fs \<Longrightarrow> length (concat fs) = n * length fs"
  by (induction fs) auto

lemma represents_ring_len:
  "represents s h v \<Longrightarrow> ring_len (snk_pending_frames s) = sv_frame_size v * length (sv_frames v)"
  using length_contents [of "snk_pending_frames s" h] length_concat_frames [of "sv_frame_size v" "sv_frames v"]
  by (simp add: represents_def view_ok_def del: length_contents)

section \<open>Sending\<close>

lemma represents_heap:
  assumes "represents s h v" "shape h' = shape h"
    and "blocks h' (ring_block s) = blocks h (ring_block s)"
    and "blocks h' (current_block s) = blocks h (current_block s)"
  shows "represents s h' v"
proof -
  from assms(1) have lay: "sink_layout s h" by (simp add: represents_def)
  then obtain gb where "blk_data (ring_buf (snk_pending_frames s)) = Ptr gb 0"
    by (rule sink_layoutE)
  with assms(3) have "contents (snk_pending_frames s) h' = contents (snk_pending_frames s) h"
    by (intro contents_same_block) auto
  with assms lay show ?thesis by (simp add: represents_def sink_layout_shape)
qed

lemma represents_builder:
  assumes "represents s h v" "n \<le> blk_capacity (msg_buf (snk_builder s))"
  shows "represents (s\<lparr>snk_builder := (snk_builder s)\<lparr>msg_buf := (msg_buf (snk_builder s))\<lparr>blk_size := n\<rparr>,
           next_msg_id := next_msg_id (snk_builder s) + 1\<rparr>\<rparr>) h (v\<lparr>sv_next_id := sv_next_id v + 1\<rparr>)"
proof -
  have "owns b m h \<Longrightarrow> n \<le> m \<Longrightarrow> owns (b\<lparr>blk_size := n\<rparr>) m h" for b m
    by (auto simp: owns_def owned_def)
  then have "sink_layout (s\<lparr>snk_builder := (snk_builder s)\<lparr>msg_buf := (msg_buf (snk_builder s))\<lparr>blk_size := n\<rparr>,
           next_msg_id := i\<rparr>\<rparr>) h" if "sink_layout s h" for i
    using that assms(2) by (simp add: sink_layout_def sink_blocks_update)
  with assms(1) show ?thesis by (simp add: represents_def)
qed

lemma send_built:
  assumes rep: "represents s w v" and whole: "sends_whole (os w)"
    and cs: "length cs = blk_capacity (msg_buf (snk_builder s))" "take n cs = map Some bytes"
    and n: "n = length bytes" "0 < n" "n \<le> blk_capacity (msg_buf (snk_builder s))"
    and kb: "blk_data (msg_buf (snk_builder s)) = Ptr kb 0"
    and s': "s' = s\<lparr>snk_builder := (snk_builder s)\<lparr>msg_buf := (msg_buf (snk_builder s))\<lparr>blk_size := n\<rparr>,
           next_msg_id := next_msg_id (snk_builder s) + 1\<rparr>\<rparr>"
    and h': "h' = w\<lparr>blocks := (blocks w)(kb := Some cs)\<rparr>"
  shows "returns (udp_socket_send_to (Some (snk_socket s)) (Ptr kb 0) n to h')
    (\<lambda>(r, w'). represents s' w' (v\<lparr>sv_next_id := sv_next_id v + 1\<rparr>) \<and>
      emits [Sent (sv_handle v) to bytes] (s, w) (s', w'))"
proof -
  from rep have "sink_layout s w" by (simp add: represents_def)
  then obtain rb cb fb gb kb' m where lay: "distinct [rb, cb, fb, gb, kb']" "snk_recv_buf s = Ptr rb 0"
    "blk_data (snk_current_frame s) = Ptr cb 0" "blk_data (ring_buf (snk_pending_frames s)) = Ptr gb 0"
    "blk_data (msg_buf (snk_builder s)) = Ptr kb' 0"
    "owned (msg_buf (snk_builder s)) kb' (blk_capacity (msg_buf (snk_builder s))) w"
    by (rule sink_layoutE)
  from lay(5) kb have [simp]: "kb' = kb" by simp
  from lay(6) cs(1) obtain cs0 where cs0: "blocks w kb = Some cs0" "length cs = length cs0"
    by (auto simp: owned_def)
  have shape: "shape h' = shape w"
    unfolding h' by (rule shape_store [OF cs0])
  have handle: "socket_handle (snk_socket s) = sv_handle v" using rep by (simp add: represents_def)
  from rep n(3) have "represents s' w (v\<lparr>sv_next_id := sv_next_id v + 1\<rparr>)"
    unfolding s' by (rule represents_builder)
  then have rep': "represents s' h'' (v\<lparr>sv_next_id := sv_next_id v + 1\<rparr>)"
    if "blocks h'' = blocks h'" "shape h'' = shape h'" for h'' :: world
    using that shape lay by (elim represents_heap) (auto simp: s' h')
  have "read_bytes (Ptr kb 0) n h' = Inr bytes"
    using cs n by (intro read_bytes_block [of _ _ cs]) (auto simp: h')
  then have "returns (udp_socket_send_to (Some (snk_socket s)) (Ptr kb 0) n to h')
    (\<lambda>(r, w'). \<exists>events. performs events h' w' \<and> tick w' = Suc (tick h') \<and>
       delivered (os h') [Sent (socket_handle (snk_socket s)) to bytes] events \<and>
       events = (if res_code r = UDP_SOCKET_OK
                 then [Sent (socket_handle (snk_socket s)) to bytes] else []))"
    using n(2) whole by (intro udp_socket_send_to_returns) (auto simp: h')
  then obtain r w' events where
    send: "udp_socket_send_to (Some (snk_socket s)) (Ptr kb 0) n to h' = Inr (r, w')"
    and perf: "performs events h' w'"
    and del: "delivered (os h') [Sent (socket_handle (snk_socket s)) to bytes] events"
    by (auto simp: returns_iff)
  from perf obtain t e where w': "w' = h'\<lparr>tick := t, errno := e, os_log := os_log h' @ events\<rparr>"
    by (auto simp: performs_def)
  have "represents s' w' (v\<lparr>sv_next_id := sv_next_id v + 1\<rparr>)"
    by (rule rep') (simp_all add: w' shape_def)
  moreover have "emits [Sent (sv_handle v) to bytes] (s, w) (s', w')"
    using del lay shape handle by (auto simp: emits_def sent_def keeps_def sink_blocks_def w' h' s' shape_def)
  ultimately show ?thesis using send by simp
qed

lemma sink_send_fail_to_refines:
  assumes "represents s w v" "sends_whole (os w)" "refuse i c to v = (v', out)"
  shows "returns (sink_send_fail_to s i c to w) (\<lambda>(s', w').
    represents s' w' v' \<and> emits out (s, w) (s', w'))"
proof -
  let ?b = "snk_builder s"
  from assms(1) have "sink_layout s w" by (simp add: represents_def)
  then obtain kb where own: "owned (msg_buf ?b) kb (blk_capacity (msg_buf ?b)) w"
    "initial_block_capacity \<le> blk_capacity (msg_buf ?b)" and kb: "blk_data (msg_buf ?b) = Ptr kb 0"
    by (rule sink_layoutE)
  from msg_builder_fail_small [OF own] obtain cs where cs: "length cs = blk_capacity (msg_buf ?b)"
    "take 8 cs = map Some (encode (Fail (next_msg_id ?b) i c))"
    "msg_builder_fail ?b i c w = Inr (?b\<lparr>msg_buf := (msg_buf ?b)\<lparr>blk_size := 8\<rparr>,
        next_msg_id := next_msg_id ?b + 1\<rparr>, w\<lparr>blocks := (blocks w)(kb := Some cs)\<rparr>)"
    by blast
  have "next_msg_id ?b = sv_next_id v" using assms(1) by (simp add: represents_def)
  with send_built [OF assms(1,2) cs(1,2) _ _ _ kb refl refl, of "Some to"] own(2) cs(3) assms(3) kb
  show ?thesis
    by (auto simp: sink_send_fail_to_def Let_def initial_block_capacity_def refuse_def reply_def
        elim!: returns_mono)
qed

lemma sink_layout_update [simp]:
  "sink_layout (s\<lparr>snk_state := a\<rparr>) h = sink_layout s h"
  "sink_layout (s\<lparr>snk_borrower_endpoint := b\<rparr>) h = sink_layout s h"
  "sink_layout (s\<lparr>snk_frame_duration_ms := c\<rparr>) h = sink_layout s h"
  "sink_layout (s\<lparr>snk_time_origin := c\<rparr>) h = sink_layout s h"
  "sink_layout (s\<lparr>snk_last_enqueued_frame_idx := d\<rparr>) h = sink_layout s h"
  "sink_layout (s\<lparr>snk_last_recv_time := c\<rparr>) h = sink_layout s h"
  "sink_layout (s\<lparr>snk_last_send_lent_time := c\<rparr>) h = sink_layout s h"
  by (simp_all add: sink_layout_def sink_blocks_def frame_size_ok_def)

lemma sink_layout_ring:
  "sink_layout s h \<Longrightarrow> ring_buf r = ring_buf (snk_pending_frames s) \<Longrightarrow>
   ring_inv (frame_size s) r h \<Longrightarrow> sink_layout (s\<lparr>snk_pending_frames := r\<rparr>) h"
  by (simp add: sink_layout_def sink_blocks_update)

lemma represents_unseen [simp]:
  "represents (s\<lparr>snk_last_recv_time := c\<rparr>) h v = represents s h v"
  "represents (s\<lparr>snk_last_send_lent_time := c\<rparr>) h v = represents s h v"
  by (simp_all add: represents_def)

lemma represents_tick [simp]:
  "represents s (w\<lparr>tick := t\<rparr>) v = represents s w v"
  "represents s (w\<lparr>errno := e\<rparr>) v = represents s w v"
proof -
  have "shape (w\<lparr>tick := t\<rparr>) = shape w" "shape (w\<lparr>errno := e\<rparr>) = shape w"
    by (simp_all add: shape_def)
  then show "represents s (w\<lparr>tick := t\<rparr>) v = represents s w v"
    "represents s (w\<lparr>errno := e\<rparr>) v = represents s w v"
    by (auto elim: represents_heap)
qed

lemma emits_unseen [simp]:
  "emits out (s, w) (s'\<lparr>snk_last_recv_time := c\<rparr>, w') = emits out (s, w) (s', w')"
  "emits out (s, w) (s'\<lparr>snk_last_send_lent_time := c\<rparr>, w') = emits out (s, w) (s', w')"
  "emits out (s, w) (s'\<lparr>snk_state := st\<rparr>, w') = emits out (s, w) (s', w')"
  "emits out (s, w) (s', w'\<lparr>tick := t\<rparr>) = emits out (s, w) (s', w')"
  by (simp_all add: emits_def)

lemma represents_drop:
  "represents s h v \<Longrightarrow> represents (sink_drop_borrow s) h (v\<lparr>sv_state := ATOLLA_SINK_STATE_OPEN\<rparr>)"
  by (simp add: represents_def sink_drop_borrow_def view_ok_def)

lemma emits_drop [simp]:
  "emits out (s, w) (sink_drop_borrow s', w') = emits out (s, w) (s', w')"
  "keeps (s, w) (sink_drop_borrow s', w') = keeps (s, w) (s', w')"
  by (simp_all add: sink_drop_borrow_def)

lemma sink_send_lent_refines:
  assumes "represents s w v" "sends_whole (os w)" "reply Lent (sv_borrower v) v = (v', out)"
  shows "returns (sink_send_lent s w) (\<lambda>(s', w').
    represents s' w' v' \<and> emits out (s, w) (s', w'))"
proof -
  let ?b = "snk_builder s"
  from assms(1) have "sink_layout s w" by (simp add: represents_def)
  then obtain kb where own: "owned (msg_buf ?b) kb (blk_capacity (msg_buf ?b)) w"
    "initial_block_capacity \<le> blk_capacity (msg_buf ?b)" and kb: "blk_data (msg_buf ?b) = Ptr kb 0"
    by (rule sink_layoutE)
  from msg_builder_lent_small [OF own] obtain cs where cs: "length cs = blk_capacity (msg_buf ?b)"
    "take 5 cs = map Some (encode (Lent (next_msg_id ?b)))"
    "msg_builder_lent ?b w = Inr (?b\<lparr>msg_buf := (msg_buf ?b)\<lparr>blk_size := 5\<rparr>,
        next_msg_id := next_msg_id ?b + 1\<rparr>, w\<lparr>blocks := (blocks w)(kb := Some cs)\<rparr>)"
    by blast
  have eqs: "next_msg_id ?b = sv_next_id v" "snk_borrower_endpoint s = sv_borrower v"
    using assms(1) by (simp_all add: represents_def)
  with send_built [OF assms(1,2) cs(1,2) _ _ _ kb refl refl, of "Some (sv_borrower v)"]
    own(2) cs(3) assms(3) kb
  show ?thesis
    by (auto simp: sink_send_lent_def Let_def initial_block_capacity_def reply_def time_now_split
        elim!: returns_mono)
qed

section \<open>BORROW\<close>

text \<open>The size check of the source is a check of the number of frames.\<close>

lemma required_frame_buf_size:
  assumes "represents s w v"
  shows "size_mul (unat (bl :: u8)) (size_mul (unat (snk_lights_count s)) color_channel_count)
       > blk_capacity (ring_buf (snk_pending_frames s)) \<longleftrightarrow> unat bl > pending_frames_capacity"
proof -
  from assms have lay: "sink_layout s w" by (simp add: represents_def)
  then have n: "frame_size s = unat (snk_lights_count s) * color_channel_count"
    and bounds: "3 \<le> frame_size s" "frame_size s \<le> 1011"
    and ring: "ring_inv (frame_size s) (snk_pending_frames s) w"
    "blk_size (ring_buf (snk_pending_frames s)) = frame_size s * pending_frames_capacity"
    unfolding sink_layout_def frame_size_ok_def by blast+
  from ring(1) obtain b cs where
    "blk_capacity (ring_buf (snk_pending_frames s)) = blk_size (ring_buf (snk_pending_frames s))"
    by (rule ring_invE)
  then have cap: "blk_capacity (ring_buf (snk_pending_frames s)) = frame_size s * pending_frames_capacity"
    using ring(2) by simp
  have "size_mul (unat (snk_lights_count s)) color_channel_count = frame_size s"
    unfolding n using bounds n by (intro size_mul_small) linarith
  moreover have "unat bl * frame_size s \<le> 255 * 1011"
    using u8_at_most(1) [of bl] bounds(2) by (rule mult_le_mono)
  then have "size_mul (unat bl) (frame_size s) = unat bl * frame_size s"
    by (intro size_mul_small) linarith
  ultimately show ?thesis
    using bounds(1) cap by (simp add: mult.commute [of "frame_size s"])
qed

text \<open>A refusal that also ends the lease, if there is one.\<close>

lemma refuse_and_drop_refines:
  assumes "represents s w v" "sends_whole (os w)" "drop_lease (refuse i c to v) = (v', out)"
  shows "returns (sink_send_fail_to s i c to w) (\<lambda>(s', w').
    represents (if snk_state s' = ATOLLA_SINK_STATE_LENT then sink_drop_borrow s' else s') w' v' \<and>
    emits out (s, w) (if snk_state s' = ATOLLA_SINK_STATE_LENT then sink_drop_borrow s' else s', w'))"
proof -
  obtain v1 where v1: "refuse i c to v = (v1, out)" "drop_lease (v1, out) = (v', out)"
    using assms(3) by (auto simp: drop_lease_def split: prod.splits)
  have "represents (if snk_state s' = ATOLLA_SINK_STATE_LENT then sink_drop_borrow s' else s') w' v' \<and>
      emits out (s, w) (if snk_state s' = ATOLLA_SINK_STATE_LENT then sink_drop_borrow s' else s', w')"
    if "represents s' w' v1" "emits out (s, w) (s', w')" for s' w'
  proof -
    have "snk_state s' = sv_state v1" using that(1) by (simp add: represents_def)
    with that v1(2) represents_drop [OF that(1)] show ?thesis
      by (auto simp: drop_lease_def sink_drop_borrow_def)
  qed
  then show ?thesis
    by (intro returns_mono [OF sink_send_fail_to_refines [OF assms(1,2) v1(1)]]) auto
qed

lemma sink_handle_borrow_refines:
  assumes rep: "represents s w v" and whole: "sends_whole (os w)"
    and step: "borrow_step sender i fl bl v = (v', out)"
  shows "returns (sink_handle_borrow s i (uint fl) (unat bl) sender w) (\<lambda>(s', w').
    represents s' w' v' \<and> emits out (s, w) (s', w'))"
proof -
  have eqs [simp]: "snk_state s = sv_state v" "snk_borrower_endpoint s = sv_borrower v"
    using rep by (simp_all add: represents_def)
  note size = required_frame_buf_size [OF rep, of bl]
  note refuse = sink_send_fail_to_refines [OF rep whole]
  note drop = refuse_and_drop_refines [OF rep whole]
  consider (deny) "\<not> may_borrow sender v" | (large) "may_borrow sender v" "unat bl > pending_frames_capacity"
    | (short) "may_borrow sender v" "\<not> unat bl > pending_frames_capacity" "uint fl < frame_length_ms_min"
    | (lend) "may_borrow sender v" "\<not> unat bl > pending_frames_capacity" "\<not> uint fl < frame_length_ms_min"
    by blast
  then show ?thesis
  proof cases
    case deny
    with step rep show ?thesis
      by (cases "sv_state v") (auto simp: sink_handle_borrow_def borrow_step_def may_borrow_def
          emits_refl intro: refuse)
  next
    case large
    then show ?thesis
      using step size by (auto simp: sink_handle_borrow_def borrow_step_def may_borrow_def
          split_def intro!: returns_mono [OF drop])
  next
    case short
    then show ?thesis
      using step size by (auto simp: sink_handle_borrow_def borrow_step_def may_borrow_def
          split_def intro!: returns_mono [OF drop])
  next
    case lend
    let ?s = "s\<lparr>snk_borrower_endpoint := sender, snk_frame_duration_ms := word_of_int (uint fl),
                snk_time_origin := NULL_TIME, snk_last_enqueued_frame_idx := sint NULL_TIME,
                snk_last_recv_time := NULL_TIME, snk_state := ATOLLA_SINK_STATE_LENT\<rparr>"
    let ?v = "v\<lparr>sv_state := ATOLLA_SINK_STATE_LENT, sv_borrower := sender,
                sv_duration := ucast fl, sv_origin := NULL_TIME, sv_last_idx := -1\<rparr>"
    have null: "sint NULL_TIME = -1" by (simp add: NULL_TIME_def)
    have "view_ok ?v" using rep view_ok_borrow [of v sender i fl bl] lend
      by (simp add: borrow_step_def represents_def reply_def)
    with rep have "represents ?s w ?v" by (simp add: represents_def null)
    moreover have "reply Lent (sv_borrower ?v) ?v = (v', out)"
      using step lend by (simp add: borrow_step_def)
    ultimately have "returns (sink_send_lent ?s w) (\<lambda>(s', w').
        represents s' w' v' \<and> emits out (?s, w) (s', w'))"
      using whole by (intro sink_send_lent_refines)
    moreover have "emits out (?s, w) = emits out (s, w)"
      by (auto simp: emits_def keeps_def fun_eq_iff)
    ultimately show ?thesis
      using lend size by (auto simp: sink_handle_borrow_def may_borrow_def Let_def)
  qed
qed

section \<open>ENQUEUE\<close>

text \<open>The block \<open>frame\<close> lies in the receive buffer and holds the bytes \<open>bs\<close>.\<close>

definition frame_at :: "Sink \<Rightarrow> 'a heap_scheme \<Rightarrow> MemBlock \<Rightarrow> u8 list \<Rightarrow> bool" where
  "frame_at s h frame bs \<longleftrightarrow>
     blk_size frame = length bs \<and> 0 < length bs \<and>
     (\<exists>b j. blk_data frame = Ptr b j \<and> snk_recv_buf s = Ptr b 0 \<and> bytes_at (Ptr b j) bs h)"

lemma frame_at_cong:
  "frame_at s w frame bs \<Longrightarrow> emits out (s, w) (s', w') \<Longrightarrow> frame_at s' w' frame bs"
  by (auto simp: frame_at_def emits_def bytes_at_block)

definition with_frames :: "nat \<Rightarrow> u8 list \<Rightarrow> int \<Rightarrow> Sink_View \<Rightarrow> Sink_View" where
  "with_frames k bs last_idx v =
     v\<lparr>sv_frames := sv_frames v @ replicate k (cycle (sv_frame_size v) bs), sv_last_idx := last_idx\<rparr>"

lemma received_frame_filled:
  assumes rep: "represents s w v" and frame: "frame_at s w frame bs"
  obtains fb fs where "blk_data (snk_received_frame s) = Ptr fb 0"
    "blk_capacity (snk_received_frame s) = sv_frame_size v"
    "fb \<noteq> recv_block s" "fb \<noteq> ring_block s" "fb \<noteq> current_block s"
    "blocks w fb = Some fs" "length fs = sv_frame_size v"
    "fill_with_pattern (Ptr fb 0) (sv_frame_size v) (blk_data frame) (blk_size frame) w =
      Inr (w\<lparr>blocks := (blocks w)(fb := Some (map Some (cycle (sv_frame_size v) bs)))\<rparr>)"
proof -
  let ?n = "sv_frame_size v"
  from rep have "sink_layout s w" and n: "frame_size s = ?n" by (simp_all add: represents_def)
  from this(1) obtain rb cb fb gb kb m where lay: "m = frame_size s" "distinct [rb, cb, fb, gb, kb]"
    "snk_recv_buf s = Ptr rb 0" "owned (snk_received_frame s) fb m w"
    "blk_data (snk_current_frame s) = Ptr cb 0"
    "blk_data (snk_received_frame s) = Ptr fb 0"
    "blk_data (ring_buf (snk_pending_frames s)) = Ptr gb 0"
    by (rule sink_layoutE)
  then obtain fs where fs: "blocks w fb = Some fs" "length fs = ?n" "0 < ?n"
    "blk_capacity (snk_received_frame s) = ?n"
    by (auto simp: owned_def n)
  from frame lay(3) obtain j where j: "blk_data frame = Ptr rb j" "bytes_at (Ptr rb j) bs w"
    "blk_size frame = length bs" "0 < length bs"
    by (auto simp: frame_at_def)
  then have read: "read_cells (Ptr rb j) (length bs) w = Inr (map Some bs)"
    by (auto simp: bytes_at_def intro: read_bytes_read_cells)
  have "fill_with_pattern (Ptr fb 0) ?n (Ptr rb j) (length bs) w =
      Inr (w\<lparr>blocks := (blocks w)(fb := Some (overlay 0 (cycle ?n (map Some bs)) fs))\<rparr>)"
    using fs j(4) read lay(2) by (intro fill_with_pattern_cells) auto
  moreover have "overlay 0 (cycle ?n (map Some bs)) fs = map Some (cycle ?n bs)"
    using fs(2) j(4) by (simp add: map_cycle)
  ultimately show ?thesis
    using lay fs j by (intro that [of fb fs]) auto
qed

lemma smod_nonneg: "0 \<le> (a :: int) \<Longrightarrow> a smod 256 = a mod 256"
  by (cases "a = 0") (auto simp: smod_int_alt_def)

lemma enqueue_room_refines:
  assumes rep: "represents s w v" and frame: "frame_at s w frame bs"
    and room: "length (sv_frames v) < pending_frames_capacity"
  shows "returns (sink_enqueue s frame w) (\<lambda>(s', w').
    represents s' w' (with_frames 1 bs ((sv_last_idx v + 1) mod 256) v) \<and> emits [] (s, w) (s', w'))"
proof -
  let ?n = "sv_frame_size v" and ?ring = "snk_pending_frames s"
  let ?f = "cycle ?n bs"
  from received_frame_filled [OF rep frame] obtain fb fs where fb:
    "blk_data (snk_received_frame s) = Ptr fb 0" "blk_capacity (snk_received_frame s) = ?n"
    "fb \<noteq> recv_block s" "fb \<noteq> ring_block s" "fb \<noteq> current_block s"
    "blocks w fb = Some fs" "length fs = ?n"
    "fill_with_pattern (Ptr fb 0) ?n (blk_data frame) (blk_size frame) w =
      Inr (w\<lparr>blocks := (blocks w)(fb := Some (map Some ?f))\<rparr>)"
    by blast
  let ?w = "w\<lparr>blocks := (blocks w)(fb := Some (map Some ?f))\<rparr>"
  have shape: "shape ?w = shape w" using fb(7) by (intro shape_store [OF fb(6)]) simp
  have rep_w: "represents s ?w v"
    using fb(4,5) by (intro represents_heap [OF rep shape]) auto
  then have lay: "sink_layout s ?w" and n: "frame_size s = ?n"
    and cont: "contents ?ring ?w = map Some (concat (sv_frames v))"
    by (simp_all add: represents_def)
  from lay have inv: "ring_inv ?n ?ring ?w"
    and size: "blk_size (ring_buf ?ring) = ?n * pending_frames_capacity"
    unfolding n [symmetric] sink_layout_def by blast+
  then have len: "ring_len ?ring + ?n \<le> blk_size (ring_buf ?ring)"
    using represents_ring_len [OF rep] room mult_le_mono2 [of "Suc (length (sv_frames v))" 128 ?n]
    by (simp add: pending_frames_capacity_def)
  from inv obtain gb cs where gb: "blk_data (ring_buf ?ring) = Ptr gb 0" "blocks ?w gb = Some cs"
    "length cs = blk_size (ring_buf ?ring)"
    by (rule ring_invE)
  define bk where "bk = (ring_front ?ring + ring_len ?ring) mod blk_size (ring_buf ?ring)"
  let ?ring' = "?ring\<lparr>ring_len := ring_len ?ring + ?n\<rparr>"
  let ?w' = "?w\<lparr>blocks := (blocks ?w)(gb := Some (overlay bk (map Some ?f) cs))\<rparr>"
  have "read_cells (Ptr fb 0) ?n ?w = Inr (map Some ?f)"
    by (subst read_cells_block [of _ _ "map Some ?f"]) auto
  note enq = mem_ring_enqueue_room [OF inv this len gb(1,2) bk_def]
  note cont' = contents_after_enqueue [OF inv enq(2) len gb(1,2) bk_def enq(3,4)]
  note inv' = ring_inv_after_enqueue [OF inv len gb(1), of "overlay bk (map Some ?f) cs"]
  have shape': "shape ?w' = shape ?w"
    using enq(2,3) by (intro shape_store [OF gb(2)]) simp
  let ?s = "s\<lparr>snk_pending_frames := ?ring',
              snk_last_enqueued_frame_idx := (sv_last_idx v + 1) smod 256\<rparr>"
  have ok: "view_ok v" and last: "snk_last_enqueued_frame_idx s = sv_last_idx v"
    using rep by (simp_all add: represents_def)
  have idx: "(sv_last_idx v + 1) smod 256 = (sv_last_idx v + 1) mod 256"
    using ok by (intro smod_nonneg) (simp add: view_ok_def)
  have "sink_enqueue s frame w = Inr (?s, ?w')"
    using fb enq(1) last by (simp add: sink_enqueue_def Let_def)
  moreover have "sink_layout ?s ?w'"
  proof -
    have "sink_layout s ?w'" using lay shape' by (rule sink_layout_shape)
    then have "sink_layout (s\<lparr>snk_pending_frames := ?ring'\<rparr>) ?w'"
      using inv' enq(3,4) n by (intro sink_layout_ring) simp_all
    then show ?thesis by simp
  qed
  moreover have "gb \<noteq> current_block s \<and> gb \<noteq> recv_block s"
    using lay gb(1) by (auto simp: sink_layout_def sink_blocks_def)
  moreover have "view_ok (with_frames 1 bs ((sv_last_idx v + 1) mod 256) v)"
    using ok room pos_mod_bound [of 256 "sv_last_idx v + 1"] pos_mod_sign [of 256 "sv_last_idx v + 1"]
    by (auto simp: view_ok_def with_frames_def)
  moreover have "contents ?ring' ?w' = map Some (concat (sv_frames v @ [?f]))"
    using cont' cont by simp
  ultimately show ?thesis
    using rep_w shape shape' fb(1,3) gb(1) idx
    by (simp add: represents_def with_frames_def emits_def keeps_def sink_blocks_def)
qed

text \<open>With a full ring nothing that is observed changes.\<close>

lemma enqueue_full:
  assumes rep: "represents s w v" and frame: "frame_at s w frame bs"
    and full: "length (sv_frames v) = pending_frames_capacity"
  obtains w' where "sink_enqueue s frame w = Inr (s, w')" "represents s w' v"
    "emits [] (s, w) (s, w')"
proof -
  let ?n = "sv_frame_size v" and ?ring = "snk_pending_frames s"
  from received_frame_filled [OF rep frame] obtain fb fs where fb:
    "blk_data (snk_received_frame s) = Ptr fb 0" "blk_capacity (snk_received_frame s) = ?n"
    "fb \<noteq> recv_block s" "fb \<noteq> ring_block s" "fb \<noteq> current_block s"
    "blocks w fb = Some fs" "length fs = ?n"
    "fill_with_pattern (Ptr fb 0) ?n (blk_data frame) (blk_size frame) w =
      Inr (w\<lparr>blocks := (blocks w)(fb := Some (map Some (cycle ?n bs)))\<rparr>)"
    by blast
  let ?w = "w\<lparr>blocks := (blocks w)(fb := Some (map Some (cycle ?n bs)))\<rparr>"
  have shape: "shape ?w = shape w" using fb(7) by (intro shape_store [OF fb(6)]) simp
  have rep_w: "represents s ?w v"
    using fb(4,5) by (intro represents_heap [OF rep shape]) auto
  from rep_w have lay: "sink_layout s ?w" and n: "frame_size s = ?n" and ok: "view_ok v"
    by (simp_all add: represents_def)
  from lay have size: "blk_size (ring_buf ?ring) = ?n * pending_frames_capacity"
    unfolding n [symmetric] sink_layout_def by blast
  have "ring_len ?ring = ?n * pending_frames_capacity"
    using represents_ring_len [OF rep] full by simp
  then have "blk_size (ring_buf ?ring) < size_add (ring_len ?ring) ?n"
    using size ok by (simp add: view_ok_def pending_frames_capacity_def)
  then have "sink_enqueue s frame w = Inr (s, ?w)"
    using fb by (simp add: sink_enqueue_def Let_def mem_ring_enqueue_full)
  moreover have "emits [] (s, w) (s, ?w)"
    using fb(1,3) shape by (simp add: emits_def keeps_def sink_blocks_def)
  ultimately show ?thesis using rep_w by (intro that)
qed

text \<open>The distance the loop counts down.\<close>

lemma bounded_diff_ahead:
  assumes "-1 \<le> last_idx" "last_idx \<le> 255" "0 \<le> idx" "idx \<le> 255"
    and "\<not> (last_idx = -1 \<and> idx = 255)"
  shows "bounded_diff last_idx idx 256 = int (frames_ahead last_idx idx)"
proof (cases "idx < last_idx")
  case True
  have "(idx - last_idx) mod 256 = (idx - last_idx + 256) mod 256" by simp
  also have "\<dots> = idx - last_idx + 256" using True assms by (intro mod_pos_pos_trivial) auto
  finally show ?thesis using True assms by (simp add: bounded_diff_def frames_ahead_def)
next
  case False
  then have "(idx - last_idx) mod 256 = idx - last_idx" using assms by (intro mod_pos_pos_trivial) auto
  then show ?thesis using False assms by (simp add: bounded_diff_def frames_ahead_def)
qed

lemma bounded_diff_next:
  assumes "-1 \<le> last_idx" "last_idx \<le> 255" "0 \<le> idx" "idx \<le> 255"
    and "bounded_diff last_idx idx 256 = int (Suc k)" "k < 128"
  shows "bounded_diff ((last_idx + 1) mod 256) idx 256 = int k"
    and "k = 0 \<Longrightarrow> (last_idx + 1) mod 256 = idx"
proof -
  have "(last_idx + 1) mod 256 = (if last_idx = 255 then 0 else last_idx + 1)"
    using assms(1,2) by (auto intro: mod_pos_pos_trivial)
  with assms show "bounded_diff ((last_idx + 1) mod 256) idx 256 = int k"
    "k = 0 \<Longrightarrow> (last_idx + 1) mod 256 = idx"
    by (auto simp: bounded_diff_def split: if_splits)
qed

lemma with_frames_Suc:
  "with_frames k bs idx (with_frames 1 bs j v) = with_frames (Suc k) bs idx v"
  by (simp add: with_frames_def replicate_append_same [symmetric])

lemma enqueue_loop_refines:
  assumes "represents s w v" "frame_at s w frame bs" "0 \<le> idx" "idx \<le> 255"
    and "bounded_diff (sv_last_idx v) idx 256 = int k" "k \<le> 128" "k < rounds"
    and "length (sv_frames v) + k \<le> pending_frames_capacity"
  shows "returns (enqueue_loop rounds frame idx (int k) s w) (\<lambda>(s', w').
    represents s' w' (if k = 0 then v else with_frames k bs idx v) \<and> emits [] (s, w) (s', w'))"
  using assms
proof (induction k arbitrary: rounds s w v)
  case 0
  then show ?case
    by (cases rounds) (simp_all add: enqueue_loop_def enqueue_round_def emits_refl)
next
  case (Suc k)
  let ?v = "with_frames 1 bs ((sv_last_idx v + 1) mod 256) v"
  from Suc.prems(7) obtain r where r: "rounds = Suc r" "k < r" by (cases rounds) auto
  have "returns (sink_enqueue s frame w) (\<lambda>(s', w'). represents s' w' ?v \<and> emits [] (s, w) (s', w'))"
    using Suc.prems by (intro enqueue_room_refines) auto
  then obtain s1 w1 where enq: "sink_enqueue s frame w = Inr (s1, w1)" and rep: "represents s1 w1 ?v"
    and em: "emits [] (s, w) (s1, w1)"
    by (auto simp: returns_iff)
  have ok: "-1 \<le> sv_last_idx v" "sv_last_idx v \<le> 255"
    using Suc.prems(1) by (auto simp: represents_def view_ok_def)
  note nxt = bounded_diff_next [OF ok Suc.prems(3,4,5)]
  from Suc.prems(6) have diff: "bounded_diff (sv_last_idx ?v) idx 256 = int k"
    using nxt(1) by (simp add: with_frames_def)
  have "snk_last_enqueued_frame_idx s1 = sv_last_idx ?v" using rep by (simp add: represents_def)
  then have unfold: "enqueue_loop rounds frame idx (int (Suc k)) s w =
      enqueue_loop r frame idx (int k) s1 w1"
    using diff enq by (simp add: enqueue_loop_def r enqueue_round_def)
  have "returns (enqueue_loop r frame idx (int k) s1 w1) (\<lambda>(s', w').
      represents s' w' (if k = 0 then ?v else with_frames k bs idx ?v) \<and> emits [] (s1, w1) (s', w'))"
    using Suc.prems(2,3,4,6,8) r(2) rep diff frame_at_cong [OF Suc.prems(2) em]
    by (intro Suc.IH) (auto simp: with_frames_def)
  moreover have "(if k = 0 then ?v else with_frames k bs idx ?v) = with_frames (Suc k) bs idx v"
    using nxt(2) Suc.prems(6) with_frames_Suc by (auto simp: with_frames_def)
  ultimately show ?case
    using emits_trans [OF em] unfold by (auto elim!: returns_mono)
qed

text \<open>
  No number of rounds lets the loop end once the frames it is to add do not fit: every further
  round finds the ring full and the distance as it was.
\<close>

lemma enqueue_loop_full_hangs:
  assumes "represents s w v" "frame_at s w frame bs"
    and "length (sv_frames v) = pending_frames_capacity"
    and "0 < bounded_diff (sv_last_idx v) idx 256"
  shows "enqueue_loop rounds frame idx (bounded_diff (sv_last_idx v) idx 256) s w = Inl Hang"
proof -
  define I where "I = (\<lambda>(diff, s', w' :: world). diff = bounded_diff (sv_last_idx v) idx 256 \<and>
    represents s' w' v \<and> frame_at s' w' frame bs)"
  have "loop rounds (enqueue_round frame idx) (bounded_diff (sv_last_idx v) idx 256, s, w) = Inl Hang"
  proof (rule loop_hangs [where I = I])
    show "I (bounded_diff (sv_last_idx v) idx 256, s, w)" using assms by (simp add: I_def)
    fix st assume "I st"
    then obtain s' w' where st: "st = (bounded_diff (sv_last_idx v) idx 256, s', w')"
      "represents s' w' v" "frame_at s' w' frame bs"
      by (auto simp: I_def split: prod.splits)
    from enqueue_full [OF st(2,3) assms(3)] obtain w1 where w1: "sink_enqueue s' frame w' = Inr (s', w1)"
      "represents s' w1 v" "emits [] (s', w') (s', w1)" by blast
    have "snk_last_enqueued_frame_idx s' = sv_last_idx v" using st(2) by (simp add: represents_def)
    with w1 st assms(4) frame_at_cong [OF st(3) w1(3)]
    show "\<exists>st'. enqueue_round frame idx st = Inr (Inl st') \<and> I st'"
      by (simp add: enqueue_round_def I_def)
  qed
  then show ?thesis by (simp add: enqueue_loop_def)
qed

lemma enqueue_loop_hangs:
  assumes "represents s w v" "frame_at s w frame bs" "0 \<le> idx" "idx \<le> 255"
    and "bounded_diff (sv_last_idx v) idx 256 = int k" "k \<le> 128"
    and "pending_frames_capacity < length (sv_frames v) + k"
  shows "enqueue_loop rounds frame idx (int k) s w = Inl Hang"
  using assms
proof (induction k arbitrary: rounds s w v)
  case 0
  then show ?case by (simp add: represents_def view_ok_def)
next
  case (Suc k)
  let ?v = "with_frames 1 bs ((sv_last_idx v + 1) mod 256) v"
  have ok: "-1 \<le> sv_last_idx v" "sv_last_idx v \<le> 255"
    "length (sv_frames v) \<le> pending_frames_capacity"
    using Suc.prems(1) by (auto simp: represents_def view_ok_def)
  show ?case
  proof (cases "length (sv_frames v) = pending_frames_capacity")
    case True
    have "0 < bounded_diff (sv_last_idx v) idx 256" using Suc.prems(5) by simp
    from enqueue_loop_full_hangs [OF Suc.prems(1,2) True this] show ?thesis
      by (simp only: Suc.prems(5))
  next
    case False
    show ?thesis
    proof (cases rounds)
      case 0
      then show ?thesis by (simp add: enqueue_loop_def)
    next
      case r: (Suc r)
      have "returns (sink_enqueue s frame w) (\<lambda>(s', w'). represents s' w' ?v \<and> emits [] (s, w) (s', w'))"
        using Suc.prems False ok by (intro enqueue_room_refines) auto
      then obtain s1 w1 where enq: "sink_enqueue s frame w = Inr (s1, w1)"
        and rep: "represents s1 w1 ?v" and em: "emits [] (s, w) (s1, w1)"
        by (auto simp: returns_iff)
      have diff: "bounded_diff (sv_last_idx ?v) idx 256 = int k"
        using bounded_diff_next(1) [OF ok(1,2) Suc.prems(3,4,5)] Suc.prems(6)
        by (simp add: with_frames_def)
      have "snk_last_enqueued_frame_idx s1 = sv_last_idx ?v" using rep by (simp add: represents_def)
      then have "enqueue_loop rounds frame idx (int (Suc k)) s w =
          enqueue_loop r frame idx (int k) s1 w1"
        using diff enq by (simp add: enqueue_loop_def r enqueue_round_def)
      also have "\<dots> = Inl Hang"
        using Suc.prems(3,4,6,7) rep diff frame_at_cong [OF Suc.prems(2) em]
        by (intro Suc.IH) (auto simp: with_frames_def)
      finally show ?thesis .
    qed
  qed
qed

text \<open>What it means that a computation implements a step of the protocol.\<close>

definition implements :: "(Sink \<times> world) result \<Rightarrow> Sink \<times> world \<Rightarrow> sink_step option \<Rightarrow> bool" where
  "implements m start step \<longleftrightarrow> (case step of
       None \<Rightarrow> m = Inl Hang
     | Some (v', out) \<Rightarrow> returns m (\<lambda>(s', w'). represents s' w' v' \<and> emits out start (s', w')))"

lemma implements_same: "represents s w v \<Longrightarrow> implements (Inr (s, w)) (s, w) (Some (v, []))"
  by (simp add: implements_def emits_refl)

lemma refuse_implements:
  "represents s w v \<Longrightarrow> sends_whole (os w) \<Longrightarrow>
   implements (sink_send_fail_to s i c to w) (s, w) (Some (refuse i c to v))"
  using sink_send_fail_to_refines by (auto simp: implements_def split: prod.splits)

lemma enqueue_frames_implements:
  assumes rep: "represents s w v" and frame: "frame_at s w frame bs"
    and k: "k = frames_ahead (sv_last_idx v) (uint (idx :: u8))"
  shows "implements
    (let diff = bounded_diff (sv_last_idx v) (uint idx) 256 in
     if diff > 128 then Inr (s, w) else enqueue_loop enqueue_rounds frame (uint idx) diff s w)
    (s, w)
    (if k = 0 \<or> 128 < k then Some (v, [])
     else if length (sv_frames v) + k \<le> pending_frames_capacity
     then Some (with_frames k bs (uint idx) v, []) else None)"
proof (cases "sv_last_idx v = -1 \<and> uint idx = 255")
  case True
  then have "k = 0" "bounded_diff (sv_last_idx v) (uint idx) 256 = 256"
    by (simp_all add: k frames_ahead_def bounded_diff_def)
  then show ?thesis using rep by (simp add: implements_same)
next
  case False
  have idx: "0 \<le> uint idx" "uint idx \<le> 255" using u8_at_most [of idx] by auto
  have last: "-1 \<le> sv_last_idx v" "sv_last_idx v \<le> 255"
    using rep by (auto simp: represents_def view_ok_def)
  from bounded_diff_ahead [OF last idx False] have diff:
    "bounded_diff (sv_last_idx v) (uint idx) 256 = int k" by (simp add: k)
  consider "128 < k" | (fits) "k \<le> 128" "length (sv_frames v) + k \<le> pending_frames_capacity"
    | (full) "k \<le> 128" "pending_frames_capacity < length (sv_frames v) + k"
    by linarith
  then show ?thesis
  proof cases
    case 1
    then show ?thesis using rep by (simp add: diff implements_same)
  next
    case fits
    have "returns (enqueue_loop enqueue_rounds frame (uint idx) (int k) s w) (\<lambda>(s', w').
        represents s' w' (if k = 0 then v else with_frames k bs (uint idx) v) \<and>
        emits [] (s, w) (s', w'))"
      using fits by (intro enqueue_loop_refines rep frame idx diff) (simp_all add: enqueue_rounds_def)
    with fits show ?thesis by (auto simp: diff implements_def Let_def)
  next
    case full
    have "0 < k" using full rep by (cases k) (auto simp: represents_def view_ok_def)
    moreover have "enqueue_loop enqueue_rounds frame (uint idx) (int k) s w = Inl Hang"
      by (rule enqueue_loop_hangs [OF rep frame idx diff full])
    ultimately show ?thesis using full by (simp add: diff implements_def Let_def)
  qed
qed

lemma sink_handle_enqueue_implements:
  assumes rep: "represents s w v" and whole: "sends_whole (os w)"
    and len: "blk_size frame = length bs" and frame: "0 < length bs \<Longrightarrow> frame_at s w frame bs"
  shows "implements (sink_handle_enqueue s i (unat idx) frame sender w) (s, w)
    (enqueue_step sender i idx bs v)"
proof -
  have eqs [simp]: "snk_state s = sv_state v" "snk_borrower_endpoint s = sv_borrower v"
    "snk_last_enqueued_frame_idx s = sv_last_idx v"
    using rep by (simp_all add: represents_def)
  note refuse = refuse_implements [OF rep whole]
  show ?thesis
  proof (cases "sv_state v")
    case ATOLLA_SINK_STATE_ERROR
    then show ?thesis
      using rep by (simp add: sink_handle_enqueue_def enqueue_step_def implements_same)
  next
    case ATOLLA_SINK_STATE_OPEN
    then show ?thesis
      by (simp add: sink_handle_enqueue_def enqueue_step_def refuse)
  next
    case lent: ATOLLA_SINK_STATE_LENT
    consider (short) "length bs < 3" | (other) "\<not> length bs < 3" "\<not> udp_endpoint_equal sender (sv_borrower v)"
      | (own) "\<not> length bs < 3" "udp_endpoint_equal sender (sv_borrower v)"
      by blast
    then show ?thesis
    proof cases
      case short
      let ?refused = "refuse i ATOLLA_ERROR_CODE_BAD_MSG sender v"
      have "sv_state (fst ?refused) = ATOLLA_SINK_STATE_LENT"
        using lent by (simp add: refuse_def reply_def)
      then have drop: "drop_lease ?refused = ((fst ?refused)\<lparr>sv_state := ATOLLA_SINK_STATE_OPEN\<rparr>, snd ?refused)"
        by (simp add: drop_lease_def split_def)
      from refuse [of i ATOLLA_ERROR_CODE_BAD_MSG sender] have
        "returns (sink_send_fail_to s i ATOLLA_ERROR_CODE_BAD_MSG sender w) (\<lambda>(s', w').
           represents s' w' (fst ?refused) \<and> emits (snd ?refused) (s, w) (s', w'))"
        by (simp add: implements_def split: prod.splits)
      then have "implements (bind_res (sink_send_fail_to s i ATOLLA_ERROR_CODE_BAD_MSG sender w)
          (\<lambda>(sink, w). Inr (sink_drop_borrow sink, w))) (s, w) (Some (drop_lease ?refused))"
        unfolding drop
        by (auto simp: implements_def intro: represents_drop elim!: returns_mono)
      then show ?thesis
        using short lent by (simp add: sink_handle_enqueue_def enqueue_step_def len)
    next
      case other
      then show ?thesis
        using lent refuse by (simp add: sink_handle_enqueue_def enqueue_step_def len)
    next
      case own
      then have "0 < length bs" by auto
      note frames = enqueue_frames_implements [OF rep frame [OF this] refl, of idx]
      let ?k = "frames_ahead (sv_last_idx v) (uint idx)"
      have "enqueue_step sender i idx bs v =
          (if ?k = 0 \<or> 128 < ?k then Some (v, [])
           else if length (sv_frames v) + ?k \<le> pending_frames_capacity
           then Some (with_frames ?k bs (uint idx) v, []) else None)"
        using own lent by (simp add: enqueue_step_def with_frames_def Let_def)
      moreover have "sink_handle_enqueue s i (unat idx) frame sender w =
          (let diff = bounded_diff (sv_last_idx v) (uint idx) 256 in
           if diff > 128 then Inr (s, w) else enqueue_loop enqueue_rounds frame (uint idx) diff s w)"
        using own lent unfolding Let_def by (simp add: sink_handle_enqueue_def len)
      ultimately show ?thesis using frames by (simp only:)
    qed
  qed
qed

section \<open>Datagrams\<close>

lemma sink_handle_message_implements:
  assumes rep: "represents s w v" and whole: "sends_whole (os w)"
    and rb: "snk_recv_buf s = Ptr rb 0" and msgs: "remaining rb it (m # ms) w"
  shows "implements (sink_handle_message sender it s w) (s, w) (message_step sender m v)"
proof -
  from msgs have m: "at_message it m w" by (rule remaining_ConsD)
  note header = at_message_header(1,2) [OF m]
  note refuse = refuse_implements [OF rep whole]
  show ?thesis
  proof (cases m)
    case (Borrow i fl bl)
    obtain v' out where step: "borrow_step sender i fl bl v = (v', out)" by fastforce
    from sink_handle_borrow_refines [OF rep whole step] show ?thesis
      using at_borrow [OF m [unfolded Borrow]] header Borrow step
      by (simp add: sink_handle_message_def implements_def)
  next
    case (Enqueue i idx bs)
    from at_enqueue [OF m [unfolded Enqueue]] obtain p b j k where
      p: "msg_iter_enqueue_frame_idx it w = Inr idx"
      "msg_iter_enqueue_frame it w = Inr \<lparr>blk_data = p, blk_size = length bs, blk_capacity = length bs\<rparr>"
      "bytes_at p bs w" "msg_buf_start it = Ptr b j" "p = Ptr b k"
      by blast
    let ?frame = "\<lparr>blk_data = p, blk_size = length bs, blk_capacity = length bs\<rparr>"
    from msgs p(4) have "b = rb" by (auto simp: remaining_def)
    then have "frame_at s w ?frame bs" if "0 < length bs"
      using that p(3,5) rb by (simp add: frame_at_def)
    then have "implements (sink_handle_enqueue s i (unat idx) ?frame sender w) (s, w)
        (enqueue_step sender i idx bs v)"
      by (intro sink_handle_enqueue_implements [OF rep whole]) auto
    then show ?thesis
      using p(1,2) header Enqueue by (simp add: sink_handle_message_def)
  next
    case (Lent i)
    then show ?thesis using refuse header by (simp add: sink_handle_message_def)
  next
    case (Fail i causing code)
    then show ?thesis using refuse header by (simp add: sink_handle_message_def)
  qed
qed

lemma sink_iterate_recv_buf_implements:
  assumes rep: "represents s w v" and whole: "sends_whole (os w)" and rcv: "messages_in (snk_recv_buf s) w ms"
  shows "implements (sink_iterate_recv_buf s (length (concat (map encode ms))) sender w) (s, w)
    (datagram_step sender ms v)"
proof -
  define rel where "rel = (\<lambda>(v', out) s' w'. represents s' w' v' \<and> emits out (s, w) (s', w'))"
  from rcv obtain rb cs where rb: "snk_recv_buf s = Ptr rb 0" "blocks w rb = Some cs"
    and hold: "remaining rb (msg_iter_make (Ptr rb 0) (length (concat (map encode ms)))) ms w"
    by (rule messages_inE)
  have start: "rel (v, []) s w" using rep by (simp add: rel_def emits_refl)
  have body: "case sink_spec sender m a of
         None \<Rightarrow> sink_handle_message sender it s' w' = Inl Hang
       | Some a' \<Rightarrow> returns (sink_handle_message sender it s' w') (\<lambda>(s'', w'').
           rel a' s'' w'' \<and> remaining rb it (m # ms) w'')"
    if rel: "rel a s' w'" and msgs: "remaining rb it (m # ms) w'" for it m ms a s' w'
  proof -
    obtain v' out where a: "a = (v', out)" by fastforce
    with rel have rep': "represents s' w' v'" and em: "emits out (s, w) (s', w')"
      by (auto simp: rel_def)
    from em whole rb have "sends_whole (os w')" "snk_recv_buf s' = Ptr rb 0"
      by (auto simp: emits_def sent_os)
    then have impl: "implements (sink_handle_message sender it s' w') (s', w') (message_step sender m v')"
      using rep' msgs by (intro sink_handle_message_implements)
    have "remaining rb it (m # ms) w''" if "emits out' (s', w') (s'', w'')" for out' s'' w''
      using that \<open>snk_recv_buf s' = Ptr rb 0\<close> by (intro remaining_cong [OF msgs]) (auto simp: emits_def)
    with impl em show ?thesis
      by (auto simp: a rel_def sink_spec_def implements_def intro: emits_trans elim!: returns_mono
          split: option.splits)
  qed
  have body': "returns (sink_handle_message sender it s' w') (\<lambda>(s'', w'').
      rel a' s'' w'' \<and> remaining rb it (m # ms) w'')"
    if "rel a s' w'" "remaining rb it (m # ms) w'" "sink_spec sender m a = Some a'" for it m ms a a' s' w'
    using body [OF that(1,2)] that(3) by simp
  show ?thesis
  proof (cases "datagram_step sender ms v")
    case None
    then have "for_messages (sink_handle_message sender)
        (msg_iter_make (Ptr rb 0) (length (concat (map encode ms)))) s w = Inl Hang"
      unfolding datagram_step_def
      by (intro iter.for_each_fails [where rel = rel and spec = "sink_spec sender", OF body start hold])
        auto
    with None rb show ?thesis by (simp add: implements_def sink_iterate_recv_buf_def)
  next
    case (Some a)
    then have "returns (for_messages (sink_handle_message sender)
        (msg_iter_make (Ptr rb 0) (length (concat (map encode ms)))) s w) (\<lambda>(s', w'). rel a s' w')"
      unfolding datagram_step_def
      by (intro iter.for_each_implements [where rel = rel and spec = "sink_spec sender", OF body' start hold])
    with Some rb show ?thesis by (auto simp: rel_def implements_def sink_iterate_recv_buf_def)
  qed
qed

end
