(* ===== verification/Arrival.thy ===== *)
theory Arrival
  imports Udp_Socket Msg_Iter Wire_Parser
begin

text \<open>
  What a receiver can rely on: which datagram the operating system delivers next, what
  \<^verbatim>\<open>udp_socket_receive_from\<close> makes of it, and which operating systems deliver nothing but
  datagrams of the protocol.
\<close>

definition incoming :: "world \<Rightarrow> u8 list \<Rightarrow> u8 list \<Rightarrow> bool" where
  "incoming w d addr \<longleftrightarrow> sys_recvfrom (os w) (tick w) = Recv_data d addr"

definition nothing_incoming :: "world \<Rightarrow> bool" where
  "nothing_incoming w \<longleftrightarrow> (\<exists>e. sys_recvfrom (os w) (tick w) = Recv_error e) \<or> (\<exists>addr. incoming w [] addr)"

definition sender_of :: "u8 list \<Rightarrow> UdpEndpoint" where
  "sender_of addr = \<lparr>ep_addr = addr, ep_len = length addr\<rparr>"

lemma udp_receive_datagram:
  assumes "incoming w d addr" "d \<noteq> []" "length d \<le> n" "blocks w b = Some cs" "n \<le> length cs"
  shows "udp_socket_receive_from sock (Ptr b 0) n (Some ep) w =
    Inr (make_success_result, length d, Some (sender_of addr),
         w\<lparr>blocks := (blocks w)(b := Some (overlay 0 (map Some d) cs)), tick := Suc (tick w)\<rparr>)"
proof -
  have "0 < n" using assms(2,3) by (cases d) auto
  then show ?thesis
    using assms
    by (auto simp: udp_socket_receive_from_def sys_recv_def incoming_def Let_def write_cells_block
        sender_of_def)
qed

lemma udp_receive_nothing:
  assumes "nothing_incoming w" "0 < n"
  shows "returns (udp_socket_receive_from sock (Ptr b 0) n (Some ep) w) (\<lambda>(r, received, sender, w').
    res_code r \<noteq> UDP_SOCKET_OK \<and> received = 0 \<and> (\<exists>e. w' = w\<lparr>tick := Suc (tick w), errno := e\<rparr>))"
proof -
  have "(\<exists>e. sys_recvfrom (os w) (tick w) = Recv_error e) \<or>
      (\<exists>addr. sys_recvfrom (os w) (tick w) = Recv_data [] addr)"
    using assms(1) by (simp add: nothing_incoming_def incoming_def)
  moreover have "\<exists>e. w\<lparr>tick := t\<rparr> = w\<lparr>tick := t, errno := e\<rparr>" for t
    by (rule exI [of _ "errno w"]) (cases w; simp)
  ultimately show ?thesis
    using assms(2)
    by (auto simp: udp_socket_receive_from_def sys_recv_def Let_def make_err_result_def write_cells_def)
qed

lemma not_nothing_incoming:
  assumes "\<not> nothing_incoming w"
  obtains d addr where "incoming w d addr" "d \<noteq> []"
  using assms by (cases "sys_recvfrom (os w) (tick w)") (auto simp: nothing_incoming_def incoming_def)

lemma messages_in_received:
  assumes "parse d = Some ms" "length d \<le> length cs"
  shows "messages_in (Ptr b 0) (h\<lparr>blocks := (blocks h)(b := Some (overlay 0 (map Some d) cs))\<rparr>) ms"
  using parse_Some [OF assms(1)] assms(2) overlay_front [of "map Some d" cs]
  by (simp add: messages_in_def)

text \<open>
  The operating system delivers only datagrams of whole messages that fit a buffer of the given
  size.
\<close>

definition polite :: "nat \<Rightarrow> os \<Rightarrow> bool" where
  "polite capacity sys \<longleftrightarrow> (\<forall>t. case sys_recvfrom sys t of
       Recv_error e \<Rightarrow> True
     | Recv_data d addr \<Rightarrow> length d \<le> capacity \<and> parse d \<noteq> None)"

lemma polite_incoming:
  assumes "polite n (os w)" "incoming w d addr"
  shows "\<exists>ms. length d \<le> n \<and> parse d = Some ms"
proof -
  from assms(1) have "case sys_recvfrom (os w) (tick w) of Recv_error e \<Rightarrow> True
     | Recv_data d addr \<Rightarrow> length d \<le> n \<and> parse d \<noteq> None"
    unfolding polite_def by blast
  with assms(2) show ?thesis by (auto simp: incoming_def)
qed

text \<open>
  \<open>arriving n w ms\<close>: what the next receive finds, as messages; none also when nothing arrives.
\<close>

definition arriving :: "nat \<Rightarrow> world \<Rightarrow> message list \<Rightarrow> bool" where
  "arriving n w ms \<longleftrightarrow> nothing_incoming w \<and> ms = [] \<or>
     (\<exists>d addr. incoming w d addr \<and> d \<noteq> [] \<and> length d \<le> n \<and> parse d = Some ms)"

lemma polite_arriving: "polite n (os w) \<Longrightarrow> \<exists>ms. arriving n w ms"
  unfolding arriving_def by (metis not_nothing_incoming polite_incoming)

text \<open>
  A network that brings single messages of \<open>M\<close>, each with its sender, that fit the receive buffer.
\<close>

definition brings :: "(UdpEndpoint \<times> message) set \<Rightarrow> nat \<Rightarrow> os \<Rightarrow> bool" where
  "brings M n sys \<longleftrightarrow> (\<forall>t d addr. sys_recvfrom sys t = Recv_data d addr \<longrightarrow>
     (\<exists>m. (sender_of addr, m) \<in> M \<and> encodable m \<and> d = encode m \<and> length d \<le> n))"

lemma parse_encode: "encodable m \<Longrightarrow> parse (encode m) = Some [m]"
  using parse_datagram [of "[m]"] by simp

lemma encode_inject:
  assumes "encode m = encode m'" "encodable m" "encodable m'"
  shows "m = m'"
proof -
  have "Some [m] = Some [m']"
    using parse_encode [OF assms(2)] parse_encode [OF assms(3)] unfolding assms(1) by (simp only:)
  then show ?thesis by simp
qed

lemma brings_polite: "brings M n sys \<Longrightarrow> polite n sys"
  unfolding brings_def polite_def using parse_encode by (fastforce split: recv_outcome.split simp del: encode.simps)

end
