(* ===== verification/Sink_Api.thy ===== *)
theory Sink_Api
  imports Sink_Refinement Arrival
begin

text \<open>
  The functions of \<^verbatim>\<open>sink.h\<close> over the steps of the protocol: receiving a datagram, the two
  timers, showing frames, making and freeing a sink, and every run of calls on a sink.
\<close>

section \<open>Receiving\<close>

definition follows :: "sink_step \<Rightarrow> Sink \<times> world \<Rightarrow> Sink \<times> world \<Rightarrow> bool" where
  "follows = (\<lambda>(v', out) (s, w) (s', w').
     represents s' w' v' \<and> sent out w w' \<and> keeps (s, w) (s', w'))"

definition realises :: "(Sink \<times> world) result \<Rightarrow> Sink \<times> world \<Rightarrow> sink_step option \<Rightarrow> bool" where
  "realises m start step \<longleftrightarrow> (case step of
       None \<Rightarrow> m = Inl Hang
     | Some r \<Rightarrow> returns m (follows r start))"

lemmas realises_defs = realises_def follows_def

text \<open>The borrower is told, and loses the sink, when it was silent for too long.\<close>

definition timeout_step :: "u32 \<Rightarrow> u32 \<Rightarrow> Sink_View \<Rightarrow> sink_step" where
  "timeout_step now last_recv v =
     (if sv_state v = ATOLLA_SINK_STATE_LENT \<and> now - last_recv > drop_timeout
      then drop_lease (refuse 0 ATOLLA_ERROR_CODE_TIMEOUT (sv_borrower v) v)
      else (v, []))"

definition keepalive_step :: "u32 \<Rightarrow> u32 \<Rightarrow> Sink_View \<Rightarrow> sink_step" where
  "keepalive_step now last_lent v =
     (if sv_state v = ATOLLA_SINK_STATE_LENT \<and> now - last_lent > lent_send_interval
      then reply Lent (sv_borrower v) v
      else (v, []))"

lemma sink_send_realises:
  assumes "represents s w v" "sends_whole (os w)"
  shows "realises (sink_send s w) (s, w)
    (Some (keepalive_step (clock (os w) (tick w)) (snk_last_send_lent_time s) v))"
proof -
  have [simp]: "snk_state s = sv_state v" using assms(1) by (simp add: represents_def)
  obtain v' out where r: "reply Lent (sv_borrower v) v = (v', out)" by fastforce
  have "represents s (w\<lparr>tick := Suc (tick w)\<rparr>) v" using assms(1) by simp
  from sink_send_lent_refines [OF this _ r] assms show ?thesis
    by (auto simp: realises_defs sink_send_def keepalive_step_def time_now_split r emits_def
        elim!: returns_mono)
qed

lemma sink_receive_datagram:
  assumes rep: "represents s w v" and whole: "sends_whole (os w)"
    and d: "incoming w d addr" "d \<noteq> []" "length d \<le> sink_recv_buf_len" "parse d = Some ms"
  shows "case datagram_step (sender_of addr) ms v of
      None \<Rightarrow> sink_receive s w = Inl Hang
    | Some r \<Rightarrow> returns (sink_receive s w) (\<lambda>(s', w').
        follows r (s, w) (s', w') \<and> (\<exists>t. snk_last_recv_time s' = clock (os w) t))"
proof -
  from rep have "sink_layout s w" by (simp add: represents_def)
  then obtain rb cb fb gb where lay: "snk_recv_buf s = Ptr rb 0" "distinct [rb, cb, fb, gb]"
    "blk_data (snk_current_frame s) = Ptr cb 0" "blk_data (ring_buf (snk_pending_frames s)) = Ptr gb 0"
    by (rule sink_layoutE) auto
  from \<open>sink_layout s w\<close> lay(1) obtain cs where cs: "blocks w rb = Some cs" "length cs = sink_recv_buf_len"
    by (auto simp: sink_layout_def live_def)
  let ?w = "w\<lparr>blocks := (blocks w)(rb := Some (overlay 0 (map Some d) cs)), tick := Suc (tick w)\<rparr>"
  have shape: "shape (w\<lparr>blocks := (blocks w)(rb := Some (overlay 0 (map Some d) cs))\<rparr>) = shape w"
    using cs d(3) by (intro shape_store) auto
  then have rep': "represents s ?w v"
    using lay by (intro represents_heap [OF rep]) (auto simp: shape_def)
  from parse_Some [OF d(4)] have ms: "d = datagram ms" "list_all encodable ms" by auto
  have "messages_in (snk_recv_buf s) ?w ms"
    using lay(1) cs d(3) ms overlay_front [of "map Some d" cs] by (simp add: messages_in_def)
  from sink_iterate_recv_buf_implements [OF rep' _ this, of "sender_of addr"] whole
  have impl: "implements (sink_iterate_recv_buf s (length d) (sender_of addr) ?w) (s, ?w)
      (datagram_step (sender_of addr) ms v)"
    by (simp add: ms(1))
  have "sink_receive s w = bind_res (sink_iterate_recv_buf s (length d) (sender_of addr) ?w) (\<lambda>(s, w).
      Inr (s\<lparr>snk_last_recv_time := clock (os w) (tick w)\<rparr>, w\<lparr>tick := Suc (tick w)\<rparr>))"
    using udp_receive_datagram [OF d(1-3) cs(1)] cs(2) lay(1)
    by (simp add: sink_receive_def max_receives_def make_success_result_def time_now_split)
  moreover have "keeps (s, w) (s, ?w)"
    using shape lay(1) by (auto simp: keeps_def sink_blocks_def shape_def)
  then have "keeps (s, w) x" if "keeps (s, ?w) x" for x
    using that by (rule keeps_trans)
  ultimately show ?thesis
    using impl by (auto simp: implements_def emits_def follows_def sent_os elim!: returns_mono
        split: option.splits)
qed

lemma sink_receive_nothing:
  assumes rep: "represents s w v" and whole: "sends_whole (os w)" and none: "nothing_incoming w"
  shows "realises (sink_receive s w) (s, w)
    (Some (timeout_step (clock (os w) (Suc (tick w))) (snk_last_recv_time s) v))"
proof -
  from rep have "sink_layout s w" by (simp add: represents_def)
  then obtain rb where rb: "snk_recv_buf s = Ptr rb 0" by (rule sink_layoutE)
  have [simp]: "snk_state s = sv_state v" "snk_borrower_endpoint s = sv_borrower v"
    using rep by (simp_all add: represents_def)
  from udp_receive_nothing [OF none, of sink_recv_buf_len "snk_socket s" rb
      "\<lparr>ep_addr = [], ep_len = 0\<rparr>"] obtain r sender e where
    recv: "udp_socket_receive_from (snk_socket s) (Ptr rb 0) sink_recv_buf_len
      (Some \<lparr>ep_addr = [], ep_len = 0\<rparr>) w = Inr (r, 0, sender, w\<lparr>tick := Suc (tick w), errno := e\<rparr>)"
    and r: "res_code r \<noteq> UDP_SOCKET_OK"
    by (auto simp: sink_recv_buf_len_def returns_iff)
  let ?w = "w\<lparr>tick := Suc (tick w), errno := e\<rparr>"
  have rep': "represents s (?w\<lparr>tick := t\<rparr>) v" for t using rep by simp
  obtain v1 out where refuse: "refuse 0 ATOLLA_ERROR_CODE_TIMEOUT (sv_borrower v) v = (v1, out)"
    by fastforce
  have drop: "sv_state v = ATOLLA_SINK_STATE_LENT \<Longrightarrow>
      drop_lease (v1, out) = (v1\<lparr>sv_state := ATOLLA_SINK_STATE_OPEN\<rparr>, out)"
    using refuse by (auto simp: drop_lease_def refuse_def reply_def)
  let ?t = "Suc (Suc (tick w))"
  have "returns (sink_send_fail s 0 ATOLLA_ERROR_CODE_TIMEOUT (?w\<lparr>tick := ?t\<rparr>)) (\<lambda>(s', w').
      represents s' w' v1 \<and> sent out w w' \<and> keeps (s, w) (s', w'))"
    using sink_send_fail_to_refines [OF rep' [of ?t] _ refuse] whole
    by (auto simp: sink_send_fail_def emits_def elim!: returns_mono)
  then show ?thesis
    using recv r rb rep drop
    by (auto simp: sink_receive_def max_receives_def time_now_split realises_defs timeout_step_def
        refuse intro: represents_drop elim!: returns_mono)
qed

section \<open>Showing frames\<close>

lemma frames_Cons:
  assumes "represents s w v" "sv_frames v = f # fs"
  shows "length f = sv_frame_size v" "sv_frame_size v \<le> ring_len (snk_pending_frames s)"
    "take (sv_frame_size v) (contents (snk_pending_frames s) w) = map Some f"
    "drop (sv_frame_size v) (contents (snk_pending_frames s) w) = map Some (concat fs)"
  using assms represents_ring_len [OF assms(1)] by (auto simp: represents_def view_ok_def)

lemma view_ok_show_1: "view_ok v \<Longrightarrow> sv_frames v = f # fs \<Longrightarrow> view_ok (show_frames 1 v)"
  by (simp add: view_ok_def show_frames_def)

text \<open>\<open>shows_only s w w'\<close>: a step that stored into the current frame of \<open>s\<close> and nowhere else.\<close>

definition shows_only :: "Sink \<Rightarrow> world \<Rightarrow> world \<Rightarrow> bool" where
  "shows_only s w w' \<longleftrightarrow> shape w' = shape w \<and> sent [] w w' \<and> tick w' = tick w \<and>
     (\<forall>b. b \<noteq> current_block s \<longrightarrow> blocks w' b = blocks w b)"

lemma shows_only_refl [simp]: "shows_only s w w"
  by (simp add: shows_only_def)

lemma shows_only_trans:
  "shows_only s w w' \<Longrightarrow> current_block s' = current_block s \<Longrightarrow> shows_only s' w' w'' \<Longrightarrow> shows_only s w w''"
  unfolding shows_only_def using sent_trans [of "[]" w w' "[]" w''] by simp

lemma sink_dequeue_refines:
  assumes rep: "represents s w v" and frames: "sv_frames v = f # fs"
  shows "returns (sink_dequeue s w) (\<lambda>(ok, s', w'). ok \<and> represents s' w' (show_frames 1 v) \<and>
    sink_blocks s' = sink_blocks s \<and> shows_only s w w')"
proof -
  let ?n = "sv_frame_size v" and ?ring = "snk_pending_frames s"
  from rep have lay: "sink_layout s w" and n: "frame_size s = ?n" and ok: "view_ok v"
    by (simp_all add: represents_def)
  from lay obtain rb cb fb gb kb m where blk: "m = frame_size s" "distinct [rb, cb, fb, gb, kb]"
    "owned (snk_current_frame s) cb m w" "ring_inv m ?ring w"
    "blk_data (snk_current_frame s) = Ptr cb 0" "blk_data (ring_buf ?ring) = Ptr gb 0"
    by (rule sink_layoutE)
  from blk(3) obtain cs where cs: "blocks w cb = Some cs" "length cs = ?n" by (auto simp: owned_def blk n)
  note fr = frames_Cons [OF rep frames]
  let ?w = "w\<lparr>blocks := (blocks w)(cb := Some (map Some f))\<rparr>"
  have inv: "ring_inv ?n ?ring w" using blk(1,4) n by simp
  from ring_dequeue_returns [OF inv fr(2) blk(6) cs(1), of 0] fr(1,3,4) cs blk(2)
  have deq: "mem_ring_dequeue ?ring (Ptr cb 0) ?n w = Inr (True, ring_advanced ?n ?ring, ?w)"
    and inv': "ring_inv ?n (ring_advanced ?n ?ring) ?w"
    and cont: "contents (ring_advanced ?n ?ring) ?w = map Some (concat fs)"
    by (auto simp: returns_iff)
  have shape: "shape ?w = shape w" using cs fr(1) by (intro shape_store) auto
  let ?s = "s\<lparr>snk_pending_frames := ring_advanced ?n ?ring\<rparr>"
  have "sink_layout s ?w" using lay shape by (rule sink_layout_shape)
  then have "sink_layout ?s ?w"
    using inv' n by (intro sink_layout_ring) (simp_all add: ring_advanced_def)
  moreover have "sink_dequeue s w = Inr (True, ?s, ?w)"
    using deq blk(5) n by (simp add: sink_dequeue_def)
  moreover have "sink_blocks ?s = sink_blocks s" by (simp add: sink_blocks_def ring_advanced_def)
  moreover have "shows_only s w ?w" using shape blk(5) by (simp add: shows_only_def)
  ultimately show ?thesis
    using rep cont view_ok_show_1 [OF ok frames] frames blk(5)
    by (simp add: represents_def show_frames_def)
qed

lemma sink_dequeue_empty:
  assumes "represents s w v" "sv_frames v = []"
  shows "sink_dequeue s w = Inr (False, s, w)"
proof -
  have "ring_len (snk_pending_frames s) = 0" using represents_ring_len [OF assms(1)] assms(2) by simp
  moreover have "0 < frame_size s" using assms(1) by (simp add: represents_def view_ok_def)
  ultimately show ?thesis by (simp add: sink_dequeue_def mem_ring_dequeue_empty)
qed

text \<open>Moving the time origin on.\<close>

definition advanced :: "nat \<Rightarrow> Sink_View \<Rightarrow> Sink_View" where
  "advanced k v = (show_frames k v)\<lparr>sv_origin := sv_origin v + of_nat k * sv_duration v\<rparr>"

lemma advanced_0: "advanced 0 v = v"
  by (simp add: advanced_def show_frames_def)

lemma advanced_Suc:
  assumes "sv_frames v = f # fs" "k \<le> length fs"
  shows "advanced k (advanced 1 v) = advanced (Suc k) v"
  using assms by (cases k) (auto simp: advanced_def show_frames_def distrib_right add.assoc)

lemma represents_origin:
  "represents s w v \<Longrightarrow> represents (s\<lparr>snk_time_origin := t\<rparr>) w (v\<lparr>sv_origin := t\<rparr>)"
  by (simp add: represents_def view_ok_def)

lemma frames_due_pos:
  assumes "view_ok v" "sv_state v = ATOLLA_SINK_STATE_LENT"
  shows "0 < frames_due now v \<longleftrightarrow> now - sv_origin v > sv_duration v"
  using assms by (auto simp: frames_due_def view_ok_def div_greater_zero_iff word_less_nat_alt)

lemma frames_due_advanced:
  assumes "view_ok v" "sv_state v = ATOLLA_SINK_STATE_LENT" "now - sv_origin v > sv_duration v"
  shows "frames_due now (advanced 1 v) = frames_due now v - 1"
proof -
  let ?d = "now - sv_origin v"
  have "unat (now - (sv_origin v + sv_duration v)) = unat (?d - sv_duration v)"
    by (simp only: diff_diff_eq)
  also have "\<dots> = unat ?d - unat (sv_duration v)"
    using assms(3) by (intro unat_sub) simp
  finally have "unat (now - (sv_origin v + sv_duration v)) = unat ?d - unat (sv_duration v)" .
  moreover have "(unat ?d - unat (sv_duration v) - 1) div unat (sv_duration v)
      = (unat ?d - 1) div unat (sv_duration v) - 1"
    using assms le_div_geq [of "unat (sv_duration v)" "unat ?d - 1"]
    by (simp add: view_ok_def word_less_nat_alt)
  ultimately show ?thesis
    by (simp add: frames_due_def advanced_def show_frames_def)
qed

lemma get_loop_refines:
  assumes "represents s w v" "sv_state v = ATOLLA_SINK_STATE_LENT" "length (sv_frames v) + 1 < fuel"
  shows "returns (loop fuel (get_round now) (s, w)) (\<lambda>(s', w').
    represents s' w' (advanced (min (frames_due now v) (length (sv_frames v))) v) \<and>
    sink_blocks s' = sink_blocks s \<and> shows_only s w w')"
  using assms
proof (induction fuel arbitrary: s w v)
  case 0
  then show ?case by simp
next
  case (Suc fuel)
  have ok: "view_ok v" and eqs [simp]: "snk_time_origin s = sv_origin v"
    "snk_frame_duration_ms s = sv_duration v"
    using Suc.prems(1) by (simp_all add: represents_def)
  note due = frames_due_pos [OF ok Suc.prems(2), of now]
  show ?case
  proof (cases "now - sv_origin v > sv_duration v")
    case False
    with due have "frames_due now v = 0" by simp
    with False Suc.prems(1) show ?thesis by (simp add: get_round_def advanced_0)
  next
    case True
    show ?thesis
    proof (cases "sv_frames v")
      case Nil
      with True Suc.prems(1) sink_dequeue_empty [OF Suc.prems(1) Nil] show ?thesis
        by (simp add: get_round_def advanced_0)
    next
      case (Cons f fs)
      from sink_dequeue_refines [OF Suc.prems(1) Cons] obtain s1 w1 where
        deq: "sink_dequeue s w = Inr (True, s1, w1)" and rep: "represents s1 w1 (show_frames 1 v)"
        and blk: "sink_blocks s1 = sink_blocks s" and only: "shows_only s w w1"
        by (auto simp: returns_iff)
      let ?s = "s1\<lparr>snk_time_origin := snk_time_origin s1 + snk_frame_duration_ms s1\<rparr>"
      have "snk_time_origin s1 = sv_origin v" "snk_frame_duration_ms s1 = sv_duration v"
        using rep by (simp_all add: represents_def show_frames_def)
      then have "represents ?s w1 (advanced 1 v)"
        using represents_origin [OF rep, of "sv_origin v + sv_duration v"] by (simp add: advanced_def)
      moreover have "sv_state (advanced 1 v) = ATOLLA_SINK_STATE_LENT"
        using Suc.prems(2) by (simp add: advanced_def show_frames_def)
      moreover have len: "length (sv_frames (advanced 1 v)) = length fs"
        using Cons by (simp add: advanced_def show_frames_def)
      ultimately have "returns (loop fuel (get_round now) (?s, w1)) (\<lambda>(s', w').
          represents s' w' (advanced (min (frames_due now (advanced 1 v)) (length fs)) (advanced 1 v)) \<and>
          sink_blocks s' = sink_blocks ?s \<and> shows_only ?s w1 w')"
        using Suc.IH [of ?s w1 "advanced 1 v"] Suc.prems(3) Cons by simp
      moreover have "advanced (min (frames_due now (advanced 1 v)) (length fs)) (advanced 1 v)
          = advanced (min (frames_due now v) (length (sv_frames v))) v"
      proof -
        have "min (frames_due now v) (length (sv_frames v)) = Suc (min (frames_due now (advanced 1 v)) (length fs))"
          using frames_due_advanced [OF ok Suc.prems(2) True] due True Cons by simp
        then show ?thesis using advanced_Suc [OF Cons] by simp
      qed
      moreover have "current_block ?s = current_block s" "sink_blocks ?s = sink_blocks s"
        using blk by (simp_all add: sink_blocks_def)
      ultimately show ?thesis
        using True deq shows_only_trans [OF only, of ?s]
        by (auto simp: get_round_def elim!: returns_mono)
    qed
  qed
qed

text \<open>The buffer of the caller: a live block of its own.\<close>

definition caller_buffer :: "Sink \<Rightarrow> world \<Rightarrow> nat \<Rightarrow> cell list \<Rightarrow> bool" where
  "caller_buffer s w ub us \<longleftrightarrow> ub \<notin> set (sink_blocks s) \<and> blocks w ub = Some us"

lemma fill_current:
  assumes rep: "represents s w v" and us: "caller_buffer s w ub us" "i + len \<le> length us"
  shows "fill_with_pattern (Ptr ub i) len (blk_data (snk_current_frame s))
      (blk_capacity (snk_current_frame s)) w =
    Inr (w\<lparr>blocks := (blocks w)(ub := Some (overlay i (cycle len (sv_shown v)) us))\<rparr>)"
proof -
  from rep have "sink_layout s w" and n: "frame_size s = sv_frame_size v"
    and cur: "blocks w (current_block s) = Some (sv_shown v)" and ok: "view_ok v"
    by (simp_all add: represents_def)
  from this(1) obtain cb where cb: "blk_data (snk_current_frame s) = Ptr cb 0"
    by (rule sink_layoutE)
  with us have "ub \<noteq> cb" by (auto simp: caller_buffer_def sink_blocks_def)
  moreover have "read_cells (Ptr cb 0) (sv_frame_size v) w = Inr (sv_shown v)"
    using cur cb ok by (subst read_cells_block [of _ _ "sv_shown v"]) (auto simp: view_ok_def)
  ultimately show ?thesis
    using us ok cb n
    by (auto simp: caller_buffer_def view_ok_def intro!: fill_with_pattern_cells)
qed

text \<open>After the frame to show is chosen, it is copied to the caller.\<close>

definition shown_to :: "nat \<Rightarrow> nat \<Rightarrow> nat \<Rightarrow> cell list \<Rightarrow> Sink \<Rightarrow> world \<Rightarrow> bool \<times> Sink_View \<Rightarrow>
    bool \<times> Sink \<times> world \<Rightarrow> bool" where
  "shown_to ub i len us s w = (\<lambda>(ok, v') (ok', s', w').
     ok' = ok \<and> represents s' w' v' \<and> sent [] w w' \<and> shape w' = shape w \<and>
     sink_blocks s' = sink_blocks s \<and>
     (\<forall>b. b \<noteq> ub \<and> b \<notin> set (sink_blocks s) \<longrightarrow> blocks w' b = blocks w b) \<and>
     blocks w' ub = Some (if ok then overlay i (cycle len (sv_shown v')) us else us))"

lemma fill_shown_to:
  assumes rep: "represents s1 w1 v'" and blk: "sink_blocks s1 = sink_blocks s"
    and only: "shows_only s w w1" and us: "caller_buffer s w ub us" "i + len \<le> length us"
  shows "returns (bind_res (fill_with_pattern (Ptr ub i) len (blk_data (snk_current_frame s1))
      (blk_capacity (snk_current_frame s1)) (w1\<lparr>tick := t\<rparr>)) (\<lambda>w. Inr (True, s1, w)))
    (shown_to ub i len us s w (True, v'))"
proof -
  let ?w = "w1\<lparr>tick := t\<rparr>"
  have ub: "ub \<noteq> current_block s" "ub \<notin> set (sink_blocks s1)"
    using us(1) blk by (auto simp: caller_buffer_def sink_blocks_def)
  then have buf: "caller_buffer s1 ?w ub us"
    using us(1) only by (simp add: caller_buffer_def shows_only_def)
  let ?w' = "?w\<lparr>blocks := (blocks ?w)(ub := Some (overlay i (cycle len (sv_shown v')) us))\<rparr>"
  have rep_t: "represents s1 ?w v'" using rep by simp
  have shape: "shape ?w' = shape ?w"
    using buf us(2) by (intro shape_store) (auto simp: caller_buffer_def)
  then have "represents s1 ?w' v'"
    using ub(2) by (intro represents_heap [OF rep_t]) (auto simp: sink_blocks_def)
  moreover have "shape ?w = shape w" using only by (simp add: shows_only_def shape_def)
  ultimately show ?thesis
    using fill_current [OF rep_t buf us(2)] blk only shape
    by (simp add: shown_to_def shows_only_def sink_blocks_def)
qed

lemma atolla_sink_get_refines:
  assumes rep: "represents s w v" and us: "caller_buffer s w ub us" "i + len \<le> length us"
  shows "returns (atolla_sink_get s (Ptr ub i) len w)
    (shown_to ub i len us s w (get_step (clock (os w) (tick w)) v))"
proof -
  have eqs [simp]: "snk_state s = sv_state v" "snk_time_origin s = sv_origin v"
    using rep by (simp_all add: represents_def)
  have same: "shown_to ub i len us s w (False, v) (False, s, w)"
    using rep us(1) by (simp add: shown_to_def caller_buffer_def)
  let ?now = "clock (os w) (tick w)"
  consider (idle) "sv_state v \<noteq> ATOLLA_SINK_STATE_LENT"
    | (empty) "sv_state v = ATOLLA_SINK_STATE_LENT" "sv_origin v = NULL_TIME" "sv_frames v = []"
    | (first) f fs where "sv_state v = ATOLLA_SINK_STATE_LENT" "sv_origin v = NULL_TIME" "sv_frames v = f # fs"
    | (later) "sv_state v = ATOLLA_SINK_STATE_LENT" "sv_origin v \<noteq> NULL_TIME"
    by (cases "sv_frames v") auto
  then show ?thesis
  proof cases
    case idle
    then show ?thesis using same by (simp add: atolla_sink_get_def get_step_def)
  next
    case empty
    then show ?thesis
      using same sink_dequeue_empty [OF rep empty(3)] by (simp add: atolla_sink_get_def get_step_def)
  next
    case first
    from sink_dequeue_refines [OF rep first(3)] obtain s1 w1 where deq: "sink_dequeue s w = Inr (True, s1, w1)"
      and s1: "represents s1 w1 (show_frames 1 v)" "sink_blocks s1 = sink_blocks s" "shows_only s w w1"
      by (auto simp: returns_iff)
    have "os w1 = os w" "tick w1 = tick w" using s1(3) by (auto simp: shows_only_def sent_os)
    moreover have "sink_blocks (s1\<lparr>snk_time_origin := ?now\<rparr>) = sink_blocks s"
      using s1(2) by (simp add: sink_blocks_def)
    ultimately show ?thesis
      using fill_shown_to [OF represents_origin [OF s1(1)] _ s1(3) us, of ?now "Suc (tick w)"] deq first
      by (simp add: atolla_sink_get_def get_step_def time_now_split)
  next
    case later
    let ?w = "w\<lparr>tick := Suc (tick w)\<rparr>"
    have rep': "represents s ?w v" using rep by simp
    have "length (sv_frames v) \<le> ring_len (snk_pending_frames s)"
      using represents_ring_len [OF rep] rep by (simp add: represents_def view_ok_def)
    then have fuel: "length (sv_frames v) + 1 < Suc (Suc (ring_len (snk_pending_frames s)))" by simp
    from get_loop_refines [OF rep' later(1) fuel, of ?now] obtain s1 w1 where
      loop: "get_loop ?now s ?w = Inr (s1, w1)"
      and s1: "represents s1 w1 (advanced (min (frames_due ?now v) (length (sv_frames v))) v)"
        "sink_blocks s1 = sink_blocks s" "shows_only s ?w w1"
      by (auto simp: returns_iff get_loop_def)
    have "w1 = w1\<lparr>tick := tick w1\<rparr>" by simp
    moreover have "shows_only s w (w1\<lparr>tick := tick w\<rparr>)"
      using s1(3) by (auto simp: shows_only_def shape_def)
    moreover have "represents s1 (w1\<lparr>tick := tick w\<rparr>)
        (advanced (min (frames_due ?now v) (length (sv_frames v))) v)"
      using s1(1) by simp
    ultimately show ?thesis
      using fill_shown_to [OF _ s1(2) _ us, of "w1\<lparr>tick := tick w\<rparr>" _ "tick w1"] loop later
      by (simp add: atolla_sink_get_def get_step_def advanced_def time_now_split Let_def)
  qed
qed

section \<open>Making a sink\<close>

definition fresh_view :: "nat \<Rightarrow> AtollaSinkState \<Rightarrow> int \<Rightarrow> Sink_View" where
  "fresh_view n state handle =
     \<lparr>sv_state = state, sv_borrower = \<lparr>ep_addr = [], ep_len = 0\<rparr>, sv_frame_size = n,
      sv_duration = 0, sv_origin = 0, sv_last_idx = 0, sv_frames = [],
      sv_shown = replicate n None, sv_next_id = 0, sv_handle = handle\<rparr>"

lemma sink_private_make_ok:
  assumes "sink_spec_port spec \<ge> 0" "sink_spec_port spec < 65536"
    and "1 \<le> sink_spec_lights_count spec" "sink_spec_lights_count spec \<le> 337"
    and "\<And>b. \<not> oom w b" and n: "n = nat (sink_spec_lights_count spec) * 3"
    and nb: "nb = next_block w"
  shows "sink_private_make spec w = Inr
    (\<lparr>snk_state = ATOLLA_SINK_STATE_OPEN, snk_error_msg = None,
      snk_socket = \<lparr>socket_handle = 0\<rparr>,
      snk_borrower_endpoint = \<lparr>ep_addr = [], ep_len = 0\<rparr>,
      snk_lights_count = word_of_int (sink_spec_lights_count spec),
      snk_frame_duration_ms = 0,
      snk_builder = \<lparr>msg_buf = \<lparr>blk_data = Null, blk_size = 0, blk_capacity = 0\<rparr>, next_msg_id = 0\<rparr>,
      snk_recv_buf = Ptr nb 0,
      snk_current_frame = \<lparr>blk_data = Ptr (Suc nb) 0, blk_size = 0, blk_capacity = n\<rparr>,
      snk_received_frame = \<lparr>blk_data = Ptr (Suc (Suc nb)) 0, blk_size = 0, blk_capacity = n\<rparr>,
      snk_pending_frames =
        \<lparr>ring_buf = \<lparr>blk_data = Ptr (Suc (Suc (Suc nb))) 0, blk_size = n * 128, blk_capacity = n * 128\<rparr>,
         ring_front = 0, ring_len = 0\<rparr>,
      snk_time_origin = 0, snk_last_enqueued_frame_idx = 0, snk_last_recv_time = 0,
      snk_last_send_lent_time = 0\<rparr>,
     w\<lparr>blocks := (blocks w)(nb := Some (replicate sink_recv_buf_len (Some 0)),
         Suc nb := Some (replicate n None), Suc (Suc nb) := Some (replicate n None),
         Suc (Suc (Suc nb)) := Some (replicate (n * 128) None)),
       next_block := Suc (Suc (Suc (Suc nb)))\<rparr>)"
proof -
  have bounds: "3 \<le> n" "n \<le> 1011" using assms(3,4) by (auto simp: n)
  have size: "size_mul (nat (sink_spec_lights_count spec)) color_channel_count = n"
    using bounds by (simp add: n color_channel_count_def)
  have rec: "overlay 0 (replicate sink_recv_buf_len (Some 0)) (replicate sink_recv_buf_len None)
      = replicate sink_recv_buf_len (Some (0 :: u8))"
    by (rule overlay_all) simp
  have fits: "size_add n 10 < sink_recv_buf_len"
    using bounds by (simp add: sink_recv_buf_len_def)
  have cap: "size_mul n pending_frames_capacity = n * 128"
    using bounds by (simp add: pending_frames_capacity_def)
  have "0 < n" "0 < n * 128" using bounds by simp_all
  with assms(1-5) show ?thesis
    by (simp add: sink_private_make_def size fits cap Let_def malloc_def write_cells_block rec
        mem_block_alloc_ok mem_ring_alloc_ok nb)
qed

lemma performs_blocks: "performs events w w' \<Longrightarrow> blocks w' = blocks w \<and> next_block w' = next_block w \<and> oom w' = oom w"
  by (auto simp: performs_def)

text \<open>
  A sink that was just made shows nothing, and every pixel of its current frame is
  indeterminate: the source does not clear it.
\<close>

lemma atolla_sink_make_represents:
  assumes spec: "sink_spec_port spec \<ge> 0" "sink_spec_port spec < 65536"
    "1 \<le> sink_spec_lights_count spec" "sink_spec_lights_count spec \<le> 337"
    and mem: "\<And>b. \<not> oom w b" and sockopt: "setsockopt_works (os w)"
    and n: "n = nat (sink_spec_lights_count spec) * 3"
  shows "returns (atolla_sink_make spec w) (\<lambda>(s, w').
    (\<exists>state handle. represents s w' (fresh_view n state handle) \<and>
       (state = ATOLLA_SINK_STATE_OPEN \<and> snk_error_msg s = None \<or>
        state = ATOLLA_SINK_STATE_ERROR \<and> snk_error_msg s \<noteq> None)) \<and>
    os w' = os w \<and> set (sink_blocks s) = {next_block w..<next_block w'} \<and>
    (\<forall>b. b \<notin> set (sink_blocks s) \<longrightarrow> blocks w' b = blocks w b))"
proof -
  define nb where "nb = next_block w"
  have bounds: "3 \<le> n" "n \<le> 1011" using spec(3,4) by (auto simp: n)
  from sink_private_make_ok [OF spec mem n nb_def] obtain s0 w0 where
    make: "sink_private_make spec w = Inr (s0, w0)"
    and w0: "w0 = w\<lparr>blocks := (blocks w)(nb := Some (replicate sink_recv_buf_len (Some 0)),
         Suc nb := Some (replicate n None), Suc (Suc nb) := Some (replicate n None),
         Suc (Suc (Suc nb)) := Some (replicate (n * 128) None)),
       next_block := Suc (Suc (Suc (Suc nb)))\<rparr>"
    and s0: "snk_state s0 = ATOLLA_SINK_STATE_OPEN" "snk_error_msg s0 = None"
      "snk_borrower_endpoint s0 = \<lparr>ep_addr = [], ep_len = 0\<rparr>"
      "snk_lights_count s0 = word_of_int (sink_spec_lights_count spec)"
      "snk_frame_duration_ms s0 = 0" "snk_recv_buf s0 = Ptr nb 0"
      "snk_current_frame s0 = \<lparr>blk_data = Ptr (Suc nb) 0, blk_size = 0, blk_capacity = n\<rparr>"
      "snk_received_frame s0 = \<lparr>blk_data = Ptr (Suc (Suc nb)) 0, blk_size = 0, blk_capacity = n\<rparr>"
      "snk_pending_frames s0 =
        \<lparr>ring_buf = \<lparr>blk_data = Ptr (Suc (Suc (Suc nb))) 0, blk_size = n * 128, blk_capacity = n * 128\<rparr>,
         ring_front = 0, ring_len = 0\<rparr>"
      "snk_time_origin s0 = 0" "snk_last_enqueued_frame_idx s0 = 0"
    by simp
  have "setsockopt_works (os w0)" using sockopt by (simp add: w0)
  from udp_socket_init_on_port_returns [OF this, of "snk_socket s0" "nat (sink_spec_port spec) mod 65536"]
  obtain r sock w1 events where
    init: "udp_socket_init_on_port (Some (snk_socket s0)) (nat (sink_spec_port spec) mod 65536) w0
      = Inr (r, Some sock, w1)" and perf: "performs events w0 w1"
    by (auto simp: returns_iff)
  note w1 = performs_blocks [OF perf] performs_os [OF perf]
  define s1 where "s1 = (if res_code r \<noteq> UDP_SOCKET_OK
      then sink_panic (s0\<lparr>snk_socket := sock\<rparr>) ''Failed to bind source to port specified in spec.''
      else s0\<lparr>snk_socket := sock\<rparr>)"
  have s1: "snk_borrower_endpoint s1 = \<lparr>ep_addr = [], ep_len = 0\<rparr>"
      "snk_lights_count s1 = word_of_int (sink_spec_lights_count spec)"
      "snk_frame_duration_ms s1 = 0" "snk_recv_buf s1 = Ptr nb 0"
      "snk_current_frame s1 = \<lparr>blk_data = Ptr (Suc nb) 0, blk_size = 0, blk_capacity = n\<rparr>"
      "snk_received_frame s1 = \<lparr>blk_data = Ptr (Suc (Suc nb)) 0, blk_size = 0, blk_capacity = n\<rparr>"
      "snk_pending_frames s1 =
        \<lparr>ring_buf = \<lparr>blk_data = Ptr (Suc (Suc (Suc nb))) 0, blk_size = n * 128, blk_capacity = n * 128\<rparr>,
         ring_front = 0, ring_len = 0\<rparr>"
      "snk_time_origin s1 = 0" "snk_last_enqueued_frame_idx s1 = 0"
    and state: "snk_state s1 = ATOLLA_SINK_STATE_OPEN \<and> snk_error_msg s1 = None \<or>
      snk_state s1 = ATOLLA_SINK_STATE_ERROR \<and> snk_error_msg s1 \<noteq> None"
    using s0 by (simp_all add: s1_def sink_panic_def)
  define kb where "kb = Suc (Suc (Suc (Suc nb)))"
  let ?b = "\<lparr>msg_buf = \<lparr>blk_data = Ptr kb 0, blk_size = 0, blk_capacity = 32\<rparr>, next_msg_id = 0\<rparr>"
  let ?w = "w1\<lparr>blocks := (blocks w1)(kb := Some (replicate 32 None)), next_block := Suc kb\<rparr>"
  let ?s = "s1\<lparr>snk_builder := ?b\<rparr>"
  have builder: "msg_builder_init w1 = Inr (?b, ?w)"
    using w1 mem by (simp add: msg_builder_init_def initial_block_capacity_def mem_block_alloc_ok w0 kb_def)
  have eq: "atolla_sink_make spec w = Inr (?s, ?w)"
    using builder
    by (cases "res_code r = UDP_SOCKET_OK") (simp_all add: atolla_sink_make_def make init Let_def s1_def)
  have lights: "unat (word_of_int (sink_spec_lights_count spec) :: u32) = nat (sink_spec_lights_count spec)"
    using spec(3,4) by (simp add: unat_eq_nat_uint uint_word_of_int)
  have "sink_layout ?s ?w"
  proof -
    have "frame_size_ok ?s"
      using bounds lights by (simp add: frame_size_ok_def s1 n color_channel_count_def)
    moreover have "distinct (sink_blocks ?s)"
      by (simp add: sink_blocks_def s1 kb_def)
    moreover have "live (snk_recv_buf ?s) sink_recv_buf_len ?w"
      using w1 by (simp add: live_def s1 kb_def w0)
    moreover have "owns (snk_current_frame ?s) n ?w" "owns (snk_received_frame ?s) n ?w"
      "owns (msg_buf (snk_builder ?s)) 32 ?w"
      using w1 bounds by (auto simp: owns_def owned_def s1 kb_def w0)
    moreover have "ring_inv n (snk_pending_frames ?s) ?w"
      using w1 bounds by (auto simp: s1 kb_def w0 intro!: ring_inv_fresh)
    ultimately show ?thesis
      by (simp add: sink_layout_def s1 initial_block_capacity_def
          pending_frames_capacity_def)
  qed
  moreover have "view_ok (fresh_view n (snk_state s1) (socket_handle (snk_socket s1)))"
    using bounds state by (auto simp: view_ok_def fresh_view_def s1)
  ultimately have "represents ?s ?w (fresh_view n (snk_state s1) (socket_handle (snk_socket s1)))"
    using w1 by (simp add: represents_def fresh_view_def s1 contents_def
        wrapped_def kb_def w0)
  moreover have "set (sink_blocks ?s) = {nb..<Suc kb}"
    by (auto simp: sink_blocks_def s1 kb_def)
  ultimately show ?thesis
    using w1 state by (auto simp: eq w0 kb_def nb_def [symmetric])
qed

text \<open>Freeing a sink frees the five blocks it owns and no other.\<close>

lemma atolla_sink_free_returns:
  assumes "sink_layout s w"
  shows "returns (atolla_sink_free s w) (\<lambda>w'. os w' = os w \<and>
    (\<forall>b. blocks w' b = (if b \<in> set (sink_blocks s) then None else blocks w b)))"
proof -
  from assms obtain rb cb fb gb kb n where lay: "distinct [rb, cb, fb, gb, kb]" "snk_recv_buf s = Ptr rb 0"
    "owned (snk_current_frame s) cb n w" "owned (snk_received_frame s) fb n w"
    "blk_data (snk_current_frame s) = Ptr cb 0" "blk_data (snk_received_frame s) = Ptr fb 0"
    "blk_data (ring_buf (snk_pending_frames s)) = Ptr gb 0"
    "blk_data (msg_buf (snk_builder s)) = Ptr kb 0"
    "owned (msg_buf (snk_builder s)) kb (blk_capacity (msg_buf (snk_builder s))) w"
    "ring_inv n (snk_pending_frames s) w"
    by (rule sink_layoutE) blast
  from assms lay(2) obtain cs where cs: "blocks w rb = Some cs" by (auto simp: sink_layout_def live_def)
  from lay(7,10) have ring: "owned (ring_buf (snk_pending_frames s)) gb (blk_size (ring_buf (snk_pending_frames s))) w"
    by (auto simp: ring_inv_def owned_def)
  let ?w = "w\<lparr>blocks := (blocks w)(kb := None)\<rparr>"
  from udp_socket_free_returns [of "snk_socket s" ?w] obtain r sock w1 where
    1: "udp_socket_free (Some (snk_socket s)) ?w = Inr (r, sock, w1)"
       "performs [Closed (socket_handle (snk_socket s))] ?w w1"
    by (auto simp: returns_iff)
  from 1(2) obtain t e where w1: "w1 = ?w\<lparr>tick := t, errno := e, os_log := os_log w @ [Closed (socket_handle (snk_socket s))]\<rparr>"
    by (auto simp: performs_def)
  define w2 where "w2 = w1\<lparr>blocks := (blocks w1)(cb := None)\<rparr>"
  define w3 where "w3 = w2\<lparr>blocks := (blocks w2)(fb := None)\<rparr>"
  define w4 where "w4 = w3\<lparr>blocks := (blocks w3)(gb := None)\<rparr>"
  define w5 where "w5 = w4\<lparr>blocks := (blocks w4)(rb := None)\<rparr>"
  note free = mem_block_free_owned
  have own: "owned (snk_current_frame s) cb n w1" "owned (snk_received_frame s) fb n w2"
    "owned (ring_buf (snk_pending_frames s)) gb (blk_size (ring_buf (snk_pending_frames s))) w3"
    using lay ring unfolding owned_def w1 w2_def w3_def by auto
  have "free_ptr (Ptr rb 0) w4 = Inr w5"
    using lay(1) cs unfolding w5_def by (intro free_ptr_block [where cs = cs]) (simp add: w1 w2_def w3_def w4_def)
  then have "atolla_sink_free s w = Inr w5"
    using free [OF lay(9)] free [OF own(1), folded w2_def] free [OF own(2), folded w3_def]
      free [OF own(3), folded w4_def] lay(2) 1(1)
    by (simp add: atolla_sink_free_def msg_builder_free_def mem_ring_free_def)
  moreover have "os w5 = os w" by (simp add: w5_def w4_def w3_def w2_def w1)
  moreover have "set (sink_blocks s) = {rb, cb, fb, gb, kb}"
    using lay by (simp add: sink_blocks_def)
  then have "blocks w5 b = (if b \<in> set (sink_blocks s) then None else blocks w b)" for b
    by (simp add: w5_def w4_def w3_def w2_def w1)
  ultimately show ?thesis by simp
qed

section \<open>Every run of calls\<close>

text \<open>
  \<^verbatim>\<open>atolla_sink_state\<close> is where a sink works: one datagram or the timeout, then a LENT message
  if the last one was sent too long ago (\<open>due\<close>).
\<close>

definition keepalive :: "bool \<Rightarrow> sink_step \<Rightarrow> sink_step" where
  "keepalive due = (\<lambda>(v, out).
     if due \<and> sv_state v = ATOLLA_SINK_STATE_LENT
     then let (v', out') = reply Lent (sv_borrower v) v in (v', out @ out')
     else (v, out))"

lemma sink_send_follows:
  assumes "follows r (s0, w0) (s, w)" "sends_whole (os w0)"
  shows "returns (sink_send s w) (\<lambda>x. \<exists>due. follows (keepalive due r) (s0, w0) x)"
proof -
  obtain v1 out where r: "r = (v1, out)" by fastforce
  with assms(1) have rep: "represents s w v1" and sent: "sent out w0 w" and keeps: "keeps (s0, w0) (s, w)"
    by (simp_all add: follows_def)
  let ?due = "clock (os w) (tick w) - snk_last_send_lent_time s > lent_send_interval"
  let ?step = "keepalive_step (clock (os w) (tick w)) (snk_last_send_lent_time s) v1"
  have whole: "sends_whole (os w)" using assms(2) sent by (simp add: sent_os)
  have "follows (keepalive ?due r) (s0, w0) x" if "follows ?step (s, w) x" for x
  proof -
    obtain s' w' where x: "x = (s', w')" by fastforce
    have "keepalive ?due r = (fst ?step, out @ snd ?step)"
      by (auto simp: keepalive_def keepalive_step_def r Let_def split_def)
    moreover have "represents s' w' (fst ?step)" "sent (snd ?step) w w'" "keeps (s, w) (s', w')"
      using that by (auto simp: follows_def x split_def)
    ultimately show ?thesis
      using sent_trans [OF sent] keeps_trans [OF keeps] by (simp add: follows_def x)
  qed
  then show ?thesis
    using sink_send_realises [OF rep whole] by (auto simp: realises_def elim!: returns_mono)
qed

lemma sink_update_realises:
  assumes "sends_whole (os w)"
    and "case step of None \<Rightarrow> sink_receive s w = Inl Hang
         | Some r \<Rightarrow> returns (sink_receive s w) (follows r (s, w))"
  shows "case step of None \<Rightarrow> sink_update s w = Inl Hang
    | Some r \<Rightarrow> returns (sink_update s w) (\<lambda>x. \<exists>due. follows (keepalive due r) (s, w) x)"
  using assms(2) sink_send_follows [OF _ assms(1)]
  by (auto simp: sink_update_def elim!: returns_mono split: option.splits)

lemma followsD:
  assumes "follows r (s, w) (s', w')"
  shows "represents s' w' (fst r)" "sent (snd r) w w'" "keeps (s, w) (s', w')"
  using assms by (cases r; simp add: follows_def)+

text \<open>A call of \<^verbatim>\<open>atolla_sink_state\<close> makes the steps of the protocol.\<close>

lemma sink_state_follows:
  assumes "represents s w v" "sv_state v \<noteq> ATOLLA_SINK_STATE_ERROR" "sends_whole (os w)"
    and "incoming w d addr" "d \<noteq> []" "length d \<le> sink_recv_buf_len" "parse d = Some ms"
  shows "case datagram_step (sender_of addr) ms v of
      None \<Rightarrow> atolla_sink_state s w = Inl Hang
    | Some r \<Rightarrow> returns (atolla_sink_state s w) (\<lambda>(st, s', w'). \<exists>due.
        follows (keepalive due r) (s, w) (s', w') \<and> st = sv_state (fst (keepalive due r)))"
proof -
  have [simp]: "snk_state s = sv_state v" using assms(1) by (simp add: represents_def)
  have "case datagram_step (sender_of addr) ms v of None \<Rightarrow> sink_receive s w = Inl Hang
         | Some r \<Rightarrow> returns (sink_receive s w) (follows r (s, w))"
    using sink_receive_datagram [OF assms(1,3-7)] by (auto split: option.splits elim!: returns_mono)
  from sink_update_realises [OF assms(3) this]
  have update: "case datagram_step (sender_of addr) ms v of None \<Rightarrow> sink_update s w = Inl Hang
    | Some r \<Rightarrow> returns (sink_update s w) (\<lambda>x. \<exists>due. follows (keepalive due r) (s, w) x)" .
  show ?thesis
  proof (cases "datagram_step (sender_of addr) ms v")
    case None
    with update assms(2) show ?thesis
      by (simp add: atolla_sink_state_def)
  next
    case (Some r)
    with update
    have "returns (sink_update s w) (\<lambda>x. \<exists>due. follows (keepalive due r) (s, w) x)" by simp
    then have "returns (sink_update s w) (\<lambda>(s', w'). \<exists>due. follows (keepalive due r) (s, w) (s', w') \<and>
        snk_state s' = sv_state (fst (keepalive due r)))"
      by (rule returns_mono) (force dest: followsD(1) simp: represents_def)
    with Some assms(2) show ?thesis
      by (auto simp: atolla_sink_state_def elim!: returns_mono)
  qed
qed

datatype sink_call = Get_state | Get_error_msg | Get_frame nat

text \<open>The caller passes \<^verbatim>\<open>atolla_sink_get\<close> the first bytes of its block \<open>ub\<close>.\<close>

fun sink_api :: "nat \<Rightarrow> sink_call \<Rightarrow> Sink \<times> world \<Rightarrow> (Sink \<times> world) result" where
  "sink_api ub Get_state (s, w) = bind_res (atolla_sink_state s w) (\<lambda>(st, s, w). Inr (s, w))"
| "sink_api ub Get_error_msg (s, w) = (let msg = atolla_sink_error_msg s in Inr (s, w))"
| "sink_api ub (Get_frame len) (s, w) =
     bind_res (atolla_sink_get s (Ptr ub 0) len w) (\<lambda>(ok, s, w). Inr (s, w))"

text \<open>
  Between calls a sink represents a state of the protocol, its client's buffer is in place, and of
  the rest of the memory \<open>m\<close> nothing but its own blocks \<open>bs\<close> has changed.
\<close>

definition sink_object :: "nat \<Rightarrow> nat \<Rightarrow> nat list \<Rightarrow> (nat \<Rightarrow> cell list option) \<Rightarrow> Sink \<times> world \<Rightarrow> bool" where
  "sink_object ub n bs m = (\<lambda>(s, w). (\<exists>v. represents s w v) \<and> sends_whole (os w) \<and>
     polite sink_recv_buf_len (os w) \<and> (\<exists>us. caller_buffer s w ub us \<and> length us = n) \<and>
     sink_blocks s = bs \<and> (\<forall>b. b \<noteq> ub \<and> b \<notin> set bs \<longrightarrow> blocks w b = m b))"

fun sink_call_allowed :: "nat \<Rightarrow> sink_call \<Rightarrow> bool" where
  "sink_call_allowed n (Get_frame len) \<longleftrightarrow> len \<le> n"
| "sink_call_allowed n c \<longleftrightarrow> True"

lemma sink_receive_cases:
  assumes "represents s w v" "sends_whole (os w)" "polite sink_recv_buf_len (os w)"
  shows "\<exists>step. case step of None \<Rightarrow> sink_receive s w = Inl Hang
         | Some r \<Rightarrow> returns (sink_receive s w) (follows r (s, w))"
proof (cases "nothing_incoming w")
  case True
  from sink_receive_nothing [OF assms(1,2) True] show ?thesis
    by (intro exI [of _ "Some _"]) (simp add: realises_def)
next
  case False
  then obtain d addr where d: "incoming w d addr" "d \<noteq> []" by (rule not_nothing_incoming)
  from polite_incoming [OF assms(3) d(1)] obtain ms where
    "length d \<le> sink_recv_buf_len" "parse d = Some ms" by blast
  from sink_receive_datagram [OF assms(1,2) d this] show ?thesis
    by (intro exI [of _ "datagram_step (sender_of addr) ms v"])
      (auto elim!: returns_mono split: option.splits)
qed

lemma caller_buffer_keeps:
  assumes "caller_buffer s w ub us" "keeps (s, w) (s', w')"
  shows "caller_buffer s' w' ub us"
  using assms by (auto simp: caller_buffer_def keeps_def)

lemma sink_api_ends:
  assumes inv: "sink_object ub n bs m x" and ok: "sink_call_allowed n c"
  shows "ends {Hang} (sink_api ub c x) (sink_object ub n bs m)"
proof -
  obtain s w where x: "x = (s, w)" by fastforce
  with inv obtain v us where rep: "represents s w v" and os: "sends_whole (os w)" "polite sink_recv_buf_len (os w)"
    and us: "caller_buffer s w ub us" "length us = n"
    and own: "sink_blocks s = bs" "\<forall>b. b \<noteq> ub \<and> b \<notin> set bs \<longrightarrow> blocks w b = m b"
    by (auto simp: sink_object_def)
  have keep: "sink_object ub n bs m y" if "follows r (s, w) y" for r y
    using that os us own caller_buffer_keeps [OF us(1), of "fst y" "snd y"]
    by (cases y) (auto simp: sink_object_def follows_def sent_os keeps_def split: prod.splits)
  show ?thesis
  proof (cases c)
    case Get_error_msg
    then show ?thesis using inv by (simp add: x)
  next
    case Get_state
    show ?thesis
    proof (cases "snk_state s = ATOLLA_SINK_STATE_ERROR")
      case True
      then show ?thesis using inv by (simp add: x Get_state atolla_sink_state_def)
    next
      case False
      from sink_receive_cases [OF rep os] obtain step where
        "case step of None \<Rightarrow> sink_receive s w = Inl Hang
         | Some r \<Rightarrow> returns (sink_receive s w) (follows r (s, w))" by blast
      from sink_update_realises [OF os(1) this] have "ends {Hang} (sink_update s w) (sink_object ub n bs m)"
        by (auto intro!: returns_ends dest: keep elim!: returns_mono split: option.splits)
      with False show ?thesis
        by (auto simp: x Get_state atolla_sink_state_def elim!: ends_mono)
    qed
  next
    case (Get_frame len)
    then have "0 + len \<le> length us" using ok us(2) by simp
    then have "length (overlay 0 (cycle len xs) us) = n" for xs using us(2) by simp
    with \<open>0 + len \<le> length us\<close> have fits: "0 + len \<le> length us"
      "\<And>xs. length (overlay 0 (cycle len xs) us) = n" by auto
    from atolla_sink_get_refines [OF rep us(1) fits(1)] show ?thesis
      using os us own fits(2) unfolding Get_frame x sink_api.simps ends_simps
      by (intro returns_ends)
        (auto simp: shown_to_def sink_object_def caller_buffer_def sent_os elim!: returns_mono split: prod.splits)
  qed
qed

interpretation sink: guarded_object "sink_api ub" "sink_object ub n bs m" "sink_call_allowed n" "{Hang}" for ub n bs m
  by unfold_locales (rule sink_api_ends)

end
