(* ===== verification/Source.thy ===== *)
theory Source
  imports Msg_Builder Msg_Iter Udp_Socket
begin

text \<open>
  \<^verbatim>\<open>src/atolla/source.h\<close> and \<^verbatim>\<open>src/atolla/source.cpp\<close>: the sending end of a stream of frames.
  The record \<open>Source\<close> is \<^verbatim>\<open>struct AtollaSourcePrivate\<close> (fields prefixed with \<open>src_\<close>). Its
  member array \<^verbatim>\<open>recv_buf\<close> lives in the heap block that stands for the allocated structure. The
  source does not clear that structure: \<open>src_last_recv_lent_time\<close> and \<open>src_error_msg\<close> are
  \<open>None\<close> until the first store, and using them before is the fault \<open>Indeterminate\<close>.
\<close>

section \<open>State\<close>

datatype AtollaSourceState =
    ATOLLA_SOURCE_STATE_WAITING
  | ATOLLA_SOURCE_STATE_OPEN
  | ATOLLA_SOURCE_STATE_ERROR

record AtollaSourceSpec =
  spec_sink_hostname :: string
  spec_sink_port :: int
  spec_frame_duration_ms :: int
  spec_max_buffered_frames :: int
  spec_retry_timeout_ms :: int
  spec_disconnect_timeout_ms :: int
  spec_async_make :: bool

definition source_recv_buf_len :: nat where "source_recv_buf_len = 32"
definition retry_timeout_ms_default :: u32 where "retry_timeout_ms_default = 100"
definition disconnect_timeout_ms_default :: u32 where "disconnect_timeout_ms_default = 750"
definition max_buffered_frames_default :: int where "max_buffered_frames_default = 16"
definition blocking_make_refresh_interval :: nat where "blocking_make_refresh_interval = 5"
definition SOURCE_NULL_TIME :: u32 where "SOURCE_NULL_TIME = NOT 0"

record Source =
  src_state :: AtollaSourceState
  src_sock :: UdpSocket
  src_recv_buf :: ptr
  src_builder :: MsgBuilder
  src_next_frame_idx :: int
  src_frame_duration_ms :: u32
  src_max_buffered_frames :: int
  src_retry_timeout_ms :: u32
  src_disconnect_timeout_ms :: u32
  src_first_borrow_time :: u32
  src_last_borrow_time :: u32
  src_last_frame_time :: u32
  src_last_recv_lent_time :: "u32 option"
  src_error_msg :: "string option"

section \<open>Messages of errors\<close>

definition err_borrow_timeout :: string where
  "err_borrow_timeout = ''Tried to borrow the sink, but the attempt timed out.''"
definition err_connection_lost :: string where
  "err_connection_lost = ''The connection to the sink was lost.''"
definition err_malformed :: string where
  "err_malformed = ''Malformed or unknown message type received from sink. This might be due to incompatible versions of the atolla protocol.''"

definition fail_error_msg :: "u8 \<Rightarrow> string" where
  "fail_error_msg code =
     (if code = ATOLLA_ERROR_CODE_NOT_BORROWED
      then ''The sink signalled that is not currently borrowed by this source.''
      else if code = ATOLLA_ERROR_CODE_REQUESTED_BUFFER_TOO_LARGE
      then ''The sink does not have enough memory for a frame queue of the requested length.''
      else if code = ATOLLA_ERROR_CODE_REQUESTED_FRAME_DURATION_TOO_SHORT
      then ''The sink cannot accomodate the reqest for the given frame duration because it is too short. Try a shorter frame duration.''
      else if code = ATOLLA_ERROR_CODE_LENT_TO_OTHER_SOURCE
      then ''The sink refused a request to borrow or enqueue because it is currently lent to another source. Try again later, when the other source has stopped transmission.''
      else if code = ATOLLA_ERROR_CODE_BAD_MSG
      then ''The sink signalled that it could not understand a message or that a message contained a not further specified invalid value. This might be due to incompatible versions of the atolla protocol.''
      else if code = ATOLLA_ERROR_CODE_TIMEOUT
      then ''The sink signalled that it did not receive packets for so long, it deems the connection no longer working. This might be due to bad signal quality or the source failing to enqueue frames for too long.''
      else ''The sink signalled an unrecoverable error state.'')"

section \<open>Transitions\<close>

definition source_fail :: "Source \<Rightarrow> string \<Rightarrow> Source" where
  "source_fail source error_msg =
     source\<lparr>src_state := ATOLLA_SOURCE_STATE_ERROR, src_error_msg := Some error_msg\<rparr>"

definition source_lent :: "Source \<Rightarrow> world \<Rightarrow> Source \<times> world" where
  "source_lent source w =
     (if src_state source = ATOLLA_SOURCE_STATE_WAITING
      then
        let source = source\<lparr>src_state := ATOLLA_SOURCE_STATE_OPEN,
                            src_last_frame_time := SOURCE_NULL_TIME\<rparr>;
            (now, w) = time_now w in
        (source\<lparr>src_last_recv_lent_time := Some now\<rparr>, w)
      else if src_state source = ATOLLA_SOURCE_STATE_OPEN
      then let (now, w) = time_now w in (source\<lparr>src_last_recv_lent_time := Some now\<rparr>, w)
      else (source, w))"

text \<open>The arguments of \<^verbatim>\<open>msg_builder_borrow\<close> are converted to \<open>uint8_t\<close>.\<close>

definition source_send_borrow :: "Source \<Rightarrow> world \<Rightarrow> (Source \<times> world) result" where
  "source_send_borrow source w =
     (let (now, w) = time_now w;
          source = source\<lparr>src_last_borrow_time := now\<rparr> in
      bind_res (msg_builder_borrow (src_builder source) (ucast (src_frame_duration_ms source))
                  (word_of_int (src_max_buffered_frames source)) w) (\<lambda>(builder, w).
      let source = source\<lparr>src_builder := builder\<rparr>; borrow_msg = msg_buf builder in
      bind_res (udp_socket_send (Some (src_sock source)) (blk_data borrow_msg) (blk_size borrow_msg) w)
        (\<lambda>(_, w). Inr (source, w))))"

section \<open>Receiving\<close>

definition source_handle_message :: "MsgIter \<Rightarrow> Source \<Rightarrow> world \<Rightarrow> (Source \<times> world) result" where
  "source_handle_message iter source w =
     bind_res (msg_iter_type iter w) (\<lambda>type.
     case type of
       MSG_TYPE_LENT \<Rightarrow> Inr (source_lent source w)
     | MSG_TYPE_FAIL \<Rightarrow>
         bind_res (msg_iter_fail_error_code iter w) (\<lambda>code.
         Inr (source_fail source (fail_error_msg code), w))
     | _ \<Rightarrow> Inr (source_fail source err_malformed, w))"

definition source_iterate_recv_buf :: "Source \<Rightarrow> nat \<Rightarrow> world \<Rightarrow> (Source \<times> world) result" where
  "source_iterate_recv_buf source received_bytes w =
     (let iter = msg_iter_make (src_recv_buf source) received_bytes in
      for_messages source_handle_message iter source w)"

definition source_receive :: "Source \<Rightarrow> world \<Rightarrow> (Source \<times> world) result" where
  "source_receive source w =
     bind_res (udp_socket_receive (src_sock source) (src_recv_buf source) source_recv_buf_len False w)
       (\<lambda>(result, received_len, w).
     if res_code result = UDP_SOCKET_OK
     then source_iterate_recv_buf source received_len w
     else Inr (source, w))"

section \<open>Timers\<close>

definition source_manage_borrow_packet_loss :: "Source \<Rightarrow> world \<Rightarrow> (Source \<times> world) result" where
  "source_manage_borrow_packet_loss source w =
     (if src_state source = ATOLLA_SOURCE_STATE_WAITING
      then
        let (now, w) = time_now w;
            time_since_first_borrow = now - src_first_borrow_time source;
            time_since_last_borrow = now - src_last_borrow_time source in
        if time_since_first_borrow > src_disconnect_timeout_ms source
        then Inr (source_fail source err_borrow_timeout, w)
        else if time_since_last_borrow > src_retry_timeout_ms source
        then source_send_borrow source w
        else Inr (source, w)
      else Inr (source, w))"

definition source_ensure_lent_resent :: "Source \<Rightarrow> world \<Rightarrow> (Source \<times> world) result" where
  "source_ensure_lent_resent source w =
     (if src_state source = ATOLLA_SOURCE_STATE_OPEN
      then
        let (now, w) = time_now w in
        (case src_last_recv_lent_time source of
           None \<Rightarrow> Inl Indeterminate
         | Some t \<Rightarrow>
             if now - t \<ge> src_disconnect_timeout_ms source
             then Inr (source_fail source err_connection_lost, w)
             else Inr (source, w))
      else Inr (source, w))"

definition source_update :: "Source \<Rightarrow> world \<Rightarrow> (Source \<times> world) result" where
  "source_update source w =
     bind_res (source_receive source w) (\<lambda>(source, w).
     bind_res (source_manage_borrow_packet_loss source w) (\<lambda>(source, w).
     source_ensure_lent_resent source w))"

section \<open>Making and freeing\<close>

definition source_private_make :: "AtollaSourceSpec \<Rightarrow> world \<Rightarrow> (Source \<times> world) result" where
  "source_private_make spec w =
     (let (source_ptr, w) = malloc source_recv_buf_len w in
      if source_ptr = Null then Inl Bad_access
      else Inr
       (\<lparr>src_state = ATOLLA_SOURCE_STATE_WAITING,
         src_sock = \<lparr>socket_handle = 0\<rparr>,
         src_recv_buf = source_ptr,
         src_builder = \<lparr>msg_buf = \<lparr>blk_data = Null, blk_size = 0, blk_capacity = 0\<rparr>, next_msg_id = 0\<rparr>,
         src_next_frame_idx = 0,
         src_frame_duration_ms = word_of_int (spec_frame_duration_ms spec),
         src_max_buffered_frames =
           (if spec_max_buffered_frames spec = 0 then max_buffered_frames_default
            else spec_max_buffered_frames spec),
         src_retry_timeout_ms =
           (if spec_retry_timeout_ms spec = 0 then retry_timeout_ms_default
            else word_of_int (spec_retry_timeout_ms spec)),
         src_disconnect_timeout_ms =
           (if spec_disconnect_timeout_ms spec = 0 then disconnect_timeout_ms_default
            else word_of_int (spec_disconnect_timeout_ms spec)),
         src_first_borrow_time = 0,
         src_last_borrow_time = 0,
         src_last_frame_time = 0,
         src_last_recv_lent_time = None,
         src_error_msg = None\<rparr>, w))"

text \<open>
  \<^verbatim>\<open>while(source->state == WAITING) { time_sleep(...); source_update(source); }\<close>. Whether it ends
  depends on the clock: the number of rounds is a parameter (\<open>await_returns\<close> in
  \<open>Source_Protocol\<close> says how many are enough).
\<close>

definition await_round :: "Source \<times> world \<Rightarrow> ((Source \<times> world) + (Source \<times> world)) result" where
  "await_round = (\<lambda>(source, w).
     if src_state source = ATOLLA_SOURCE_STATE_WAITING
     then
       let w = (if blocking_make_refresh_interval > 0
                then time_sleep blocking_make_refresh_interval w else w) in
       bind_res (source_update source w) (\<lambda>(source, w). Inr (Inl (source, w)))
     else Inr (Inr (source, w)))"

definition source_await_make_completion ::
  "nat \<Rightarrow> Source \<Rightarrow> world \<Rightarrow> (Source \<times> world) result" where
  "source_await_make_completion rounds source w = loop rounds await_round (source, w)"

definition atolla_source_make ::
  "nat \<Rightarrow> AtollaSourceSpec \<Rightarrow> world \<Rightarrow> (Source \<times> world) result" where
  "atolla_source_make rounds spec w =
     bind_res (assert_that (spec_sink_port spec \<ge> 0 \<and> spec_sink_port spec < 65536)) (\<lambda>_.
     bind_res (source_private_make spec w) (\<lambda>(source, w).
     bind_res (msg_builder_init w) (\<lambda>(builder, w).
     let source = source\<lparr>src_builder := builder\<rparr> in
     bind_res (udp_socket_init (Some (src_sock source)) w) (\<lambda>(result, sock, w).
     let source = source\<lparr>src_sock := the sock\<rparr> in
     bind_res
       (if res_code result = UDP_SOCKET_OK
        then
          bind_res (udp_socket_set_receiver (Some (src_sock source)) (spec_sink_hostname spec)
                      (nat (spec_sink_port spec) mod 65536) w) (\<lambda>(result, w).
          if res_code result = UDP_SOCKET_OK
          then
            let (now, w) = time_now w in
            source_send_borrow (source\<lparr>src_first_borrow_time := now\<rparr>) w
          else
            let source = source\<lparr>src_state := ATOLLA_SOURCE_STATE_ERROR\<rparr> in
            Inr (source_fail source ''Sink hostname could not be resolved.'', w))
        else Inr (source_fail source ''Sink could not bind to port.'', w))
       (\<lambda>(source, w).
     if \<not> spec_async_make spec
     then source_await_make_completion rounds source w
     else Inr (source, w))))))"

text \<open>The block of the builder is not freed.\<close>

definition atolla_source_free :: "Source \<Rightarrow> world \<Rightarrow> world result" where
  "atolla_source_free source w =
     bind_res (udp_socket_free (Some (src_sock source)) w) (\<lambda>(_, _, w).
     free_ptr (src_recv_buf source) w)"

section \<open>The interface\<close>

definition atolla_source_state :: "Source \<Rightarrow> world \<Rightarrow> (AtollaSourceState \<times> Source \<times> world) result" where
  "atolla_source_state source w =
     bind_res (source_update source w) (\<lambda>(source, w). Inr (src_state source, source, w))"

text \<open>The result is \<open>None\<close> where the source returns \<open>NULL\<close>.\<close>

definition atolla_source_error_msg :: "Source \<Rightarrow> string option result" where
  "atolla_source_error_msg source =
     (if src_state source = ATOLLA_SOURCE_STATE_ERROR
      then (case src_error_msg source of None \<Rightarrow> Inl Indeterminate | Some m \<Rightarrow> Inr (Some m))
      else Inr None)"

text \<open>Division of \<open>unsigned int\<close> values, and their conversion to \<open>int\<close>.\<close>

definition u32_div :: "u32 \<Rightarrow> u32 \<Rightarrow> u32 result" where
  "u32_div a b = (if b = 0 then Inl Div_by_zero else Inr (a div b))"

definition atolla_source_put_ready_count :: "Source \<Rightarrow> world \<Rightarrow> (int \<times> Source \<times> world) result" where
  "atolla_source_put_ready_count source w =
     bind_res (source_update source w) (\<lambda>(source, w).
     if src_state source = ATOLLA_SOURCE_STATE_ERROR \<or> src_state source = ATOLLA_SOURCE_STATE_WAITING
     then Inr (0, source, w)
     else
       bind_res (assert_that (src_state source = ATOLLA_SOURCE_STATE_OPEN)) (\<lambda>_.
       if src_last_frame_time source = SOURCE_NULL_TIME
       then Inr (src_max_buffered_frames source, source, w)
       else
         let (now, w) = time_now w in
         bind_res (u32_div (now - src_last_frame_time source) (src_frame_duration_ms source)) (\<lambda>count.
         Inr (sint count, source, w))))"

definition atolla_source_put_ready_timeout :: "Source \<Rightarrow> world \<Rightarrow> (int \<times> Source \<times> world) result" where
  "atolla_source_put_ready_timeout source w =
     bind_res (source_update source w) (\<lambda>(source, w).
     if src_state source = ATOLLA_SOURCE_STATE_ERROR \<or> src_state source = ATOLLA_SOURCE_STATE_WAITING
     then Inr (-1, source, w)
     else if src_last_frame_time source = SOURCE_NULL_TIME
     then Inr (0, source, w)
     else
       let (now, w) = time_now w in
       bind_res (u32_div (now - src_last_frame_time source) (src_frame_duration_ms source)) (\<lambda>count.
       let readyCount = sint count in
       if readyCount > 0 then Inr (0, source, w)
       else
         let (now, w) = time_now w in
         Inr (sint (src_last_frame_time source + src_frame_duration_ms source - now), source, w)))"

definition source_send_frame :: "Source \<Rightarrow> ptr \<Rightarrow> nat \<Rightarrow> world \<Rightarrow> (bool \<times> Source \<times> world) result" where
  "source_send_frame source frame frame_len w =
     bind_res (msg_builder_enqueue (src_builder source) (word_of_int (src_next_frame_idx source))
                 frame frame_len w) (\<lambda>(builder, w).
     let source = source\<lparr>src_builder := builder\<rparr>; enqueue_msg = msg_buf builder in
     bind_res (udp_socket_send (Some (src_sock source)) (blk_data enqueue_msg) (blk_size enqueue_msg) w)
       (\<lambda>(send_result, w).
     if res_code send_result \<noteq> UDP_SOCKET_OK
     then Inr (False, source, w)
     else
       let source = source\<lparr>src_next_frame_idx := (src_next_frame_idx source + 1) smod 256\<rparr> in
       if src_last_frame_time source = SOURCE_NULL_TIME
       then
         let (now, w) = time_now w in
         Inr (True, source\<lparr>src_last_frame_time :=
                now - word_of_int (src_max_buffered_frames source - 1) * src_frame_duration_ms source\<rparr>, w)
       else
         Inr (True, source\<lparr>src_last_frame_time :=
                src_last_frame_time source + src_frame_duration_ms source\<rparr>, w)))"

definition atolla_source_put :: "Source \<Rightarrow> ptr \<Rightarrow> nat \<Rightarrow> world \<Rightarrow> (bool \<times> Source \<times> world) result" where
  "atolla_source_put source frame frame_len w =
     bind_res (source_update source w) (\<lambda>(source, w).
     bind_res (atolla_source_state source w) (\<lambda>(state, source, w).
     if state \<noteq> ATOLLA_SOURCE_STATE_OPEN then Inr (False, source, w)
     else
       bind_res (atolla_source_put_ready_timeout source w) (\<lambda>(timeout, source, w).
       let w = (if timeout > 0 then time_sleep (nat timeout) w else w) in
       source_send_frame source frame frame_len w)))"

end
