(* ===== verification/Source_Protocol.thy ===== *)
theory Source_Protocol
  imports Source Arrival
begin

text \<open>
  What a source promises: the state machine of \<^verbatim>\<open>enum AtollaSourceState\<close>, what each message of
  a datagram does to it, the invariant of a source in memory, and the effect of every function of
  \<^verbatim>\<open>source.cpp\<close> on state, memory and outside world.
\<close>

section \<open>The state machine\<close>

inductive source_transition :: "AtollaSourceState \<Rightarrow> AtollaSourceState \<Rightarrow> bool" where
  lent: "source_transition ATOLLA_SOURCE_STATE_WAITING ATOLLA_SOURCE_STATE_OPEN"
| fails: "source_transition s ATOLLA_SOURCE_STATE_ERROR"

inductive_cases source_transition_cases: "source_transition s t"

abbreviation source_reaches :: "AtollaSourceState \<Rightarrow> AtollaSourceState \<Rightarrow> bool" where
  "source_reaches \<equiv> source_transition\<^sup>*\<^sup>*"

lemma source_error_absorbing:
  assumes "source_reaches ATOLLA_SOURCE_STATE_ERROR t"
  shows "t = ATOLLA_SOURCE_STATE_ERROR"
  using assms by (induction rule: rtranclp_induct) (auto elim: source_transition_cases)

lemma source_never_waits_again:
  assumes "source_reaches s ATOLLA_SOURCE_STATE_WAITING"
  shows "s = ATOLLA_SOURCE_STATE_WAITING"
proof -
  have "t = ATOLLA_SOURCE_STATE_WAITING \<longrightarrow> s = ATOLLA_SOURCE_STATE_WAITING" if "source_reaches s t" for t
    using that by (induction rule: rtranclp_induct) (auto elim: source_transition_cases)
  with assms show ?thesis by blast
qed

section \<open>Messages\<close>

record Source_View =
  cv_state :: AtollaSourceState
  cv_error :: "string option"
  cv_last_frame :: u32

definition source_view :: "Source \<Rightarrow> Source_View" where
  "source_view s = \<lparr>cv_state = src_state s, cv_error = src_error_msg s,
                    cv_last_frame = src_last_frame_time s\<rparr>"

definition view_fails :: "string \<Rightarrow> Source_View \<Rightarrow> Source_View" where
  "view_fails msg v = v\<lparr>cv_state := ATOLLA_SOURCE_STATE_ERROR, cv_error := Some msg\<rparr>"

fun message_effect :: "message \<Rightarrow> Source_View \<Rightarrow> Source_View" where
  "message_effect (Lent i) v =
     (if cv_state v = ATOLLA_SOURCE_STATE_WAITING
      then v\<lparr>cv_state := ATOLLA_SOURCE_STATE_OPEN, cv_last_frame := SOURCE_NULL_TIME\<rparr> else v)"
| "message_effect (Fail i causing code) v = view_fails (fail_error_msg code) v"
| "message_effect (Borrow i fl bl) v = view_fails err_malformed v"
| "message_effect (Enqueue i idx frame) v = view_fails err_malformed v"

definition messages_effect :: "message list \<Rightarrow> Source_View \<Rightarrow> Source_View" where
  "messages_effect ms v = fold message_effect ms v"

lemma message_effect_reaches: "source_reaches (cv_state v) (cv_state (message_effect m v))"
  by (cases m) (auto simp: view_fails_def intro: source_transition.intros)

lemma messages_effect_reaches: "source_reaches (cv_state v) (cv_state (messages_effect ms v))"
proof (induction ms arbitrary: v)
  case Nil
  then show ?case by (simp add: messages_effect_def)
next
  case (Cons m ms)
  from Cons.IH [of "message_effect m v"] message_effect_reaches [of v m] show ?case
    by (simp add: messages_effect_def)
qed

text \<open>One message that is not LENT anywhere in a datagram ends the connection.\<close>

lemma messages_effect_error:
  assumes "m \<in> set ms" "\<not> (\<exists>i. m = Lent i)"
  shows "cv_state (messages_effect ms v) = ATOLLA_SOURCE_STATE_ERROR"
proof -
  from assms(1) obtain before after where ms: "ms = before @ m # after" by (auto simp: in_set_conv_decomp)
  have "cv_state (message_effect m v') = ATOLLA_SOURCE_STATE_ERROR" for v'
    using assms(2) by (cases m) (auto simp: view_fails_def)
  then have "source_reaches ATOLLA_SOURCE_STATE_ERROR (cv_state (messages_effect ms v))"
    using messages_effect_reaches [of "message_effect m (fold message_effect before v)" after]
    by (simp add: messages_effect_def ms)
  then show ?thesis by (rule source_error_absorbing)
qed

section \<open>The invariant\<close>

definition source_memory :: "Source \<Rightarrow> 'a heap_scheme \<Rightarrow> bool" where
  "source_memory s h \<longleftrightarrow>
     live (src_recv_buf s) source_recv_buf_len h \<and> block_of (src_recv_buf s) < next_block h \<and>
     builder_ok (src_builder s) h \<and> blk_data (msg_buf (src_builder s)) \<noteq> src_recv_buf s \<and>
     0 < src_frame_duration_ms s \<and> 0 \<le> src_next_frame_idx s \<and> src_next_frame_idx s \<le> 255"

text \<open>No field is used before it was stored.\<close>

definition state_ok :: "Source \<Rightarrow> bool" where
  "state_ok s \<longleftrightarrow>
     (src_state s = ATOLLA_SOURCE_STATE_OPEN \<longrightarrow> src_last_recv_lent_time s \<noteq> None) \<and>
     (src_state s = ATOLLA_SOURCE_STATE_ERROR \<longrightarrow> src_error_msg s \<noteq> None)"

definition source_ok :: "Source \<Rightarrow> 'a heap_scheme \<Rightarrow> bool" where
  "source_ok s h \<longleftrightarrow> source_memory s h \<and> state_ok s"

text \<open>What never changes after the source was made.\<close>

definition same_connection :: "Source \<Rightarrow> Source \<Rightarrow> bool" where
  "same_connection s s' \<longleftrightarrow>
     src_sock s' = src_sock s \<and> src_recv_buf s' = src_recv_buf s \<and>
     src_frame_duration_ms s' = src_frame_duration_ms s \<and>
     src_max_buffered_frames s' = src_max_buffered_frames s \<and>
     src_retry_timeout_ms s' = src_retry_timeout_ms s \<and>
     src_disconnect_timeout_ms s' = src_disconnect_timeout_ms s \<and>
     src_first_borrow_time s' = src_first_borrow_time s"

abbreviation src_block :: "Source \<Rightarrow> nat" where
  "src_block s \<equiv> block_of (blk_data (msg_buf (src_builder s)))"

text \<open>
  \<open>source_run out\<close>: a step that sent \<open>out\<close>, kept the invariant, and stored into the two blocks
  of the source only; the block of the builder may be replaced by a new one.
\<close>

definition source_run :: "os_event list \<Rightarrow> Source \<times> world \<Rightarrow> Source \<times> world \<Rightarrow> bool" where
  "source_run out = (\<lambda>(s, w) (s', w').
     source_ok s' w' \<and> sent out w w' \<and> oom w' = oom w \<and> same_connection s s' \<and>
     next_block w \<le> next_block w' \<and>
     (src_block s' = src_block s \<or> next_block w \<le> src_block s') \<and>
     (\<forall>b. b < next_block w \<and> b \<noteq> block_of (src_recv_buf s) \<and> b \<noteq> src_block s \<longrightarrow>
        blocks w' b = blocks w b))"

lemma same_connection_refl [simp]: "same_connection s s"
  by (simp add: same_connection_def)

lemma same_connection_trans: "same_connection s s' \<Longrightarrow> same_connection s' s'' \<Longrightarrow> same_connection s s''"
  by (simp add: same_connection_def)

lemma source_run_refl: "source_ok s w \<Longrightarrow> source_run [] (s, w) (s, w)"
  by (simp add: source_run_def)

lemma source_run_trans:
  assumes "source_run out (s, w) (s', w')" "source_run out' (s', w') (s'', w'')"
  shows "source_run (out @ out') (s, w) (s'', w'')"
  using assms by (auto simp: source_run_def same_connection_def intro: sent_trans)

section \<open>Receiving\<close>

text \<open>The fields a message may change.\<close>

definition only_state :: "Source \<Rightarrow> Source \<Rightarrow> bool" where
  "only_state s s' \<longleftrightarrow>
     s' = s\<lparr>src_state := src_state s', src_error_msg := src_error_msg s',
            src_last_frame_time := src_last_frame_time s',
            src_last_recv_lent_time := src_last_recv_lent_time s'\<rparr>"

lemma only_state_refl [simp]: "only_state s s"
  by (simp add: only_state_def)

lemma only_state_update [simp]:
  "only_state s (s'\<lparr>src_state := a\<rparr>) = only_state s s'"
  "only_state s (s'\<lparr>src_error_msg := b\<rparr>) = only_state s s'"
  "only_state s (s'\<lparr>src_last_frame_time := c\<rparr>) = only_state s s'"
  "only_state s (s'\<lparr>src_last_recv_lent_time := d\<rparr>) = only_state s s'"
  by (cases s; cases s'; simp add: only_state_def)+

lemma only_stateD:
  assumes "only_state s s'"
  shows "src_recv_buf s' = src_recv_buf s" "src_builder s' = src_builder s"
    "same_connection s s'" "src_next_frame_idx s' = src_next_frame_idx s"
    "src_last_borrow_time s' = src_last_borrow_time s"
    "source_memory s' h = source_memory s h"
  using assms unfolding only_state_def by (cases s; cases s'; simp add: same_connection_def source_memory_def)+

definition heard :: "message list \<Rightarrow> Source \<Rightarrow> Source \<Rightarrow> bool" where
  "heard ms s s' \<longleftrightarrow> only_state s s' \<and> source_view s' = messages_effect ms (source_view s) \<and>
     (state_ok s \<longrightarrow> state_ok s')"

lemma source_fail_heard:
  "only_state s s' \<Longrightarrow> only_state s (source_fail s' msg)"
  "source_view (source_fail s' msg) = view_fails msg (source_view s')"
  "state_ok (source_fail s' msg)"
  by (simp_all add: source_fail_def source_view_def view_fails_def state_ok_def)

lemma source_lent_heard:
  "\<exists>s1. source_lent s w = (s1, w\<lparr>tick := Suc (tick w)\<rparr>) \<or> source_lent s w = (s1, w)"
  "only_state s0 s \<Longrightarrow> only_state s0 (fst (source_lent s w))"
  "source_view (fst (source_lent s w)) = message_effect (Lent i) (source_view s)"
  "state_ok s \<Longrightarrow> state_ok (fst (source_lent s w))"
  by (auto simp: source_lent_def Let_def time_now_split source_view_def state_ok_def)

lemma source_handle_message_heard:
  assumes "at_message it m w"
  shows "returns (source_handle_message it s w) (\<lambda>(s', w'). (\<exists>t. w' = w\<lparr>tick := t\<rparr>) \<and>
    (\<forall>s0. only_state s0 s \<longrightarrow> only_state s0 s') \<and> (state_ok s \<longrightarrow> state_ok s') \<and>
    source_view s' = message_effect m (source_view s))"
proof (cases m)
  case (Lent i)
  have "\<exists>t. snd (source_lent s w) = w\<lparr>tick := t\<rparr>"
    using source_lent_heard(1) [of s w] by (auto intro: exI [of _ "tick w"])
  then show ?thesis
    using at_message_header(1) [OF assms] source_lent_heard(2) [of _ s w] source_lent_heard(4) [of s w]
      source_lent_heard(3) [of s w i] Lent
    by (cases "source_lent s w") (auto simp: source_handle_message_def)
next
  case (Fail i causing code)
  have "w = w\<lparr>tick := tick w\<rparr>" by simp
  then have "\<exists>t. w = w\<lparr>tick := t\<rparr>" by blast
  then show ?thesis
    using at_message_header(1) [OF assms] at_fail(2) [OF assms [unfolded Fail]] source_fail_heard Fail
    by (simp add: source_handle_message_def)
next
  case (Borrow i fl bl)
  have "w = w\<lparr>tick := tick w\<rparr>" by simp
  then have "\<exists>t. w = w\<lparr>tick := t\<rparr>" by blast
  then show ?thesis
    using at_message_header(1) [OF assms] source_fail_heard Borrow
    by (simp add: source_handle_message_def)
next
  case (Enqueue i idx frame)
  have "w = w\<lparr>tick := tick w\<rparr>" by simp
  then have "\<exists>t. w = w\<lparr>tick := t\<rparr>" by blast
  then show ?thesis
    using at_message_header(1) [OF assms] source_fail_heard Enqueue
    by (simp add: source_handle_message_def)
qed

lemma source_iterate_heard:
  assumes "messages_in (src_recv_buf s) w ms"
  shows "returns (source_iterate_recv_buf s (length (datagram ms)) w) (\<lambda>(s', w').
    (\<exists>t. w' = w\<lparr>tick := t\<rparr>) \<and> heard ms s s')"
proof -
  from assms obtain rb cs where rb: "src_recv_buf s = Ptr rb 0"
    and hold: "remaining rb (msg_iter_make (Ptr rb 0) (length (datagram ms))) ms w"
    by (rule messages_inE)
  define rel where "rel = (\<lambda>v s' w'. (\<exists>t. w' = w\<lparr>tick := t\<rparr>) \<and> only_state s s' \<and>
    source_view s' = v \<and> (state_ok s \<longrightarrow> state_ok s'))"
  have "w = w\<lparr>tick := tick w\<rparr>" by simp
  then have start: "rel (source_view s) s w" unfolding rel_def by (metis only_state_refl)
  have body: "returns (source_handle_message it s' w') (\<lambda>(s'', w''). rel a' s'' w'' \<and>
      remaining rb it (m # ms) w'')"
    if "rel a s' w'" "remaining rb it (m # ms) w'" "Some (message_effect m a) = Some a'"
    for it m ms a a' s' w'
  proof (rule returns_mono [OF source_handle_message_heard [OF remaining_ConsD [OF that(2)], of s']])
    fix x assume x: "case x of (s'', w'') \<Rightarrow> (\<exists>t. w'' = w'\<lparr>tick := t\<rparr>) \<and>
      (\<forall>s0. only_state s0 s' \<longrightarrow> only_state s0 s'') \<and> (state_ok s' \<longrightarrow> state_ok s'') \<and>
      source_view s'' = message_effect m (source_view s')"
    obtain s'' w'' where [simp]: "x = (s'', w'')" by fastforce
    from x obtain t where w'': "w'' = w'\<lparr>tick := t\<rparr>" by auto
    with that(1) x that(3) have "rel a' s'' w''" by (auto simp: rel_def)
    moreover have "remaining rb it (m # ms) w''"
      using w'' by (intro remaining_cong [OF that(2)]) simp
    ultimately show "case x of (s'', w'') \<Rightarrow> rel a' s'' w'' \<and> remaining rb it (m # ms) w''" by simp
  qed
  have run: "run_spec (\<lambda>m v. Some (message_effect m v)) ms v = Some (messages_effect ms v)" for v
    by (induction ms arbitrary: v) (simp_all add: messages_effect_def)
  from iter.for_each_implements [where rel = rel and spec = "\<lambda>m v. Some (message_effect m v)",
      OF body start hold run]
  show ?thesis
    by (auto simp: source_iterate_recv_buf_def rb rel_def heard_def elim!: returns_mono)
qed

lemma source_memory_shape:
  assumes "source_memory s h" "shape h' = shape h"
  shows "source_memory s h'"
proof -
  have "builder_ok b h \<Longrightarrow> builder_ok b h'" for b
    unfolding builder_ok_def using owned_shape [OF _ assms(2)] by blast
  then show ?thesis
    using assms(1) live_shape [OF _ assms(2)] shape_next [OF assms(2)]
    unfolding source_memory_def by auto
qed

lemma source_receive_effect:
  assumes ok: "source_ok s w" and arr: "arriving source_recv_buf_len w ms"
  shows "returns (source_receive s w) (\<lambda>(s', w'). heard ms s s' \<and> source_run [] (s, w) (s', w') \<and>
    (ms = [] \<longrightarrow> s' = s \<and> tick w' = Suc (tick w)))"
proof -
  from ok obtain rb cs where rb: "src_recv_buf s = Ptr rb 0" "blocks w rb = Some cs"
    "length cs = source_recv_buf_len"
    by (auto simp: source_ok_def source_memory_def live_def)
  from arr consider (none) "nothing_incoming w" "ms = []"
    | (some) d addr where "incoming w d addr" "d \<noteq> []" "length d \<le> source_recv_buf_len" "parse d = Some ms"
    by (auto simp: arriving_def)
  then show ?thesis
  proof cases
    case none
    from udp_receive_nothing [OF none(1), of source_recv_buf_len "src_sock s" rb
        "\<lparr>ep_addr = [], ep_len = 0\<rparr>"] obtain r sender e where
      "udp_socket_receive_from (src_sock s) (Ptr rb 0) source_recv_buf_len
         (Some \<lparr>ep_addr = [], ep_len = 0\<rparr>) w = Inr (r, 0, sender, w\<lparr>tick := Suc (tick w), errno := e\<rparr>)"
      "res_code r \<noteq> UDP_SOCKET_OK"
      by (auto simp: source_recv_buf_len_def returns_iff)
    moreover have "source_ok s (w\<lparr>tick := Suc (tick w), errno := e\<rparr>)"
      using ok source_memory_shape [of s w "w\<lparr>tick := Suc (tick w), errno := e\<rparr>"]
      by (simp add: source_ok_def)
    ultimately show ?thesis
      by (simp add: source_receive_def rb(1) udp_socket_receive_def heard_def none(2)
          messages_effect_def source_run_def)
  next
    case some
    have "ms \<noteq> []" using parse_Some [OF some(4)] some(2) by auto
    let ?w1 = "w\<lparr>blocks := (blocks w)(rb := Some (overlay 0 (map Some d) cs))\<rparr>"
    let ?w = "?w1\<lparr>tick := Suc (tick w)\<rparr>"
    have shape: "shape ?w1 = shape w" using rb some(3) by (intro shape_store) auto
    then have shape': "shape ?w = shape w" by (simp only: shape_world)
    have mem: "source_memory s ?w"
      by (rule source_memory_shape [OF _ shape']) (use ok in \<open>simp add: source_ok_def\<close>)
    have recv: "udp_socket_receive (src_sock s) (Ptr rb 0) source_recv_buf_len False w =
        Inr (make_success_result, length d, ?w)"
      using udp_receive_datagram [OF some(1-3) rb(2)] rb(3)
      by (simp add: udp_socket_receive_def make_success_result_def)
    have "messages_in (src_recv_buf s) ?w1 ms"
      unfolding rb(1) using some(3,4) rb(3) by (intro messages_in_received) auto
    then have "messages_in (src_recv_buf s) ?w ms" by (simp add: messages_in_def)
    from source_iterate_heard [OF this] have
      "returns (source_iterate_recv_buf s (length d) ?w) (\<lambda>(s', w').
         (\<exists>t. w' = ?w\<lparr>tick := t\<rparr>) \<and> heard ms s s')"
      using parse_Some [OF some(4)] by simp
    moreover have "source_run [] (s, w) (s', w')"
      if "w' = ?w\<lparr>tick := t\<rparr>" "heard ms s s'" for s' w' t
    proof -
      from that(2) have only: "only_state s s'" and "state_ok s'"
        using ok by (auto simp: heard_def source_ok_def)
      moreover have "source_memory s w'"
        using that(1) by (intro source_memory_shape [OF mem]) simp
      ultimately show ?thesis
        using only_stateD(1-3) [OF only] only_stateD(6) [OF only, of w'] that(1) rb(1)
        by (simp add: source_run_def source_ok_def)
    qed
    ultimately show ?thesis
      using recv \<open>ms \<noteq> []\<close> by (auto simp: source_receive_def rb(1) make_success_result_def elim!: returns_mono)
  qed
qed

section \<open>Sending\<close>

lemma source_send_built:
  assumes mem: "source_memory s w" and state: "state_ok s" and whole: "sends_whole (os w)"
    and built: "builder_ok b h" "holds_message b bytes h" "bytes \<noteq> []"
    and ch: "changes {src_block s} w h" and k: "blk_data (msg_buf b) = Ptr k 0"
      "k = src_block s \<or> next_block w \<le> k"
  shows "returns (udp_socket_send (Some (src_sock s)) (blk_data (msg_buf b)) (blk_size (msg_buf b)) h)
    (\<lambda>(r, w'). source_run [Sent (socket_handle (src_sock s)) None bytes] (s, w) (s\<lparr>src_builder := b\<rparr>, w') \<and>
      (\<exists>e. w' = h\<lparr>tick := Suc (tick w), errno := e, os_log := os_log w @ (if res_code r = UDP_SOCKET_OK
         then [Sent (socket_handle (src_sock s)) None bytes] else [])\<rparr>))"
proof -
  note world = changes_world [OF ch] changes_same(1) [OF ch]
  from mem obtain rb cs where rb: "src_recv_buf s = Ptr rb 0" "blocks w rb = Some cs"
    "length cs = source_recv_buf_len" "rb < next_block w"
    by (auto simp: source_memory_def live_def)
  from mem obtain kb where kb: "blk_data (msg_buf (src_builder s)) = Ptr kb 0" "kb \<noteq> rb"
    by (auto simp: source_memory_def builder_ok_def owned_def rb)
  have rb': "blocks h rb = Some cs" "next_block w \<le> next_block h"
    using changesD [OF ch] rb kb by auto
  have "source_memory (s\<lparr>src_builder := b\<rparr>) h"
    using mem built(1) rb rb' k kb by (auto simp: source_memory_def live_def)
  then have ok: "source_ok (s\<lparr>src_builder := b\<rparr>) (h\<lparr>tick := t, errno := e, os_log := l\<rparr>)" for t e l
    using state source_memory_shape [of "s\<lparr>src_builder := b\<rparr>" h "h\<lparr>tick := t, errno := e, os_log := l\<rparr>"]
    by (simp add: source_ok_def state_ok_def)
  have len: "blk_size (msg_buf b) = length bytes" "read_bytes (Ptr k 0) (length bytes) h = Inr bytes"
    using built(2) k(1) by (auto simp: holds_message_def)
  have "sends_whole (os h)" using whole world by simp
  with len built(3) have "returns (udp_socket_send (Some (src_sock s)) (Ptr k 0) (length bytes) h)
    (\<lambda>(r, w'). \<exists>events. performs events h w' \<and> tick w' = Suc (tick h) \<and>
      delivered (os h) [Sent (socket_handle (src_sock s)) None bytes] events \<and>
      events = (if res_code r = UDP_SOCKET_OK then [Sent (socket_handle (src_sock s)) None bytes] else []))"
    unfolding udp_socket_send_def by (intro udp_socket_send_to_returns) auto
  then obtain r w' events where
    send: "udp_socket_send (Some (src_sock s)) (Ptr k 0) (length bytes) h = Inr (r, w')"
    and perf: "performs events h w'" and tick: "tick w' = Suc (tick h)"
    and del: "delivered (os h) [Sent (socket_handle (src_sock s)) None bytes] events"
    and ev: "events = (if res_code r = UDP_SOCKET_OK then [Sent (socket_handle (src_sock s)) None bytes] else [])"
    by (auto simp: returns_iff)
  from perf tick obtain e where w': "w' = h\<lparr>tick := Suc (tick h), errno := e, os_log := os_log h @ events\<rparr>"
    by (auto simp: performs_def)
  have "blocks w' c = blocks w c" if "c < next_block w" "c \<noteq> kb" for c
    using changesD(1) [OF ch] that kb by (simp add: w')
  moreover have "sent [Sent (socket_handle (src_sock s)) None bytes] w w'"
    using del world by (auto simp: sent_def w')
  ultimately have "source_run [Sent (socket_handle (src_sock s)) None bytes] (s, w) (s\<lparr>src_builder := b\<rparr>, w')"
    using ok k world rb' kb by (auto simp: source_run_def w' same_connection_def)
  moreover have "w' = h\<lparr>tick := Suc (tick w), errno := e, os_log := os_log w @ (if res_code r = UDP_SOCKET_OK
         then [Sent (socket_handle (src_sock s)) None bytes] else [])\<rparr>"
    by (simp only: w' ev world)
  ultimately show ?thesis using send k(1) len by auto
qed

text \<open>What the source knows before it calls a builder.\<close>

lemma source_memoryE:
  assumes "source_memory s w"
  obtains kb where "builder_ok (src_builder s) w" "blk_data (msg_buf (src_builder s)) = Ptr kb 0"
  using assms by (auto simp: source_memory_def builder_ok_def owned_def)

definition borrow_message :: "Source \<Rightarrow> message" where
  "borrow_message s = Borrow (next_msg_id (src_builder s)) (ucast (src_frame_duration_ms s))
     (word_of_int (src_max_buffered_frames s))"

lemma source_scalars [simp]:
  "source_memory (s\<lparr>src_last_borrow_time := t\<rparr>) h = source_memory s h"
  "source_memory (s\<lparr>src_first_borrow_time := t\<rparr>) h = source_memory s h"
  "state_ok (s\<lparr>src_last_borrow_time := t\<rparr>) = state_ok s"
  "state_ok (s\<lparr>src_first_borrow_time := t\<rparr>) = state_ok s"
  "source_view (s\<lparr>src_last_borrow_time := t\<rparr>) = source_view s"
  "source_view (s\<lparr>src_builder := b\<rparr>) = source_view s"
  by (simp_all add: source_memory_def state_ok_def source_view_def)

lemma source_send_borrow_effect:
  assumes mem: "source_memory s w" and state: "state_ok s" and whole: "sends_whole (os w)"
  shows "returns (source_send_borrow s w) (\<lambda>(s', w').
    source_run [Sent (socket_handle (src_sock s)) None (encode (borrow_message s))] (s, w) (s', w') \<and>
    source_view s' = source_view s \<and> src_last_borrow_time s' = clock (os w) (tick w) \<and>
    tick w' = tick w + 2 \<and> src_next_frame_idx s' = src_next_frame_idx s \<and>
    next_msg_id (src_builder s') = next_msg_id (src_builder s) + 1)"
proof -
  let ?w = "w\<lparr>tick := Suc (tick w)\<rparr>" and ?s = "s\<lparr>src_last_borrow_time := clock (os w) (tick w)\<rparr>"
  have mem': "source_memory ?s ?w"
    using mem by (simp add: source_memory_shape [OF mem])
  from mem' obtain kb where kb: "builder_ok (src_builder s) ?w" "blk_data (msg_buf (src_builder s)) = Ptr kb 0"
    by (rule source_memoryE) simp
  from msg_builder_borrow_returns [OF kb] obtain b h where
    build: "msg_builder_borrow (src_builder s) (ucast (src_frame_duration_ms s))
        (word_of_int (src_max_buffered_frames s)) ?w = Inr (b, h)"
    and b: "builder_ok b h" "next_msg_id b = next_msg_id (src_builder s) + 1"
      "holds_message b (encode (borrow_message s)) h" "changes {kb} ?w h" "blk_data (msg_buf b) = Ptr kb 0"
    by (fastforce simp: returns_iff borrow_message_def)
  have "returns (udp_socket_send (Some (src_sock ?s)) (blk_data (msg_buf b)) (blk_size (msg_buf b)) h)
    (\<lambda>(r, w'). source_run [Sent (socket_handle (src_sock ?s)) None (encode (borrow_message s))] (?s, ?w)
         (?s\<lparr>src_builder := b\<rparr>, w') \<and>
      (\<exists>e. w' = h\<lparr>tick := Suc (tick ?w), errno := e, os_log := os_log ?w @ (if res_code r = UDP_SOCKET_OK
         then [Sent (socket_handle (src_sock ?s)) None (encode (borrow_message s))] else [])\<rparr>))"
    using b state whole kb(2) by (intro source_send_built [OF mem']) auto
  then show ?thesis
    using build b(2) by (auto simp: source_send_borrow_def Let_def time_now_split source_run_def
        same_connection_def elim!: returns_mono)
qed

section \<open>Timers\<close>

text \<open>The first timer: while it waits, a source asks again, and gives up in the end.\<close>

lemma source_manage_borrow_effect:
  assumes ok: "source_ok s w" and whole: "sends_whole (os w)"
  defines "now \<equiv> clock (os w) (tick w)"
  shows "returns (source_manage_borrow_packet_loss s w) (\<lambda>(s', w').
    if src_state s = ATOLLA_SOURCE_STATE_WAITING \<and> now - src_first_borrow_time s > src_disconnect_timeout_ms s
    then source_run [] (s, w) (s', w') \<and> s' = source_fail s err_borrow_timeout
    else if src_state s = ATOLLA_SOURCE_STATE_WAITING \<and> now - src_last_borrow_time s > src_retry_timeout_ms s
    then source_run [Sent (socket_handle (src_sock s)) None (encode (borrow_message s))] (s, w) (s', w') \<and>
      source_view s' = source_view s \<and> tick w' = tick w + 3 \<and>
      src_next_frame_idx s' = src_next_frame_idx s
    else source_run [] (s, w) (s', w') \<and> s' = s \<and> tick w \<le> tick w' \<and> tick w' \<le> tick w + 1)"
proof -
  let ?w = "w\<lparr>tick := Suc (tick w)\<rparr>"
  have mem: "source_memory s w" "source_memory s ?w" "state_ok s" "sends_whole (os ?w)"
    using ok whole by (auto simp: source_ok_def intro: source_memory_shape)
  have fail: "source_run [] (s, w) (source_fail s msg, ?w)" for msg
    using mem only_stateD(1-3) [OF source_fail_heard(1) [OF only_state_refl], of s msg]
      only_stateD(6) [OF source_fail_heard(1) [OF only_state_refl], of s msg ?w]
    by (simp add: source_run_def source_ok_def source_fail_heard(3))
  have same: "source_run [] (s, w) (s, w)" "source_run [] (s, w) (s, ?w)"
    using mem by (simp_all add: source_run_def source_ok_def)
  have "source_run out (s, w) x" if "source_run out (s, ?w) x" for out x
    using that by (auto simp: source_run_def)
  with source_send_borrow_effect [OF mem(2,3,4)] fail same show ?thesis
    by (auto simp: source_manage_borrow_packet_loss_def time_now_split now_def Let_def elim!: returns_mono)
qed

text \<open>The second timer: an open source whose sink falls silent gives up.\<close>

lemma source_ensure_lent_effect:
  assumes ok: "source_ok s w"
  defines "now \<equiv> clock (os w) (tick w)"
  shows "returns (source_ensure_lent_resent s w) (\<lambda>(s', w'). source_run [] (s, w) (s', w') \<and>
    (src_state s \<noteq> ATOLLA_SOURCE_STATE_OPEN \<longrightarrow> w' = w) \<and>
    s' = (if src_state s = ATOLLA_SOURCE_STATE_OPEN \<and>
            now - the (src_last_recv_lent_time s) \<ge> src_disconnect_timeout_ms s
          then source_fail s err_connection_lost else s))"
proof -
  let ?w = "w\<lparr>tick := Suc (tick w)\<rparr>"
  have mem: "source_memory s w" "source_memory s ?w" "state_ok s"
    using ok by (auto simp: source_ok_def intro: source_memory_shape)
  have fail: "source_run [] (s, w) (source_fail s msg, ?w)" for msg
    using mem only_stateD(1-3) [OF source_fail_heard(1) [OF only_state_refl], of s msg]
      only_stateD(6) [OF source_fail_heard(1) [OF only_state_refl], of s msg ?w]
    by (simp add: source_run_def source_ok_def source_fail_heard(3))
  have same: "source_run [] (s, w) (s, w)" "source_run [] (s, w) (s, ?w)"
    using mem by (simp_all add: source_run_def source_ok_def)
  have "src_state s = ATOLLA_SOURCE_STATE_OPEN \<Longrightarrow> \<exists>t. src_last_recv_lent_time s = Some t"
    using mem(3) by (auto simp: state_ok_def)
  with fail same show ?thesis
    by (auto simp: source_ensure_lent_resent_def time_now_split now_def)
qed

section \<open>Updating\<close>

lemma source_run_os: "source_run out (s, w) (s', w') \<Longrightarrow> os w' = os w"
  by (auto simp: source_run_def sent_os)

lemma source_run_ok: "source_run out (s, w) (s', w') \<Longrightarrow> source_ok s' w'"
  by (simp add: source_run_def)

lemma source_run_connection: "source_run out (s, w) (s', w') \<Longrightarrow> same_connection s s'"
  by (simp add: source_run_def)

text \<open>What a waiting or an open source does when it updates and no message came.\<close>

definition quiet_effect :: "u32 \<Rightarrow> Source \<Rightarrow> Source_View \<times> bool" where
  "quiet_effect now s =
     (let v = source_view s in
      case src_state s of
        ATOLLA_SOURCE_STATE_WAITING \<Rightarrow>
          if now - src_first_borrow_time s > src_disconnect_timeout_ms s
          then (view_fails err_borrow_timeout v, False)
          else (v, now - src_last_borrow_time s > src_retry_timeout_ms s)
      | ATOLLA_SOURCE_STATE_OPEN \<Rightarrow>
          (if now - the (src_last_recv_lent_time s) \<ge> src_disconnect_timeout_ms s
           then view_fails err_connection_lost v else v, False)
      | ATOLLA_SOURCE_STATE_ERROR \<Rightarrow> (v, False))"

lemma source_fail_view [simp]:
  "source_view (source_fail s msg) = view_fails msg (source_view s)"
  "src_state (source_fail s msg) = ATOLLA_SOURCE_STATE_ERROR"
  "src_next_frame_idx (source_fail s msg) = src_next_frame_idx s"
  by (simp_all add: source_fail_def source_view_def view_fails_def)

lemma cv_state_view [simp]: "cv_state (source_view s) = src_state s"
  by (simp add: source_view_def)

lemma timers_quiet:
  assumes ok: "source_ok s w" and whole: "sends_whole (os w)"
  defines "q \<equiv> quiet_effect (clock (os w) (tick w)) s"
  shows "returns (bind_res (source_manage_borrow_packet_loss s w) (\<lambda>(s, w). source_ensure_lent_resent s w))
    (\<lambda>(s', w'). source_view s' = fst q \<and> src_next_frame_idx s' = src_next_frame_idx s \<and>
      source_run (if snd q then [Sent (socket_handle (src_sock s)) None (encode (borrow_message s))] else [])
        (s, w) (s', w') \<and>
      (src_state s' = ATOLLA_SOURCE_STATE_WAITING \<longrightarrow> tick w \<le> tick w' \<and> tick w' \<le> tick w + 3))"
proof -
  from source_manage_borrow_effect [OF ok whole] obtain s1 w1 where
    m: "source_manage_borrow_packet_loss s w = Inr (s1, w1)"
    and m_post: "if src_state s = ATOLLA_SOURCE_STATE_WAITING \<and>
        clock (os w) (tick w) - src_first_borrow_time s > src_disconnect_timeout_ms s
      then source_run [] (s, w) (s1, w1) \<and> s1 = source_fail s err_borrow_timeout
      else if src_state s = ATOLLA_SOURCE_STATE_WAITING \<and>
        clock (os w) (tick w) - src_last_borrow_time s > src_retry_timeout_ms s
      then source_run [Sent (socket_handle (src_sock s)) None (encode (borrow_message s))] (s, w) (s1, w1) \<and>
        source_view s1 = source_view s \<and> tick w1 = tick w + 3 \<and>
        src_next_frame_idx s1 = src_next_frame_idx s
      else source_run [] (s, w) (s1, w1) \<and> s1 = s \<and> tick w \<le> tick w1 \<and> tick w1 \<le> tick w + 1"
    by (auto simp: returns_iff)
  show ?thesis
  proof (cases "src_state s = ATOLLA_SOURCE_STATE_OPEN")
    case True
    then have "source_manage_borrow_packet_loss s w = Inr (s, w)"
      by (simp add: source_manage_borrow_packet_loss_def)
    with source_ensure_lent_effect [OF ok] True show ?thesis
      by (auto simp: q_def quiet_effect_def Let_def elim!: returns_mono)
  next
    case False
    have view: "source_view s1 = fst q" "src_next_frame_idx s1 = src_next_frame_idx s"
      and run: "source_run (if snd q then [Sent (socket_handle (src_sock s)) None (encode (borrow_message s))] else [])
        (s, w) (s1, w1)"
      and tick: "src_state s1 = ATOLLA_SOURCE_STATE_WAITING \<longrightarrow> tick w \<le> tick w1 \<and> tick w1 \<le> tick w + 3"
      using m_post False
      by (auto simp: q_def quiet_effect_def Let_def split: if_splits AtollaSourceState.splits)
    have "src_state s1 \<noteq> ATOLLA_SOURCE_STATE_OPEN"
    proof -
      have "src_state s1 = cv_state (fst q)" using view(1) [symmetric] by simp
      then show ?thesis using False by (auto simp: q_def quiet_effect_def Let_def view_fails_def
            split: AtollaSourceState.splits)
    qed
    then have "source_ensure_lent_resent s1 w1 = Inr (s1, w1)"
      by (simp add: source_ensure_lent_resent_def)
    with m view run tick show ?thesis by simp
  qed
qed

lemma quiet_effect_reaches: "source_reaches (src_state s) (cv_state (fst (quiet_effect now s)))"
  by (cases "src_state s") (auto simp: quiet_effect_def Let_def view_fails_def intro: source_transition.intros)

definition borrow_request :: "bool \<Rightarrow> Source \<Rightarrow> os_event list" where
  "borrow_request due s =
     (if due then [Sent (socket_handle (src_sock s)) None (encode (borrow_message s))] else [])"

text \<open>An update handles the messages that came, then the timers.\<close>

definition update_effect :: "message list \<Rightarrow> u32 \<Rightarrow> Source \<Rightarrow> os_event list \<Rightarrow> Source \<Rightarrow> bool" where
  "update_effect ms now s out s' \<longleftrightarrow> (\<exists>s1. heard ms s s1 \<and> (ms = [] \<longrightarrow> s1 = s) \<and>
     source_view s' = fst (quiet_effect now s1) \<and> out = borrow_request (snd (quiet_effect now s1)) s1)"

lemma update_effect_reaches:
  assumes "update_effect ms now s out s'"
  shows "source_reaches (src_state s) (src_state s')"
proof -
  from assms obtain s1 where s1: "source_view s1 = messages_effect ms (source_view s)"
    "source_view s' = fst (quiet_effect now s1)"
    by (auto simp: update_effect_def heard_def)
  have "source_reaches (src_state s) (src_state s1)"
    using messages_effect_reaches [of "source_view s" ms] arg_cong [OF s1(1), of cv_state] by simp
  also have "source_reaches (src_state s1) (src_state s')"
    using quiet_effect_reaches [of s1 now] arg_cong [OF s1(2), of cv_state] by simp
  finally show ?thesis .
qed

lemma source_update_effect:
  assumes ok: "source_ok s w" and whole: "sends_whole (os w)" and arr: "arriving source_recv_buf_len w ms"
  shows "returns (source_update s w) (\<lambda>(s', w'). \<exists>t out.
    update_effect ms (clock (os w) t) s out s' \<and> source_run out (s, w) (s', w') \<and>
    src_next_frame_idx s' = src_next_frame_idx s \<and>
    (ms = [] \<longrightarrow> t = Suc (tick w)) \<and>
    (ms = [] \<and> src_state s' = ATOLLA_SOURCE_STATE_WAITING \<longrightarrow>
       tick w \<le> tick w' \<and> tick w' \<le> tick w + 4))"
proof -
  from source_receive_effect [OF ok arr] obtain s1 w1 where
    recv: "source_receive s w = Inr (s1, w1)" and heard: "heard ms s s1"
    and run: "source_run [] (s, w) (s1, w1)" and none: "ms = [] \<longrightarrow> s1 = s \<and> tick w1 = Suc (tick w)"
    by (auto simp: returns_iff)
  note ok1 = source_run_ok [OF run] and os1 = source_run_os [OF run]
  have idx: "src_next_frame_idx s1 = src_next_frame_idx s"
    using heard by (simp add: heard_def only_stateD)
  let ?q = "quiet_effect (clock (os w) (tick w1)) s1"
  have whole1: "sends_whole (os w1)" using whole os1 by simp
  have "update_effect ms (clock (os w) (tick w1)) s (borrow_request (snd ?q) s1) s'"
    if "source_view s' = fst ?q" for s'
    using heard none that by (auto simp: update_effect_def)
  moreover have "source_run (borrow_request (snd ?q) s1) (s, w) x"
    if "source_run (borrow_request (snd ?q) s1) (s1, w1) x" for x
    using source_run_trans [OF run, of "borrow_request (snd ?q) s1"] that by (cases x) auto
  ultimately show ?thesis
    using timers_quiet [OF ok1 whole1] none idx
    unfolding source_update_def recv bind_res_simps os1 split_conv borrow_request_def [symmetric]
    by (elim returns_mono) (auto intro!: exI [of _ "tick w1"] exI [of _ "borrow_request (snd ?q) s1"])
qed

section \<open>Waiting for the connection\<close>

text \<open>
  A source that still waits after an update heard nothing, and its deadline had not passed.
\<close>

lemma message_effect_leaves_waiting:
  "cv_state (message_effect m v) \<noteq> ATOLLA_SOURCE_STATE_WAITING"
  by (cases m) (auto simp: view_fails_def)

lemma still_waiting:
  assumes "update_effect ms now s out s'" "src_state s' = ATOLLA_SOURCE_STATE_WAITING"
  shows "ms = []" "src_state s = ATOLLA_SOURCE_STATE_WAITING"
    "now - src_first_borrow_time s \<le> src_disconnect_timeout_ms s"
proof -
  from assms(1) obtain s1 where s1: "source_view s1 = messages_effect ms (source_view s)"
    "source_view s' = fst (quiet_effect now s1)" "ms = [] \<longrightarrow> s1 = s"
    by (auto simp: update_effect_def heard_def)
  have w': "cv_state (fst (quiet_effect now s1)) = ATOLLA_SOURCE_STATE_WAITING"
    using arg_cong [OF s1(2), of cv_state] assms(2) by simp
  then have "source_reaches (src_state s1) ATOLLA_SOURCE_STATE_WAITING"
    using quiet_effect_reaches [of s1 now] by simp
  then have waiting1: "src_state s1 = ATOLLA_SOURCE_STATE_WAITING" by (rule source_never_waits_again)
  show ms: "ms = []"
  proof (rule ccontr)
    assume "ms \<noteq> []"
    then obtain m ms' where "ms = m # ms'" by (cases ms) auto
    then have "source_reaches (cv_state (message_effect m (source_view s))) (src_state s1)"
      using messages_effect_reaches [of "message_effect m (source_view s)" ms']
        arg_cong [OF s1(1), of cv_state] by (simp add: messages_effect_def)
    with waiting1 have "cv_state (message_effect m (source_view s)) = ATOLLA_SOURCE_STATE_WAITING"
      by (simp add: source_never_waits_again)
    then show False using message_effect_leaves_waiting by blast
  qed
  with s1(3) have "s1 = s" by simp
  with waiting1 w' show "src_state s = ATOLLA_SOURCE_STATE_WAITING"
    "now - src_first_borrow_time s \<le> src_disconnect_timeout_ms s"
    by (auto simp: quiet_effect_def Let_def view_fails_def split: if_splits)
qed

text \<open>
  The environment a source can work in: datagrams go out whole, only datagrams of the protocol
  come in, and there is memory.
\<close>

definition source_env :: "world \<Rightarrow> bool" where
  "source_env w \<longleftrightarrow> sends_whole (os w) \<and> polite source_recv_buf_len (os w) \<and> (\<forall>b. \<not> oom w b)"

lemma source_env_run: "source_env w \<Longrightarrow> source_run out (s, w) (s', w') \<Longrightarrow> source_env w'"
  by (auto simp: source_env_def source_run_def sent_os)

text \<open>
  The clock passes the deadline of a source: at some point \<open>T\<close> it is past it, and it stays so
  for five readings. One round of the loop makes at most five system calls, so that a reading of
  the source falls into that window even where the clock wraps around later.
\<close>

definition deadline_passes :: "Source \<Rightarrow> os \<Rightarrow> nat \<Rightarrow> bool" where
  "deadline_passes s sys T \<longleftrightarrow> (\<forall>t. T \<le> t \<and> t < T + 5 \<longrightarrow>
     clock sys t - src_first_borrow_time s > src_disconnect_timeout_ms s)"

lemma source_run_sleep:
  assumes "source_ok s w"
  shows "source_run [Slept (ms * 1000)] (s, w) (s, time_sleep ms w)"
  using assms source_memory_shape [of s w "time_sleep ms w"]
  by (simp add: source_run_def source_ok_def time_sleep_def sent_def delivered_def shape_def)

lemma source_update_run:
  assumes "source_ok s w" "source_env w"
  shows "returns (source_update s w) (\<lambda>(s', w'). (\<exists>out. source_run out (s, w) (s', w')) \<and>
    source_reaches (src_state s) (src_state s') \<and> src_next_frame_idx s' = src_next_frame_idx s \<and>
    (src_state s' = ATOLLA_SOURCE_STATE_WAITING \<longrightarrow>
       src_state s = ATOLLA_SOURCE_STATE_WAITING \<and> tick w \<le> tick w' \<and> tick w' \<le> tick w + 4 \<and>
       clock (os w) (Suc (tick w)) - src_first_borrow_time s \<le> src_disconnect_timeout_ms s))"
proof -
  from assms(2) obtain ms where "arriving source_recv_buf_len w ms" and whole: "sends_whole (os w)"
    unfolding source_env_def using polite_arriving by blast
  from source_update_effect [OF assms(1) whole this(1)] show ?thesis
    by (auto dest: update_effect_reaches still_waiting elim!: returns_mono)
qed

lemma await_returns:
  assumes ok: "source_ok s w" and env: "source_env w"
    and T: "tick w \<le> T" "deadline_passes s (os w) T" and rounds: "T + 7 \<le> rounds"
  shows "returns (source_await_make_completion rounds s w) (\<lambda>(s', w').
    src_state s' \<noteq> ATOLLA_SOURCE_STATE_WAITING \<and> source_reaches (src_state s) (src_state s') \<and>
    (\<exists>out. source_run out (s, w) (s', w')))"
  unfolding source_await_make_completion_def
proof (rule loop_returns [where
    I = "\<lambda>(s', w'). source_reaches (src_state s) (src_state s') \<and> (\<exists>out. source_run out (s, w) (s', w')) \<and>
      (src_state s' = ATOLLA_SOURCE_STATE_WAITING \<longrightarrow> tick w' \<le> T + 2)" and
    f = "\<lambda>(s', w'). if src_state s' = ATOLLA_SOURCE_STATE_WAITING then Suc (T + 5 - tick w') else 0"])
  show "case (s, w) of (s', w') \<Rightarrow> source_reaches (src_state s) (src_state s') \<and>
      (\<exists>out. source_run out (s, w) (s', w')) \<and>
      (src_state s' = ATOLLA_SOURCE_STATE_WAITING \<longrightarrow> tick w' \<le> T + 2)"
    using ok T(1) by (auto intro: source_run_refl)
  show "(case (s, w) of (s', w') \<Rightarrow> if src_state s' = ATOLLA_SOURCE_STATE_WAITING
      then Suc (T + 5 - tick w') else 0) < rounds"
  proof -
    have "Suc (T + 5 - tick w) < rounds" using rounds by linarith
    then show ?thesis by simp
  qed
next
  fix x
  assume "case x of (s', w') \<Rightarrow> source_reaches (src_state s) (src_state s') \<and>
      (\<exists>out. source_run out (s, w) (s', w')) \<and>
      (src_state s' = ATOLLA_SOURCE_STATE_WAITING \<longrightarrow> tick w' \<le> T + 2)"
  then obtain s1 w1 out where x: "x = (s1, w1)" and reach: "source_reaches (src_state s) (src_state s1)"
    and run: "source_run out (s, w) (s1, w1)"
    and tick: "src_state s1 = ATOLLA_SOURCE_STATE_WAITING \<longrightarrow> tick w1 \<le> T + 2"
    by (cases x) auto
  show "returns (await_round x) (\<lambda>r. case r of
      Inl s' \<Rightarrow> (case s' of (s', w') \<Rightarrow> source_reaches (src_state s) (src_state s') \<and>
        (\<exists>out. source_run out (s, w) (s', w')) \<and>
        (src_state s' = ATOLLA_SOURCE_STATE_WAITING \<longrightarrow> tick w' \<le> T + 2)) \<and>
        (case s' of (s', w') \<Rightarrow> if src_state s' = ATOLLA_SOURCE_STATE_WAITING then Suc (T + 5 - tick w') else 0)
        < (case x of (s', w') \<Rightarrow> if src_state s' = ATOLLA_SOURCE_STATE_WAITING then Suc (T + 5 - tick w') else 0)
    | Inr r \<Rightarrow> (case r of (s', w') \<Rightarrow> src_state s' \<noteq> ATOLLA_SOURCE_STATE_WAITING \<and>
        source_reaches (src_state s) (src_state s') \<and> (\<exists>out. source_run out (s, w) (s', w'))))"
  proof (cases "src_state s1 = ATOLLA_SOURCE_STATE_WAITING")
    case False
    then show ?thesis using reach run by (auto simp: x await_round_def)
  next
    case True
    let ?w = "time_sleep 5 w1"
    from source_run_trans [OF run source_run_sleep [OF source_run_ok [OF run]], of 5]
    obtain out1 where run1: "source_run out1 (s, w) (s1, ?w)" by blast
    note env1 = source_env_run [OF env run1]
    have sys: "os ?w = os w" "tick ?w = Suc (tick w1)"
      using source_run_os [OF run] by (simp_all add: time_sleep_def)
    have same: "src_first_borrow_time s1 = src_first_borrow_time s"
      "src_disconnect_timeout_ms s1 = src_disconnect_timeout_ms s"
      using source_run_connection [OF run] by (simp_all add: same_connection_def)
    have next_tick: "tick w' \<le> T + 2 \<and> tick w1 < tick w'"
      if "tick ?w \<le> tick w'" "tick w' \<le> tick ?w + 4"
        "clock (os ?w) (Suc (tick ?w)) - src_first_borrow_time s1 \<le> src_disconnect_timeout_ms s1" for w' :: world
    proof -
      have "\<not> (T \<le> Suc (tick ?w) \<and> Suc (tick ?w) < T + 5)"
        using T(2) that(3) unfolding deadline_passes_def sys same by (meson not_le)
      then show ?thesis using that tick True sys by auto
    qed
    have "returns (source_update s1 ?w) (\<lambda>(s', w'). source_reaches (src_state s) (src_state s') \<and>
        (\<exists>out. source_run out (s, w) (s', w')) \<and>
        (src_state s' = ATOLLA_SOURCE_STATE_WAITING \<longrightarrow> tick w' \<le> T + 2 \<and> tick w1 < tick w'))"
      using reach source_run_trans [OF run1] next_tick
      by (auto intro!: returns_mono [OF source_update_run [OF source_run_ok [OF run1] env1]])
    then show ?thesis
      using True tick by (auto simp: x await_round_def blocking_make_refresh_interval_def elim!: returns_mono)
  qed
qed

end
