(* ===== verification/Source_Api.thy ===== *)
theory Source_Api
  imports Source_Protocol
begin

text \<open>
  The functions of \<^verbatim>\<open>source.h\<close>: pacing, putting frames, making and freeing a source, and every
  run of calls on a source.
\<close>

section \<open>Pacing\<close>

text \<open>
  \<open>between r (s, w) (s', w')\<close>: some calls of the source lie between the two states; they only
  ran its protocol.
\<close>

definition asks :: "os_event \<Rightarrow> bool" where
  "asks e \<longleftrightarrow> (\<exists>h i fl bl. e = Sent h None (encode (Borrow i fl bl)))"

definition hears_lent :: "os \<Rightarrow> bool" where
  "hears_lent sys \<longleftrightarrow> (\<exists>t d addr ms i. sys_recvfrom sys t = Recv_data d addr \<and> parse d = Some ms \<and> Lent i \<in> set ms)"

definition between :: "Source \<times> world \<Rightarrow> Source \<times> world \<Rightarrow> bool" where
  "between = (\<lambda>(s, w) (s', w').
     (\<exists>out. source_run out (s, w) (s', w') \<and> list_all asks out) \<and> source_reaches (src_state s) (src_state s') \<and>
     src_next_frame_idx s' = src_next_frame_idx s \<and>
     (src_state s' = ATOLLA_SOURCE_STATE_OPEN \<longrightarrow> src_state s = ATOLLA_SOURCE_STATE_OPEN \<or> hears_lent (os w)))"

lemma between_refl: "source_ok s w \<Longrightarrow> between (s, w) (s, w)"
  by (auto simp: between_def intro!: exI [of _ "[]"] source_run_refl)

lemma between_trans:
  assumes "between x y" "between y z"
  shows "between x z"
proof -
  obtain s w s' w' s'' w'' where [simp]: "x = (s, w)" "y = (s', w')" "z = (s'', w'')" by (cases x; cases y; cases z) auto
  from assms obtain out out' where "source_run out (s, w) (s', w')" "source_run out' (s', w') (s'', w'')"
    "list_all asks out" "list_all asks out'"
    by (auto simp: between_def)
  then have "source_run (out @ out') (s, w) (s'', w'')" "list_all asks (out @ out')" "os w' = os w"
    by (auto intro: source_run_trans simp: source_run_os)
  with assms show ?thesis unfolding between_def by auto
qed

lemma between_ok: "between x (s, w) \<Longrightarrow> source_ok s w"
  by (auto simp: between_def source_run_def split: prod.splits)

lemma between_env: "source_env w0 \<Longrightarrow> between (s0, w0) (s, w) \<Longrightarrow> source_env w"
  by (auto simp: between_def intro: source_env_run)

lemma messages_effect_open:
  assumes "cv_state (messages_effect ms v) = ATOLLA_SOURCE_STATE_OPEN"
  shows "cv_state v = ATOLLA_SOURCE_STATE_OPEN \<or> (\<exists>i. Lent i \<in> set ms)"
proof (cases ms)
  case Nil
  with assms show ?thesis by (simp add: messages_effect_def)
next
  case (Cons m ms')
  then show ?thesis using messages_effect_error [of m ms v] assms by fastforce
qed

lemma asks_borrow: "asks (Sent h None (encode (borrow_message s)))"
  unfolding asks_def borrow_message_def by blast

lemma update_effect_asks: "update_effect ms now s out s' \<Longrightarrow> list_all asks out"
  by (auto simp: update_effect_def borrow_request_def asks_borrow simp del: encode.simps)

lemma update_effect_open:
  assumes "update_effect ms now s out s'" "src_state s' = ATOLLA_SOURCE_STATE_OPEN"
  shows "src_state s = ATOLLA_SOURCE_STATE_OPEN \<or> (\<exists>i. Lent i \<in> set ms)"
proof -
  from assms(1) obtain s1 where s1: "source_view s1 = messages_effect ms (source_view s)"
    "source_view s' = fst (quiet_effect now s1)"
    by (auto simp: update_effect_def heard_def)
  have "cv_state (fst (quiet_effect now s1)) = ATOLLA_SOURCE_STATE_OPEN"
    using arg_cong [OF s1(2), of cv_state] assms(2) by simp
  then have "cv_state (source_view s1) = ATOLLA_SOURCE_STATE_OPEN"
    by (auto simp: quiet_effect_def Let_def view_fails_def split: AtollaSourceState.splits if_splits)
  then show ?thesis using messages_effect_open [of ms "source_view s"] s1(1) by simp
qed

lemma source_update_between:
  assumes "source_ok s w" "source_env w"
  shows "returns (source_update s w) (between (s, w))"
proof -
  from assms(2) obtain ms where arr: "arriving source_recv_buf_len w ms" and whole: "sends_whole (os w)"
    unfolding source_env_def using polite_arriving by blast
  from arr have "Lent i \<in> set ms \<Longrightarrow> hears_lent (os w)" for i
    by (auto simp: arriving_def hears_lent_def incoming_def)
  with source_update_effect [OF assms(1) whole arr] show ?thesis
    by (auto simp: between_def dest: update_effect_reaches update_effect_asks update_effect_open elim!: returns_mono)
qed

lemma source_ok_tick: "source_ok s w \<Longrightarrow> source_ok s (w\<lparr>tick := t\<rparr>)"
  using source_memory_shape [of s w "w\<lparr>tick := t\<rparr>"] by (simp add: source_ok_def)

lemma between_tick: "between x (s, w) \<Longrightarrow> between x (s, w\<lparr>tick := t\<rparr>)"
  by (auto simp: between_def source_run_def source_ok_tick split: prod.splits)

text \<open>
  The two functions that pace a client, from the state after their update. \<open>lag\<close> is the time
  since the frame that was put last is due.
\<close>

definition ready_count :: "u32 \<Rightarrow> Source \<Rightarrow> int" where
  "ready_count now s =
     (if src_state s \<noteq> ATOLLA_SOURCE_STATE_OPEN then 0
      else if src_last_frame_time s = SOURCE_NULL_TIME then src_max_buffered_frames s
      else sint ((now - src_last_frame_time s) div src_frame_duration_ms s))"

definition ready_timeout :: "u32 \<Rightarrow> u32 \<Rightarrow> Source \<Rightarrow> int" where
  "ready_timeout now later s =
     (if src_state s \<noteq> ATOLLA_SOURCE_STATE_OPEN then -1
      else if ready_count now s > 0 \<or> src_last_frame_time s = SOURCE_NULL_TIME then 0
      else sint (src_last_frame_time s + src_frame_duration_ms s - later))"

lemma put_ready_count_effect:
  assumes "source_ok s w" "source_env w"
  shows "returns (atolla_source_put_ready_count s w) (\<lambda>(n, s', w'). between (s, w) (s', w') \<and>
    (\<exists>t. n = ready_count (clock (os w) t) s'))"
proof -
  from source_update_between [OF assms] obtain s1 w1 where up: "source_update s w = Inr (s1, w1)"
    and btw: "between (s, w) (s1, w1)" by (auto simp: returns_iff)
  then have "os w1 = os w" "src_frame_duration_ms s1 \<noteq> 0"
    by (auto simp: between_def source_run_os dest: source_run_ok simp: source_ok_def source_memory_def)
  with btw show ?thesis
    by (cases "src_state s1")
      (auto simp: atolla_source_put_ready_count_def up time_now_split u32_div_def ready_count_def
        intro: between_tick)
qed

lemma put_ready_timeout_effect:
  assumes "source_ok s w" "source_env w"
  shows "returns (atolla_source_put_ready_timeout s w) (\<lambda>(n, s', w'). between (s, w) (s', w') \<and>
    (\<exists>t. n = ready_timeout (clock (os w) t) (clock (os w) (Suc t)) s'))"
proof -
  from source_update_between [OF assms] obtain s1 w1 where up: "source_update s w = Inr (s1, w1)"
    and btw: "between (s, w) (s1, w1)" by (auto simp: returns_iff)
  then have "os w1 = os w" "src_frame_duration_ms s1 \<noteq> 0"
    by (auto simp: between_def source_run_os dest: source_run_ok simp: source_ok_def source_memory_def)
  with btw between_tick [OF btw] show ?thesis
    by (cases "src_state s1")
      (auto simp: atolla_source_put_ready_timeout_def up time_now_split u32_div_def ready_timeout_def
        ready_count_def Let_def)
qed

section \<open>Putting a frame\<close>

definition frame_message :: "Source \<Rightarrow> u8 list \<Rightarrow> message" where
  "frame_message s bs =
     Enqueue (next_msg_id (src_builder s)) (word_of_int (src_next_frame_idx s)) bs"

text \<open>The time the frame after the one just put is due.\<close>

definition last_frame_after :: "u32 \<Rightarrow> Source \<Rightarrow> u32" where
  "last_frame_after now s =
     (if src_last_frame_time s = SOURCE_NULL_TIME
      then now - word_of_int (src_max_buffered_frames s - 1) * src_frame_duration_ms s
      else src_last_frame_time s + src_frame_duration_ms s)"

definition frame_put :: "u8 list \<Rightarrow> Source \<times> world \<Rightarrow> bool \<times> Source \<times> world \<Rightarrow> bool" where
  "frame_put bs = (\<lambda>(s, w) (ok, s', w').
     source_run [Sent (socket_handle (src_sock s)) None (encode (frame_message s bs))] (s, w) (s', w') \<and>
     src_state s' = src_state s \<and>
     (if ok
      then os_log w' = os_log w @ [Sent (socket_handle (src_sock s)) None (encode (frame_message s bs))] \<and>
        src_next_frame_idx s' = (src_next_frame_idx s + 1) mod 256 \<and>
        (\<exists>t. src_last_frame_time s' = last_frame_after (clock (os w) t) s)
      else os_log w' = os_log w \<and> src_next_frame_idx s' = src_next_frame_idx s \<and>
        src_last_frame_time s' = src_last_frame_time s))"

lemma source_send_frame_puts:
  assumes ok: "source_ok s w" and env: "source_env w"
    and frame: "read_cells frame (length bs) w = Inr (map Some bs)" "length bs \<le> 65532"
  shows "returns (source_send_frame s frame (length bs) w) (frame_put bs (s, w))"
proof -
  from ok have mem: "source_memory s w" and state: "state_ok s" by (simp_all add: source_ok_def)
  from env have whole: "sends_whole (os w)" and oom: "\<not> oom w (next_block w)"
    by (simp_all add: source_env_def)
  from mem obtain kb where kb: "builder_ok (src_builder s) w" "blk_data (msg_buf (src_builder s)) = Ptr kb 0"
    by (rule source_memoryE)
  from msg_builder_enqueue_returns [OF kb(1) frame oom kb(2), of "word_of_int (src_next_frame_idx s)"]
  obtain b h k where build: "msg_builder_enqueue (src_builder s) (word_of_int (src_next_frame_idx s))
      frame (length bs) w = Inr (b, h)"
    and b: "builder_ok b h" "holds_message b (encode (frame_message s bs)) h" "changes {kb} w h"
      "blk_data (msg_buf b) = Ptr k 0" "k = kb \<or> next_block w \<le> k"
    by (fastforce simp: returns_iff frame_message_def)
  let ?ev = "Sent (socket_handle (src_sock s)) None (encode (frame_message s bs))"
  let ?s = "s\<lparr>src_builder := b\<rparr>"
  have "returns (udp_socket_send (Some (src_sock s)) (blk_data (msg_buf b)) (blk_size (msg_buf b)) h)
    (\<lambda>(r, w'). source_run [?ev] (s, w) (?s, w') \<and>
      (\<exists>e. w' = h\<lparr>tick := Suc (tick w), errno := e, os_log := os_log w @ (if res_code r = UDP_SOCKET_OK
         then [?ev] else [])\<rparr>))"
    using b kb(2) by (intro source_send_built [OF mem state whole]) auto
  then obtain r w1 where
    send: "udp_socket_send (Some (src_sock s)) (blk_data (msg_buf b)) (blk_size (msg_buf b)) h = Inr (r, w1)"
    and run: "source_run [?ev] (s, w) (?s, w1)"
    and log: "os_log w1 = os_log w @ (if res_code r = UDP_SOCKET_OK then [?ev] else [])"
    by (auto simp: returns_iff)
  have idx: "0 \<le> src_next_frame_idx s" "src_next_frame_idx s \<le> 255"
    using mem by (simp_all add: source_memory_def)
  then have smod: "(src_next_frame_idx s + 1) smod 256 = (src_next_frame_idx s + 1) mod 256"
    by (simp add: smod_int_alt_def)
  have upd: "source_run [?ev] (s, w) (?s\<lparr>src_next_frame_idx := (src_next_frame_idx s + 1) mod 256,
      src_last_frame_time := l\<rparr>, w1\<lparr>tick := t\<rparr>)" for l t
    using run source_ok_tick [OF source_run_ok [OF run], of t] pos_mod_bound [of 256 "src_next_frame_idx s + 1"]
      pos_mod_sign [of 256 "src_next_frame_idx s + 1"]
    by (simp add: source_run_def source_ok_def source_memory_def state_ok_def same_connection_def)
  have upd': "source_run [?ev] (s, w) (?s\<lparr>src_next_frame_idx := (src_next_frame_idx s + 1) mod 256,
      src_last_frame_time := l\<rparr>, w1)" for l
    using upd [of l "tick w1"] by simp
  show ?thesis
    using build send run log smod upd upd' source_run_os [OF run]
    by (auto simp: source_send_frame_def Let_def time_now_split frame_put_def last_frame_after_def)
qed

text \<open>
  A put sends its frame only if the source was open after an update, and sleeps first for as
  long as the sink has no room. It looks at the state once more while it computes the timeout,
  and sends even if the source failed then.
\<close>

definition put_effect :: "u8 list \<Rightarrow> Source \<times> world \<Rightarrow> bool \<times> Source \<times> world \<Rightarrow> bool" where
  "put_effect bs = (\<lambda>(s, w) (ok, s', w').
     \<not> ok \<and> between (s, w) (s', w') \<and> src_state s' \<noteq> ATOLLA_SOURCE_STATE_OPEN \<or>
     (\<exists>s1 w1 s2 w2 t. between (s, w) (s1, w1) \<and> src_state s1 = ATOLLA_SOURCE_STATE_OPEN \<and>
        between (s1, w1) (s2, w2) \<and>
        (let n = ready_timeout (clock (os w) t) (clock (os w) (Suc t)) s2 in
         frame_put bs (s2, if n > 0 then time_sleep (nat n) w2 else w2) (ok, s', w'))))"

text \<open>The frame of the caller: bytes of a block that is not one of the source's.\<close>

definition caller_frame :: "Source \<Rightarrow> world \<Rightarrow> nat \<Rightarrow> u8 list \<Rightarrow> bool" where
  "caller_frame s w ub bs \<longleftrightarrow> ub < next_block w \<and> ub \<noteq> block_of (src_recv_buf s) \<and>
     ub \<noteq> src_block s \<and> blocks w ub = Some (map Some bs)"

lemma caller_frame_run:
  "caller_frame s w ub bs \<Longrightarrow> source_run out (s, w) (s', w') \<Longrightarrow> caller_frame s' w' ub bs"
  by (auto simp: caller_frame_def source_run_def same_connection_def)

lemma caller_frame_between:
  "caller_frame s w ub bs \<Longrightarrow> between (s, w) (s', w') \<Longrightarrow> caller_frame s' w' ub bs"
  by (auto simp: between_def intro: caller_frame_run)

lemma caller_frame_read:
  "caller_frame s w ub bs \<Longrightarrow> n \<le> length bs \<Longrightarrow> read_cells (Ptr ub 0) n w = Inr (map Some (take n bs))"
  by (simp add: caller_frame_def read_cells_block take_map)

lemma atolla_source_put_effect:
  assumes ok: "source_ok s w" and env: "source_env w"
    and frame: "caller_frame s w ub bs" "n \<le> length bs" "n \<le> 65532"
  shows "returns (atolla_source_put s (Ptr ub 0) n w) (put_effect (take n bs) (s, w))"
proof -
  from source_update_between [OF ok env] obtain s0 w0 where up0: "source_update s w = Inr (s0, w0)"
    and b0: "between (s, w) (s0, w0)" by (auto simp: returns_iff)
  from source_update_between [OF between_ok [OF b0] between_env [OF env b0]] obtain s1 w1 where
    up1: "source_update s0 w0 = Inr (s1, w1)" and "between (s0, w0) (s1, w1)" by (auto simp: returns_iff)
  with b0 have b1: "between (s, w) (s1, w1)" by (blast intro: between_trans)
  show ?thesis
  proof (cases "src_state s1 = ATOLLA_SOURCE_STATE_OPEN")
    case False
    with up0 up1 b1 show ?thesis
      by (simp add: atolla_source_put_def atolla_source_state_def put_effect_def)
  next
    case True
    from put_ready_timeout_effect [OF between_ok [OF b1] between_env [OF env b1]] obtain k s2 w2 t where
      time: "atolla_source_put_ready_timeout s1 w1 = Inr (k, s2, w2)" and b2: "between (s1, w1) (s2, w2)"
      and "k = ready_timeout (clock (os w1) t) (clock (os w1) (Suc t)) s2"
      by (auto simp: returns_iff)
    moreover have "os w1 = os w" using b1 by (auto simp: between_def source_run_os)
    ultimately have k: "k = ready_timeout (clock (os w) t) (clock (os w) (Suc t)) s2" by simp
    note b12 = between_trans [OF b1 b2]
    let ?w = "if k > 0 then time_sleep (nat k) w2 else w2"
    have ok2: "source_ok s2 w2" using between_ok [OF b12] .
    have "\<exists>out. source_run out (s2, w2) (s2, ?w)"
      using source_run_sleep [OF ok2, of "nat k"] source_run_refl [OF ok2] by auto
    then obtain out where run: "source_run out (s2, w2) (s2, ?w)" by blast
    have "caller_frame s2 ?w ub bs"
      by (rule caller_frame_run [OF caller_frame_between [OF frame(1) b12] run])
    then have read: "read_cells (Ptr ub 0) (length (take n bs)) ?w = Inr (map Some (take n bs))"
      using caller_frame_read [of s2 ?w ub bs n] frame(2) by simp
    have "returns (source_send_frame s2 (Ptr ub 0) (length (take n bs)) ?w) (frame_put (take n bs) (s2, ?w))"
      using frame(3) by (intro source_send_frame_puts source_run_ok [OF run] read
          source_env_run [OF between_env [OF env b12] run]) simp
    moreover have "length (take n bs) = n" using frame(2) by simp
    ultimately have send: "returns (source_send_frame s2 (Ptr ub 0) n ?w) (frame_put (take n bs) (s2, ?w))"
      by (simp only:)
    have "put_effect (take n bs) (s, w) x" if "frame_put (take n bs) (s2, ?w) x" for x
      using that b1 True b2 unfolding put_effect_def Let_def k by (cases x) blast
    then have "returns (source_send_frame s2 (Ptr ub 0) n ?w) (put_effect (take n bs) (s, w))"
      by (intro returns_mono [OF send])
    then show ?thesis
      using up0 up1 True time by (simp add: atolla_source_put_def atolla_source_state_def Let_def)
  qed
qed

text \<open>What a put sent, and how it counts.\<close>

lemma put_accounts:
  assumes ok: "source_ok s w" and env: "source_env w"
    and frame: "caller_frame s w ub bs" "n \<le> length bs" "n \<le> 65532"
  shows "returns (atolla_source_put s (Ptr ub 0) n w) (\<lambda>(ok, s', w').
    if ok
    then src_next_frame_idx s' = (src_next_frame_idx s + 1) mod 256 \<and> src_state s \<noteq> ATOLLA_SOURCE_STATE_ERROR \<and>
      (\<exists>log i. os_log w' = os_log w @ log @ [Sent (socket_handle (src_sock s)) None
         (encode (Enqueue i (word_of_int (src_next_frame_idx s)) (take n bs)))])
    else src_next_frame_idx s' = src_next_frame_idx s \<and>
      (accepts_all (os w) \<longrightarrow> src_state s' \<noteq> ATOLLA_SOURCE_STATE_OPEN))"
proof (rule returns_mono [OF atolla_source_put_effect [OF ok env frame]], clarify)
  fix ok s' w'
  assume eff: "put_effect (take n bs) (s, w) (ok, s', w')"
  then consider (closed) "\<not> ok" "between (s, w) (s', w')" "src_state s' \<noteq> ATOLLA_SOURCE_STATE_OPEN"
    | (put) s1 w1 s2 w2 k where "between (s, w) (s1, w1)" "src_state s1 = ATOLLA_SOURCE_STATE_OPEN"
        "between (s1, w1) (s2, w2)"
        "frame_put (take n bs) (s2, if k > 0 then time_sleep (nat k) w2 else w2) (ok, s', w')"
    unfolding put_effect_def Let_def split_conv by blast
  then show "if ok
    then src_next_frame_idx s' = (src_next_frame_idx s + 1) mod 256 \<and> src_state s \<noteq> ATOLLA_SOURCE_STATE_ERROR \<and>
      (\<exists>log i. os_log w' = os_log w @ log @ [Sent (socket_handle (src_sock s)) None
         (encode (Enqueue i (word_of_int (src_next_frame_idx s)) (take n bs)))])
    else src_next_frame_idx s' = src_next_frame_idx s \<and>
      (accepts_all (os w) \<longrightarrow> src_state s' \<noteq> ATOLLA_SOURCE_STATE_OPEN)"
  proof cases
    case closed
    then show ?thesis by (simp add: between_def)
  next
    case put
    let ?w = "if k > 0 then time_sleep (nat k) w2 else w2"
    note b = between_trans [OF put(1,3)]
    from b obtain out where "source_run out (s, w) (s2, w2)" by (auto simp: between_def)
    then have same: "src_sock s2 = src_sock s" "os w2 = os w"
      using source_run_connection source_run_os by (auto simp: same_connection_def)
    then have os: "os ?w = os w" by (simp add: time_sleep_def)
    have idx: "src_next_frame_idx s2 = src_next_frame_idx s" using b by (simp add: between_def)
    have "src_state s \<noteq> ATOLLA_SOURCE_STATE_ERROR"
      using put(1,2) by (auto simp: between_def dest: source_error_absorbing)
    moreover have "\<not> accepts_all (os w)" if "\<not> ok"
    proof -
      have "sent [Sent (socket_handle (src_sock s2)) None (encode (frame_message s2 (take n bs)))] ?w w'"
        "os_log w' = os_log ?w"
        using put(4) that by (auto simp: frame_put_def source_run_def)
      then show ?thesis unfolding sent_def delivered_def os by auto
    qed
    moreover have "\<exists>log i. os_log w' = os_log w @ log @ [Sent (socket_handle (src_sock s)) None
         (encode (Enqueue i (word_of_int (src_next_frame_idx s)) (take n bs)))]" if ok
    proof -
      have "\<exists>log. os_log w2 = os_log w @ log" using b by (auto simp: between_def source_run_def sent_def)
      then have "\<exists>log. os_log ?w = os_log w @ log" by (auto simp: time_sleep_def)
      then obtain log where "os_log ?w = os_log w @ log" by blast
      moreover have "os_log w' = os_log ?w @ [Sent (socket_handle (src_sock s2)) None (encode (frame_message s2 (take n bs)))]"
        using put(4) that by (simp add: frame_put_def)
      ultimately show ?thesis unfolding frame_message_def idx same by auto
    qed
    moreover have "src_next_frame_idx s' = (if ok then (src_next_frame_idx s + 1) mod 256 else src_next_frame_idx s)"
      using put(4) idx by (auto simp: frame_put_def)
    ultimately show ?thesis by simp
  qed
qed

section \<open>Every run of calls\<close>

datatype source_call = Get_source_state | Get_source_error | Get_ready_count | Get_ready_timeout | Put nat

text \<open>The client puts the first bytes of its block \<open>ub\<close>.\<close>

fun source_api :: "nat \<Rightarrow> source_call \<Rightarrow> Source \<times> world \<Rightarrow> (Source \<times> world) result" where
  "source_api ub Get_source_state (s, w) =
     bind_res (atolla_source_state s w) (\<lambda>(st, s, w). Inr (s, w))"
| "source_api ub Get_source_error (s, w) = bind_res (atolla_source_error_msg s) (\<lambda>msg. Inr (s, w))"
| "source_api ub Get_ready_count (s, w) =
     bind_res (atolla_source_put_ready_count s w) (\<lambda>(n, s, w). Inr (s, w))"
| "source_api ub Get_ready_timeout (s, w) =
     bind_res (atolla_source_put_ready_timeout s w) (\<lambda>(n, s, w). Inr (s, w))"
| "source_api ub (Put n) (s, w) =
     bind_res (atolla_source_put s (Ptr ub 0) n w) (\<lambda>(ok, s, w). Inr (s, w))"

text \<open>
  Between calls a source is well formed, has moved on from its first state \<open>st\<close> along the state
  machine only, and has changed nothing of the memory \<open>m\<close> below \<open>nb\<close>, where its client lives.
\<close>

definition source_object :: "nat \<Rightarrow> nat \<Rightarrow> AtollaSourceState \<Rightarrow> nat \<Rightarrow> (nat \<Rightarrow> cell list option) \<Rightarrow>
    Source \<times> world \<Rightarrow> bool" where
  "source_object ub n st nb m = (\<lambda>(s, w). source_ok s w \<and> source_env w \<and>
     (\<exists>bs. caller_frame s w ub bs \<and> length bs = n) \<and> source_reaches st (src_state s) \<and>
     nb \<le> src_block s \<and> nb \<le> block_of (src_recv_buf s) \<and> nb \<le> next_block w \<and>
     (\<forall>b. b < nb \<longrightarrow> blocks w b = m b))"

fun source_call_allowed :: "nat \<Rightarrow> source_call \<Rightarrow> bool" where
  "source_call_allowed n (Put m) \<longleftrightarrow> m \<le> n \<and> m \<le> 65532"
| "source_call_allowed n c \<longleftrightarrow> True"

lemma source_object_run:
  assumes "source_object ub n st nb m (s, w)" "source_run out (s, w) (s', w')"
    and "source_reaches (src_state s) (src_state s')"
  shows "source_object ub n st nb m (s', w')"
proof -
  from assms(1) obtain bs where "source_env w" "caller_frame s w ub bs" "length bs = n"
    and nb: "nb \<le> src_block s" "nb \<le> block_of (src_recv_buf s)" "nb \<le> next_block w"
      "\<forall>b. b < nb \<longrightarrow> blocks w b = m b" "source_reaches st (src_state s)"
    by (auto simp: source_object_def)
  with assms(2) have "source_ok s' w'" "source_env w'" "caller_frame s' w' ub bs"
    by (auto intro: source_run_ok source_env_run caller_frame_run)
  moreover have "nb \<le> src_block s'" "nb \<le> block_of (src_recv_buf s')" "nb \<le> next_block w'"
    "\<forall>b. b < nb \<longrightarrow> blocks w' b = m b"
    using assms(2) nb by (auto simp: source_run_def same_connection_def)
  ultimately show ?thesis
    using \<open>length bs = n\<close> rtranclp_trans [OF nb(5) assms(3)] by (auto simp: source_object_def)
qed

lemma source_object_between: "source_object ub n st nb m x \<Longrightarrow> between x y \<Longrightarrow> source_object ub n st nb m y"
  by (cases x; cases y) (auto simp: between_def intro: source_object_run)

lemma source_object_put:
  assumes "source_object ub n st nb m x" "put_effect bs x (ok, y)"
  shows "source_object ub n st nb m y"
proof -
  obtain s w s' w' where x: "x = (s, w)" and y: "y = (s', w')" by (cases x; cases y) auto
  have sent: "source_object ub n st nb m y"
    if b: "between x (s2, w2)"
      and put: "frame_put bs (s2, if k > 0 then time_sleep (nat k) w2 else w2) (ok, s', w')" for s2 w2 k
  proof -
    let ?w = "if k > 0 then time_sleep (nat k) w2 else w2"
    have "source_object ub n st nb m (s2, w2)" using assms(1) b by (rule source_object_between)
    moreover have "\<exists>out. source_run out (s2, w2) (s2, ?w)"
      using source_run_sleep [OF between_ok [OF b], of "nat k"] source_run_refl [OF between_ok [OF b]]
      by auto
    ultimately have obj: "source_object ub n st nb m (s2, ?w)" using source_object_run by blast
    from put obtain out where "source_run out (s2, ?w) (s', w')" "src_state s' = src_state s2"
      unfolding frame_put_def split_conv by blast
    then show ?thesis unfolding y by (intro source_object_run [OF obj]) simp_all
  qed
  from assms(2) have "between x y \<or> (\<exists>s1 w1 s2 w2 k. between x (s1, w1) \<and> between (s1, w1) (s2, w2) \<and>
      frame_put bs (s2, if k > 0 then time_sleep (nat k) w2 else w2) (ok, s', w'))"
    unfolding put_effect_def x y split_conv Let_def by blast
  then show ?thesis
    using sent between_trans source_object_between [OF assms(1)] by blast
qed

lemma source_api_ends:
  assumes inv: "source_object ub n st nb m x" and allowed: "source_call_allowed n c"
  shows "ends {} (source_api ub c x) (source_object ub n st nb m)"
proof -
  obtain s w where x: "x = (s, w)" by fastforce
  with inv obtain bs where ok: "source_ok s w" and env: "source_env w"
    and frame: "caller_frame s w ub bs" "length bs = n"
    by (auto simp: source_object_def)
  have keep: "source_object ub n st nb m y" if "between (s, w) y" for y
    using source_object_between [OF inv] that x by blast
  show ?thesis
  proof (cases c)
    case Get_source_state
    with source_update_between [OF ok env] show ?thesis
      by (auto simp: x ends_returns atolla_source_state_def intro: keep elim!: returns_mono)
  next
    case Get_source_error
    then show ?thesis
      using inv ok by (auto simp: x atolla_source_error_msg_def source_ok_def state_ok_def)
  next
    case Get_ready_count
    with put_ready_count_effect [OF ok env] show ?thesis
      by (auto simp: x ends_returns intro: keep elim!: returns_mono)
  next
    case Get_ready_timeout
    with put_ready_timeout_effect [OF ok env] show ?thesis
      by (auto simp: x ends_returns intro: keep elim!: returns_mono)
  next
    case (Put m)
    with allowed frame(2) have "m \<le> length bs" "m \<le> 65532" by auto
    from atolla_source_put_effect [OF ok env frame(1) this] show ?thesis
      using source_object_put [OF inv [unfolded x]]
      by (auto simp: x ends_returns Put elim!: returns_mono)
  qed
qed

interpretation source: guarded_object "source_api ub" "source_object ub n st nb m" "source_call_allowed n" "{}" for ub n st nb m
  by unfold_locales (rule source_api_ends)

section \<open>Making a source\<close>

text \<open>
  A clock that runs: from every reading on, some later window of five readings lies more than
  \<open>d\<close> milliseconds ahead.
\<close>

definition clock_runs :: "os \<Rightarrow> u32 \<Rightarrow> bool" where
  "clock_runs sys d \<longleftrightarrow> (\<forall>t0 u. \<exists>T. u \<le> T \<and> (\<forall>t. T \<le> t \<and> t < T + 5 \<longrightarrow> clock sys t - clock sys t0 > d))"

definition source_spec_ok :: "AtollaSourceSpec \<Rightarrow> bool" where
  "source_spec_ok spec \<longleftrightarrow> 0 \<le> spec_sink_port spec \<and> spec_sink_port spec < 65536 \<and>
     (word_of_int (spec_frame_duration_ms spec) :: u32) \<noteq> 0"

text \<open>The disconnect timeout after the default was filled in.\<close>

definition spec_deadline :: "AtollaSourceSpec \<Rightarrow> u32" where
  "spec_deadline spec = (if spec_disconnect_timeout_ms spec = 0 then disconnect_timeout_ms_default
     else word_of_int (spec_disconnect_timeout_ms spec))"

text \<open>
  \<open>made spec w\<close>: what \<^verbatim>\<open>atolla_source_make\<close> guarantees whether it blocks or not. A source that
  waits has asked for the sink; any other has an error message.
\<close>

definition made :: "AtollaSourceSpec \<Rightarrow> world \<Rightarrow> Source \<times> world \<Rightarrow> bool" where
  "made spec w = (\<lambda>(s, w').
     source_ok s w' \<and> source_env w' \<and> os w' = os w \<and>
     src_disconnect_timeout_ms s = spec_deadline spec \<and>
     next_block w \<le> src_block s \<and> next_block w \<le> block_of (src_recv_buf s) \<and> next_block w \<le> next_block w' \<and>
     (\<exists>t0. src_state s = ATOLLA_SOURCE_STATE_WAITING \<longrightarrow> src_first_borrow_time s = clock (os w) t0) \<and>
     (\<forall>b. b < next_block w \<longrightarrow> blocks w' b = blocks w b))"

definition borrowed_once :: "AtollaSourceSpec \<Rightarrow> world \<Rightarrow> Source \<times> world \<Rightarrow> bool" where
  "borrowed_once spec w = (\<lambda>(s, w').
     src_state s = ATOLLA_SOURCE_STATE_WAITING \<and>
     (\<exists>opened events. os_log w' = os_log w @ opened @ events \<and>
        delivered (os w) [Sent (socket_handle (src_sock s)) None
          (encode (Borrow 0 (ucast (word_of_int (spec_frame_duration_ms spec) :: u32))
             (word_of_int (if spec_max_buffered_frames spec = 0 then 16
                           else spec_max_buffered_frames spec))))] events))"

lemma made_async:
  assumes spec: "source_spec_ok spec" "spec_async_make spec" and env: "source_env w"
    and sys: "setsockopt_works (os w)" "resolver_works (os w)"
  shows "returns (atolla_source_make rounds spec w) (\<lambda>x. made spec w x \<and>
    (borrowed_once spec w x \<or> src_state (fst x) = ATOLLA_SOURCE_STATE_ERROR))"
proof -
  define nb where "nb = next_block w"
  have oom: "\<not> oom w b" for b using env by (simp add: source_env_def)
  let ?w1 = "w\<lparr>blocks := (blocks w)(nb := Some (replicate source_recv_buf_len None)), next_block := Suc nb\<rparr>"
  let ?b = "\<lparr>msg_buf = \<lparr>blk_data = Ptr (Suc nb) 0, blk_size = 0, blk_capacity = 32\<rparr>, next_msg_id = 0\<rparr>"
  let ?w2 = "?w1\<lparr>blocks := (blocks ?w1)(Suc nb := Some (replicate 32 None)), next_block := Suc (Suc nb)\<rparr>"
  obtain s0 where make: "source_private_make spec w = Inr (s0, ?w1)"
    and s0: "src_state s0 = ATOLLA_SOURCE_STATE_WAITING" "src_recv_buf s0 = Ptr nb 0"
      "src_frame_duration_ms s0 = word_of_int (spec_frame_duration_ms spec)"
      "src_max_buffered_frames s0 = (if spec_max_buffered_frames spec = 0 then 16 else spec_max_buffered_frames spec)"
      "src_disconnect_timeout_ms s0 = spec_deadline spec" "src_next_frame_idx s0 = 0"
    using oom by (simp add: source_private_make_def malloc_def Let_def nb_def max_buffered_frames_default_def
        spec_deadline_def)
  have init: "msg_builder_init ?w1 = Inr (?b, ?w2)"
    using oom by (simp add: msg_builder_init_def initial_block_capacity_def mem_block_alloc_ok)
  have mem: "source_memory (s0\<lparr>src_builder := ?b, src_sock := sock\<rparr>) w'"
    if "blocks w' = blocks ?w2" "next_block w' = next_block ?w2" for w' :: world and sock
    using that spec(1) s0
    by (auto simp: source_memory_def live_def builder_ok_def owned_def initial_block_capacity_def
        source_spec_ok_def word_neq_0_conv)
  from udp_socket_init_on_port_returns [of ?w2 "src_sock s0" 0] sys(1) obtain r sock w3 ev3 where
    sock: "udp_socket_init (Some (src_sock s0)) ?w2 = Inr (r, Some sock, w3)" and perf3: "performs ev3 ?w2 w3"
    by (auto simp: returns_iff udp_socket_init_def)
  let ?s = "s0\<lparr>src_builder := ?b, src_sock := sock\<rparr>"
  have env_of: "source_env w'" "os w' = os w" "\<forall>b. b < next_block w \<longrightarrow> blocks w' b = blocks w b"
    "os_log w' = os_log w @ ev" "blocks w' = blocks ?w2" "next_block w' = next_block ?w2"
    if "performs ev ?w2 w'" for w' ev
    using that env by (auto simp: performs_def source_env_def nb_def)
  have failed: "made spec w (source_fail ?s msg, w') \<and> src_state (source_fail ?s msg) = ATOLLA_SOURCE_STATE_ERROR"
    if "performs ev ?w2 w'" for w' ev msg
    using env_of [OF that] mem [of w' sock] s0
    by (simp add: made_def source_ok_def source_fail_heard(3) source_fail_def source_memory_def state_ok_def
          nb_def [symmetric])
  have failed': "source_fail (?s\<lparr>src_state := ATOLLA_SOURCE_STATE_ERROR\<rparr>) msg = source_fail ?s msg" for msg
    by (simp add: source_fail_def)
  show ?thesis
  proof (cases "res_code r = UDP_SOCKET_OK")
    case False
    with failed [OF perf3] show ?thesis
      using spec make init sock by (simp add: atolla_source_make_def source_spec_ok_def)
  next
    case True
    have "resolver_works (os w3)" using sys(2) env_of(2) [OF perf3] by simp
    from udp_socket_set_receiver_returns [OF this, of sock "spec_sink_hostname spec" "nat (spec_sink_port spec) mod 65536"]
    obtain r' w4 ev4 where recv: "udp_socket_set_receiver (Some sock) (spec_sink_hostname spec)
        (nat (spec_sink_port spec) mod 65536) w3 = Inr (r', w4)" and "performs ev4 w3 w4"
      by (auto simp: returns_iff)
    then have perf4: "performs (ev3 @ ev4) ?w2 w4" using performs_trans [OF perf3] by blast
    show ?thesis
    proof (cases "res_code r' = UDP_SOCKET_OK")
      case False
      with failed [OF perf4] show ?thesis
        using spec make init sock recv True by (simp add: atolla_source_make_def source_spec_ok_def failed')
    next
      case ok: True
      note e4 = env_of [OF perf4]
      let ?w5 = "w4\<lparr>tick := Suc (tick w4)\<rparr>"
      let ?s5 = "?s\<lparr>src_first_borrow_time := clock (os w4) (tick w4)\<rparr>"
      have "source_memory ?s5 ?w5" using mem [of ?w5 sock] e4(5,6) by simp
      moreover have "state_ok ?s5" using s0(1) by (simp add: state_ok_def)
      ultimately have "returns (source_send_borrow ?s5 ?w5) (\<lambda>(s', w').
          source_run [Sent (socket_handle (src_sock ?s5)) None (encode (borrow_message ?s5))] (?s5, ?w5) (s', w') \<and>
          source_view s' = source_view ?s5)"
        using e4(1) by (intro returns_mono [OF source_send_borrow_effect]) (auto simp: source_env_def)
      moreover have "made spec w (s', w') \<and> borrowed_once spec w (s', w')"
        if run: "source_run [Sent (socket_handle (src_sock ?s5)) None (encode (borrow_message ?s5))] (?s5, ?w5) (s', w')"
          and view: "source_view s' = source_view ?s5" for s' w'
      proof -
        have state: "src_state s' = ATOLLA_SOURCE_STATE_WAITING"
          using arg_cong [OF view, of cv_state] s0(1) by simp
        have conn: "src_sock s' = sock" "src_disconnect_timeout_ms s' = spec_deadline spec"
          "src_first_borrow_time s' = clock (os w) (tick w4)"
          using source_run_connection [OF run] s0 e4(2) by (simp_all add: same_connection_def)
        have "source_env ?w5" using e4(1) by (simp add: source_env_def)
        then have "source_env w'" using run by (rule source_env_run)
        moreover have "\<forall>b. b < next_block w \<longrightarrow> blocks w' b = blocks w b"
          using run e4(3,6) s0(2) by (auto simp: source_run_def nb_def)
        moreover have "next_block w \<le> src_block s'" "next_block w \<le> block_of (src_recv_buf s')"
          "next_block w \<le> next_block w'"
          using run e4(6) s0(2) by (auto simp: source_run_def same_connection_def nb_def)
        ultimately have "made spec w (s', w')"
          using source_run_ok [OF run] source_run_os [OF run] e4(2) conn by (auto simp: made_def)
        moreover obtain events where "os_log w' = os_log w4 @ events"
          "delivered (os w) [Sent (socket_handle sock) None (encode (borrow_message ?s5))] events"
          using run e4(2) by (auto simp: source_run_def sent_def)
        then have "os_log w' = os_log w @ (ev3 @ ev4) @ events" "delivered (os w) [Sent (socket_handle
            (src_sock s')) None (encode (Borrow 0 (ucast (word_of_int (spec_frame_duration_ms spec) :: u32))
              (word_of_int (if spec_max_buffered_frames spec = 0 then 16
                            else spec_max_buffered_frames spec))))] events"
          using conn(1) e4(4) s0(3,4) by (simp_all add: borrow_message_def)
        then have "borrowed_once spec w (s', w')"
          using state unfolding borrowed_once_def split_conv by blast
        ultimately show ?thesis by blast
      qed
      ultimately show ?thesis
        using spec make init sock recv True ok
        by (auto simp: atolla_source_make_def source_spec_ok_def time_now_split elim!: returns_mono)
    qed
  qed
qed

text \<open>A blocking make is an asynchronous make followed by the loop that waits for the answer.\<close>

lemma make_blocking:
  assumes "\<not> spec_async_make spec"
  shows "atolla_source_make rounds spec w =
    bind_res (atolla_source_make k (spec\<lparr>spec_async_make := True\<rparr>) w)
      (\<lambda>(s, w). source_await_make_completion rounds s w)"
proof -
  have "source_private_make (spec\<lparr>spec_async_make := True\<rparr>) w = source_private_make spec w"
    by (simp add: source_private_make_def split_def Let_def)
  then show ?thesis
    using assms by (simp add: atolla_source_make_def bind_res_assoc split_def Let_def cong: if_cong)
qed

lemma await_settled:
  "src_state s \<noteq> ATOLLA_SOURCE_STATE_WAITING \<Longrightarrow> 0 < rounds \<Longrightarrow>
   source_await_make_completion rounds s w = Inr (s, w)"
  by (cases rounds) (auto simp: source_await_make_completion_def await_round_def)

text \<open>A blocking make returns, if the clock passes the deadline.\<close>

lemma make_blocking_returns:
  assumes spec: "source_spec_ok spec" "\<not> spec_async_make spec" and env: "source_env w"
    and sys: "setsockopt_works (os w)" "resolver_works (os w)"
    and clock: "clock_runs (os w) (spec_deadline spec)"
  shows "\<exists>N. \<forall>rounds\<ge>N. returns (atolla_source_make rounds spec w) (\<lambda>(s, w').
    source_ok s w' \<and> source_env w' \<and> src_state s \<noteq> ATOLLA_SOURCE_STATE_WAITING)"
proof -
  let ?spec = "spec\<lparr>spec_async_make := True\<rparr>"
  have "source_spec_ok ?spec" using spec(1) by (simp add: source_spec_ok_def)
  from made_async [OF this _ env sys, of 0] obtain s w1 where
    make: "atolla_source_make 0 ?spec w = Inr (s, w1)" and made: "made ?spec w (s, w1)"
    by (auto simp: returns_iff)
  have blocking: "atolla_source_make rounds spec w = source_await_make_completion rounds s w1" for rounds
    using make_blocking [OF spec(2), of rounds w 0] make by simp
  from made have ok: "source_ok s w1" and env1: "source_env w1" and os1: "os w1 = os w"
    and deadline: "src_disconnect_timeout_ms s = spec_deadline spec"
    by (auto simp: made_def spec_deadline_def)
  show ?thesis
  proof (cases "src_state s = ATOLLA_SOURCE_STATE_WAITING")
    case False
    then have "returns (atolla_source_make rounds spec w) (\<lambda>(s, w').
        source_ok s w' \<and> source_env w' \<and> src_state s \<noteq> ATOLLA_SOURCE_STATE_WAITING)" if "1 \<le> rounds" for rounds
      using that ok env1 by (simp add: blocking await_settled)
    then show ?thesis by blast
  next
    case True
    with made obtain t0 where t0: "src_first_borrow_time s = clock (os w) t0"
      by (auto simp: made_def)
    from clock obtain T where "tick w1 \<le> T" and
      "\<forall>t. T \<le> t \<and> t < T + 5 \<longrightarrow> clock (os w) t - clock (os w) t0 > spec_deadline spec"
      unfolding clock_runs_def by blast
    then have T: "tick w1 \<le> T" "deadline_passes s (os w1) T"
      by (simp_all add: deadline_passes_def t0 deadline os1)
    have "returns (atolla_source_make rounds spec w) (\<lambda>(s, w').
        source_ok s w' \<and> source_env w' \<and> src_state s \<noteq> ATOLLA_SOURCE_STATE_WAITING)"
      if "T + 7 \<le> rounds" for rounds
      unfolding blocking
      by (rule returns_mono [OF await_returns [OF ok env1 T that]])
        (auto intro: source_run_ok source_env_run [OF env1])
    then show ?thesis by blast
  qed
qed

section \<open>Freeing a source\<close>

text \<open>The structure is freed, the block of the builder is not.\<close>

lemma source_free_leaves_builder:
  assumes "source_ok s w"
  shows "returns (atolla_source_free s w) (\<lambda>w'. blocks w' (block_of (src_recv_buf s)) = None \<and>
    (\<exists>cs. blocks w' (src_block s) = Some cs) \<and>
    (\<forall>b. b \<noteq> block_of (src_recv_buf s) \<longrightarrow> blocks w' b = blocks w b))"
proof -
  from assms obtain rb cs where rb: "src_recv_buf s = Ptr rb 0" "blocks w rb = Some cs"
    by (auto simp: source_ok_def source_memory_def live_def)
  from assms obtain kb ks where kb: "src_block s = kb" "blocks w kb = Some ks" "kb \<noteq> rb"
    by (auto simp: source_ok_def source_memory_def builder_ok_def owned_def rb(1))
  from udp_socket_free_returns [of "src_sock s" w] obtain r sock w1 events where
    free: "udp_socket_free (Some (src_sock s)) w = Inr (r, sock, w1)" and "performs events w w1"
    by (auto simp: returns_iff)
  then have "blocks w1 = blocks w" by (auto simp: performs_def)
  with rb kb show ?thesis
    by (auto simp: atolla_source_free_def free free_ptr_block)
qed

end
