(* ===== verification/Udp_Wifi.thy ===== *)
theory Udp_Wifi
  imports Udp_Socket
begin

text \<open>
  \<^verbatim>\<open>udp_socket_wifiudp.cpp\<close>, the same interface on the ESP8266, and \<^verbatim>\<open>udp_socket_base.cpp\<close> as it is
  compiled with it. All sockets share the one static object \<^verbatim>\<open>Udp\<close> of the library class
  \<^verbatim>\<open>WiFiUDP\<close> and the static variables \<^verbatim>\<open>has_receiver\<close>, \<^verbatim>\<open>receiver_port\<close> and \<^verbatim>\<open>receiver\<close>.
  What \<^verbatim>\<open>Udp\<close> answers is a parameter of the model, like the operating system of \<open>Os\<close>: the
  record \<open>wifi\<close> gives the answer for every point in time (\<open>wifi_tick\<close>), and
  \<open>wifi_log\<close> records what was sent. The type \<open>'ip\<close> stands for the library class
  \<^verbatim>\<open>IPAddress\<close>, which compares by value.
\<close>

section \<open>State\<close>

record 'ip WifiEndpoint =
  wep_address :: 'ip
  wep_port :: int

record 'ip wifi =
  wifi_parsePacket :: "nat \<Rightarrow> int"
  wifi_read :: "nat \<Rightarrow> nat \<Rightarrow> int \<times> u8 list"  \<comment> \<open>given the capacity: result and bytes stored\<close>
  wifi_remoteIP :: "nat \<Rightarrow> 'ip"
  wifi_remotePort :: "nat \<Rightarrow> nat"

datatype 'ip wifi_event =
    Began nat                     \<comment> \<open>listens on the port\<close>
  | Stopped
  | Packet 'ip nat "u8 list"      \<comment> \<open>\<open>beginPacket\<close>, \<open>write\<close> and \<open>endPacket\<close>\<close>

record 'ip wifi_world = heap +
  wifi :: "'ip wifi"
  wifi_tick :: nat
  wifi_log :: "'ip wifi_event list"
  has_receiver :: bool
  receiver_port :: nat
  receiver :: 'ip

definition log_wifi :: "'ip wifi_event \<Rightarrow> 'ip wifi_world \<Rightarrow> 'ip wifi_world" where
  "log_wifi e w = w\<lparr>wifi_log := wifi_log w @ [e]\<rparr>"

text \<open>The conversion of an \<^verbatim>\<open>int\<close> port to \<^verbatim>\<open>uint16_t\<close>.\<close>

definition port_of_int :: "int \<Rightarrow> nat" where
  "port_of_int p = nat (p mod 65536)"

section \<open>Opening and closing\<close>

definition udp_socket_init_on_port_wifi ::
  "UdpSocket option \<Rightarrow> nat \<Rightarrow> 'ip wifi_world \<Rightarrow> (UdpSocketResult \<times> UdpSocket option \<times> 'ip wifi_world) result"
  where
  "udp_socket_init_on_port_wifi socket port w = (case socket of
       None \<Rightarrow> bind_res (make_err_result UDP_SOCKET_ERR_SOCKET_IS_NULL msg_socket_is_null)
                 (\<lambda>r. Inr (r, None, w))
     | Some sock \<Rightarrow>
         let sock = sock\<lparr>socket_handle := 0\<rparr>;
             w = log_wifi (Began port) w;
             w = w\<lparr>receiver_port := 0\<rparr>;
             w = w\<lparr>has_receiver := False\<rparr> in
         Inr (make_success_result, Some sock, w))"

definition udp_socket_init_wifi ::
  "UdpSocket option \<Rightarrow> 'ip wifi_world \<Rightarrow> (UdpSocketResult \<times> UdpSocket option \<times> 'ip wifi_world) result" where
  "udp_socket_init_wifi socket w = udp_socket_init_on_port_wifi socket 0 w"

definition udp_socket_free_wifi ::
  "UdpSocket option \<Rightarrow> 'ip wifi_world \<Rightarrow> (UdpSocketResult \<times> UdpSocket option \<times> 'ip wifi_world) result" where
  "udp_socket_free_wifi socket w = (case socket of
       None \<Rightarrow> bind_res (make_err_result UDP_SOCKET_ERR_SOCKET_IS_NULL msg_socket_is_null)
                 (\<lambda>r. Inr (r, None, w))
     | Some sock \<Rightarrow>
         let w = log_wifi Stopped w in
         Inr (make_success_result, Some (sock\<lparr>socket_handle := -1\<rparr>), w))"

section \<open>Choosing the peer\<close>

text \<open>Not implemented in the source: \<^verbatim>\<open>assert(false)\<close>.\<close>

definition udp_socket_set_receiver_wifi ::
  "UdpSocket option \<Rightarrow> string \<Rightarrow> nat \<Rightarrow> 'ip wifi_world \<Rightarrow> (UdpSocketResult \<times> 'ip wifi_world) result" where
  "udp_socket_set_receiver_wifi socket hostname port w =
     bind_res (assert_that False) (\<lambda>_. Inr (make_success_result, w))"

definition udp_socket_set_endpoint_wifi ::
  "UdpSocket option \<Rightarrow> 'ip WifiEndpoint option \<Rightarrow> 'ip wifi_world \<Rightarrow> (UdpSocketResult \<times> 'ip wifi_world) result"
  where
  "udp_socket_set_endpoint_wifi socket endpoint w = (case endpoint of
       Some endpoint \<Rightarrow>
         let w = w\<lparr>receiver := wep_address endpoint\<rparr>;
             w = w\<lparr>receiver_port := port_of_int (wep_port endpoint)\<rparr>;
             w = w\<lparr>has_receiver := True\<rparr> in
         Inr (make_success_result, w)
     | None \<Rightarrow> Inr (make_success_result, w\<lparr>has_receiver := False\<rparr>))"

section \<open>Sending and receiving\<close>

text \<open>
  \<open>beginPacket\<close> names the destination, \<open>write\<close> copies the bytes, \<open>endPacket\<close> sends. The
  source ignores their results.
\<close>

definition write_packet :: "'ip \<Rightarrow> nat \<Rightarrow> ptr \<Rightarrow> nat \<Rightarrow> 'ip wifi_world \<Rightarrow> (UdpSocketResult \<times> 'ip wifi_world) result" where
  "write_packet address port packet_data packet_data_len w =
     bind_res (read_bytes packet_data packet_data_len w) (\<lambda>bytes.
     Inr (make_success_result, log_wifi (Packet address port bytes) w))"

definition udp_socket_send_to_wifi ::
  "UdpSocket option \<Rightarrow> ptr \<Rightarrow> nat \<Rightarrow> 'ip WifiEndpoint option \<Rightarrow> 'ip wifi_world \<Rightarrow>
   (UdpSocketResult \<times> 'ip wifi_world) result" where
  "udp_socket_send_to_wifi socket packet_data packet_data_len to w =
     bind_res (assert_that (packet_data \<noteq> Null)) (\<lambda>_.
     bind_res (assert_that (packet_data_len > 0)) (\<lambda>_.
     if socket = None
     then bind_res (make_err_result UDP_SOCKET_ERR_SOCKET_IS_NULL msg_socket_is_null) (\<lambda>r. Inr (r, w))
     else (case to of
         None \<Rightarrow>
           if has_receiver w
           then write_packet (receiver w) (receiver_port w) packet_data packet_data_len w
           else bind_res (make_err_result UDP_SOCKET_ERR_NO_RECEIVER msg_no_receiver) (\<lambda>r. Inr (r, w))
       | Some ep \<Rightarrow> write_packet (wep_address ep) (port_of_int (wep_port ep)) packet_data packet_data_len w)))"

definition udp_socket_send_wifi ::
  "UdpSocket option \<Rightarrow> ptr \<Rightarrow> nat \<Rightarrow> 'ip wifi_world \<Rightarrow> (UdpSocketResult \<times> 'ip wifi_world) result" where
  "udp_socket_send_wifi socket packet_data packet_data_len w =
     udp_socket_send_to_wifi socket packet_data packet_data_len None w"

text \<open>
  The result of \<open>read\<close> is an \<^verbatim>\<open>int\<close> stored into a \<^verbatim>\<open>size_t\<close>, which has 32 bits on this
  machine. A received byte count or a sender that the caller does not ask for is dropped there;
  here both are always results, and \<open>None\<close> is a sender the source did not store.
\<close>

definition udp_socket_receive_from_wifi ::
  "UdpSocket option \<Rightarrow> ptr \<Rightarrow> nat \<Rightarrow> 'ip wifi_world \<Rightarrow>
   (UdpSocketResult \<times> nat \<times> 'ip WifiEndpoint option \<times> 'ip wifi_world) result" where
  "udp_socket_receive_from_wifi socket packet_buffer packet_buffer_capacity w =
     bind_res (assert_that (packet_buffer \<noteq> Null)) (\<lambda>_.
     bind_res (assert_that (packet_buffer_capacity > 0)) (\<lambda>_.
     let t = wifi_tick w; packetSize = wifi_parsePacket (wifi w) t; w = w\<lparr>wifi_tick := Suc t\<rparr> in
     if packetSize \<noteq> 0
     then
       let (bytes_read, bytes) = wifi_read (wifi w) t packet_buffer_capacity in
       bind_res (write_cells packet_buffer (map Some bytes) w) (\<lambda>w.
       Inr (make_success_result, nat (bytes_read mod 4294967296),
            Some \<lparr>wep_address = wifi_remoteIP (wifi w) t, wep_port = int (wifi_remotePort (wifi w) t)\<rparr>, w))
     else bind_res (make_err_result UDP_SOCKET_ERR_NOTHING_RECEIVED msg_nothing_received)
            (\<lambda>r. Inr (r, 0, None, w))))"

definition udp_socket_receive_wifi ::
  "UdpSocket option \<Rightarrow> ptr \<Rightarrow> nat \<Rightarrow> bool \<Rightarrow> 'ip wifi_world \<Rightarrow> (UdpSocketResult \<times> nat \<times> 'ip wifi_world) result"
  where
  "udp_socket_receive_wifi socket packet_buffer packet_buffer_capacity set_sender_as_receiver w =
     bind_res (udp_socket_receive_from_wifi socket packet_buffer packet_buffer_capacity w)
       (\<lambda>(receive_result, received, endpoint, w).
     if set_sender_as_receiver \<and> res_code receive_result = UDP_SOCKET_OK
     then bind_res (udp_socket_set_endpoint_wifi socket endpoint w) (\<lambda>(r, w). Inr (r, received, w))
     else Inr (receive_result, received, w))"

definition udp_endpoint_equal_wifi :: "'ip WifiEndpoint \<Rightarrow> 'ip WifiEndpoint \<Rightarrow> bool" where
  "udp_endpoint_equal_wifi a b \<longleftrightarrow> wep_address a = wep_address b \<and> wep_port a = wep_port b"

section \<open>The one peer of all sockets\<close>

text \<open>
  The abstract state of the module: the peer that sends without a destination go to. Every socket
  reads and writes the same one.
\<close>

definition wifi_peer :: "'ip wifi_world \<Rightarrow> ('ip \<times> nat) option" where
  "wifi_peer w = (if has_receiver w then Some (receiver w, receiver_port w) else None)"

datatype 'ip wifi_call =
    Wifi_init nat nat                     \<comment> \<open>socket, port\<close>
  | Wifi_free nat
  | Wifi_set_endpoint nat "'ip WifiEndpoint option"
  | Wifi_send_to nat ptr nat "'ip WifiEndpoint option"
  | Wifi_receive nat ptr nat bool

text \<open>Calls on a family of sockets; the result of a call does not stop the client.\<close>

fun wifi_api :: "'ip wifi_call \<Rightarrow> (nat \<Rightarrow> UdpSocket) \<times> 'ip wifi_world \<Rightarrow>
    ((nat \<Rightarrow> UdpSocket) \<times> 'ip wifi_world) result" where
  "wifi_api (Wifi_init i port) (socks, w) =
     bind_res (udp_socket_init_on_port_wifi (Some (socks i)) port w) (\<lambda>(_, sock, w).
     Inr (socks(i := the sock), w))"
| "wifi_api (Wifi_free i) (socks, w) =
     bind_res (udp_socket_free_wifi (Some (socks i)) w) (\<lambda>(_, sock, w). Inr (socks(i := the sock), w))"
| "wifi_api (Wifi_set_endpoint i ep) (socks, w) =
     bind_res (udp_socket_set_endpoint_wifi (Some (socks i)) ep w) (\<lambda>(_, w). Inr (socks, w))"
| "wifi_api (Wifi_send_to i p n to) (socks, w) =
     bind_res (udp_socket_send_to_wifi (Some (socks i)) p n to w) (\<lambda>(_, w). Inr (socks, w))"
| "wifi_api (Wifi_receive i p n answer) (socks, w) =
     bind_res (udp_socket_receive_wifi (Some (socks i)) p n answer w) (\<lambda>(_, _, w). Inr (socks, w))"

text \<open>What a call makes of the peer, given the point in time of its call of \<open>parsePacket\<close>.\<close>

fun next_peer :: "'ip wifi \<Rightarrow> 'ip wifi_call \<Rightarrow> ('ip \<times> nat) option \<times> nat \<Rightarrow> ('ip \<times> nat) option \<times> nat" where
  "next_peer net (Wifi_init i port) (peer, t) = (None, t)"
| "next_peer net (Wifi_set_endpoint i ep) (peer, t) =
     (map_option (\<lambda>ep. (wep_address ep, port_of_int (wep_port ep))) ep, t)"
| "next_peer net (Wifi_receive i p n answer) (peer, t) =
     (if answer \<and> wifi_parsePacket net t \<noteq> 0
      then Some (wifi_remoteIP net t, port_of_int (int (wifi_remotePort net t))) else peer, Suc t)"
| "next_peer net (Wifi_free i) (peer, t) = (peer, t)"
| "next_peer net (Wifi_send_to i p n to) (peer, t) = (peer, t)"

lemma write_cells_wifi:
  assumes "write_cells p xs w = Inr (w' :: 'ip wifi_world)"
  shows "w' = w\<lparr>blocks := blocks w'\<rparr>"
  using assms by (auto simp: write_cells_def split: if_splits ptr.splits option.splits)

lemma wifi_api_peer:
  assumes "wifi_api c (socks, w) = Inr (socks', w')"
  shows "(wifi_peer w', wifi_tick w') = next_peer (wifi w) c (wifi_peer w, wifi_tick w) \<and> wifi w' = wifi w"
proof (cases c)
  case (Wifi_receive i p n answer)
  let ?t = "wifi_tick w"
  let ?w = "w\<lparr>wifi_tick := Suc ?t\<rparr>"
  have kept: "wifi_peer w1 = wifi_peer w \<and> wifi_tick w1 = Suc ?t \<and> wifi w1 = wifi w"
    if "write_cells q xs ?w = Inr w1" for q xs w1
    using write_cells_wifi [OF that] by (cases w; cases w1) (auto simp: wifi_peer_def)
  have "\<exists>w1. write_cells p (map Some (snd (wifi_read (wifi w) ?t n))) ?w = Inr w1 \<and>
      w' = (if answer then w1\<lparr>receiver := wifi_remoteIP (wifi w1) ?t,
         receiver_port := port_of_int (int (wifi_remotePort (wifi w1) ?t)), has_receiver := True\<rparr> else w1)"
    if "wifi_parsePacket (wifi w) ?t \<noteq> 0"
    using assms that Wifi_receive
    by (cases answer) (auto simp: udp_socket_receive_wifi_def udp_socket_receive_from_wifi_def
        udp_socket_set_endpoint_wifi_def Let_def split_def bind_res_eq_Inr make_success_result_def)
  moreover have "w' = ?w" if "wifi_parsePacket (wifi w) ?t = 0"
    using assms that Wifi_receive
    by (auto simp: udp_socket_receive_wifi_def udp_socket_receive_from_wifi_def Let_def bind_res_eq_Inr
        make_err_result_def)
  ultimately consider "wifi_parsePacket (wifi w) ?t = 0" "w' = ?w"
    | w1 where "wifi_parsePacket (wifi w) ?t \<noteq> 0" "wifi_peer w1 = wifi_peer w" "wifi_tick w1 = Suc ?t"
        "wifi w1 = wifi w" "w' = (if answer then w1\<lparr>receiver := wifi_remoteIP (wifi w1) ?t,
          receiver_port := port_of_int (int (wifi_remotePort (wifi w1) ?t)), has_receiver := True\<rparr> else w1)"
    using kept by blast
  then show ?thesis
  proof cases
    case 1
    then show ?thesis by (simp add: Wifi_receive wifi_peer_def)
  next
    case (2 w1)
    then show ?thesis by (cases answer) (simp_all add: Wifi_receive wifi_peer_def)
  qed
qed (use assms in \<open>auto simp: udp_socket_init_on_port_wifi_def udp_socket_free_wifi_def
      udp_socket_set_endpoint_wifi_def udp_socket_send_to_wifi_def write_packet_def log_wifi_def wifi_peer_def
      make_err_result_def Let_def bind_res_eq_Inr split: option.splits if_splits\<close>)

lemma wifi_run_peer:
  assumes "run wifi_api cs (socks, w) = Inr (socks', w')"
  shows "(wifi_peer w', wifi_tick w') = fold (next_peer (wifi w)) cs (wifi_peer w, wifi_tick w)"
  using assms
proof (induction cs arbitrary: socks w)
  case Nil
  then show ?case by simp
next
  case (Cons c cs)
  then obtain socks1 w1 where "wifi_api c (socks, w) = Inr (socks1, w1)" "run wifi_api cs (socks1, w1) = Inr (socks', w')"
    by (auto simp: bind_res_eq_Inr)
  then have "(wifi_peer w1, wifi_tick w1) = next_peer (wifi w) c (wifi_peer w, wifi_tick w)" "wifi w1 = wifi w"
    "(wifi_peer w', wifi_tick w') = fold (next_peer (wifi w1)) cs (wifi_peer w1, wifi_tick w1)"
    using wifi_api_peer Cons.IH by blast+
  then show ?case by (simp only: fold_simps)
qed

end
