(* ===== verification/Sample_Worlds.thy ===== *)
theory Sample_Worlds
  imports Sink_Api Source_Api Udp_Wifi
begin

text \<open>
  Concrete operating systems, worlds, sinks and sources: the inputs at which the theorems of the
  development are tried out, so that their hypotheses are seen to hold.
\<close>

section \<open>Operating systems\<close>

text \<open>
  Time advances by \<open>ms\<close> milliseconds with every call, \<open>rcv\<close> says what arrives, and everything
  succeeds.
\<close>

definition sample_os :: "nat \<Rightarrow> (nat \<Rightarrow> recv_outcome) \<Rightarrow> os" where
  "sample_os ms rcv =
     \<lparr>sys_clock_gettime = (\<lambda>t. (0, int (t * ms) * 1000000)),
      sys_socket = (\<lambda>t. (3, 0)), sys_setsockopt = (\<lambda>t. (0, 0)), sys_bind = (\<lambda>t. (0, 0)),
      sys_fcntl = (\<lambda>t. (0, 0)), sys_close = (\<lambda>t. (0, 0)), sys_connect = (\<lambda>t. (0, 0)),
      sys_getaddrinfo = (\<lambda>t host port. (0, [\<lparr>ai_socktype = 2, ai_protocol = 17,
        ai_addr = \<lparr>ep_addr = [1, 1], ep_len = 2\<rparr>\<rparr>])),
      sys_recvfrom = rcv, sys_send = (\<lambda>t n. (int n, 0)),
      sys_strerror = (\<lambda>e. ''failed''), sys_gai_strerror = (\<lambda>e. ''not found'')\<rparr>"

definition silence :: "nat \<Rightarrow> recv_outcome" where
  "silence t = Recv_error EAGAIN"

definition hears :: "message list \<Rightarrow> u8 list \<Rightarrow> nat \<Rightarrow> recv_outcome" where
  "hears ms addr t = Recv_data (datagram ms) addr"

lemma sample_clock [simp]: "clock (sample_os ms rcv) t = of_nat (t * ms)"
proof -
  have "x * 1000000 sdiv 1000000 = x" if "0 \<le> x" for x :: int
    using that by (simp add: signed_divide_int_def zsgn_def)
  from this [of "int (t * ms)"] have "int (t * ms) * 1000000 sdiv 1000000 = int (t * ms)" by simp
  then show ?thesis by (simp only: clock_def sample_os_def os.select_convs Let_def split_conv) simp
qed

lemma sample_os_behaves [simp]:
  "sends_whole (sample_os ms rcv)" "accepts_all (sample_os ms rcv)"
  "setsockopt_works (sample_os ms rcv)" "resolver_works (sample_os ms rcv)"
  by (simp_all add: sample_os_def sends_whole_def accepts_all_def setsockopt_works_def resolver_works_def
      SOCK_DGRAM_def IPPROTO_UDP_def)

lemma sample_delivered [simp]: "delivered (sample_os ms rcv) out events \<longleftrightarrow> events = out"
  by (auto simp: delivered_def)

lemma sample_recv [simp]: "sys_recvfrom (sample_os ms rcv) = rcv"
  by (simp add: sample_os_def)

lemma polite_silence [simp]: "polite n (sample_os ms silence)"
  by (simp add: polite_def silence_def)

lemma polite_hears:
  "list_all encodable ds \<Longrightarrow> length (datagram ds) \<le> n \<Longrightarrow> polite n (sample_os ms (hears ds addr))"
  by (simp add: polite_def hears_def parse_datagram)

lemma datagram_not_Nil: "ms \<noteq> [] \<Longrightarrow> datagram ms \<noteq> []"
  by (cases ms) simp_all

section \<open>Worlds\<close>

definition sample_world :: "os \<Rightarrow> (nat \<Rightarrow> cell list option) \<Rightarrow> nat \<Rightarrow> world" where
  "sample_world sys bs n = \<lparr>blocks = bs, next_block = n, oom = (\<lambda>_. False), big_endian = False,
     os = sys, tick = 100, errno = 0, os_log = []\<rparr>"

lemma sample_world_simps [simp]:
  "blocks (sample_world sys bs n) = bs" "next_block (sample_world sys bs n) = n"
  "oom (sample_world sys bs n) b = False" "os (sample_world sys bs n) = sys"
  "tick (sample_world sys bs n) = 100" "os_log (sample_world sys bs n) = []"
  by (simp_all add: sample_world_def)

lemma sample_incoming:
  "incoming (sample_world (sample_os ms (hears ds addr)) bs n) (datagram ds) addr"
  "nothing_incoming (sample_world (sample_os ms silence) bs n)"
  by (simp_all add: incoming_def hears_def nothing_incoming_def silence_def)

section \<open>A sink with one light\<close>

text \<open>Its five blocks are 1 to 5; block 6 is a buffer of its client.\<close>

definition sample_sink :: "AtollaSinkState \<Rightarrow> UdpEndpoint \<Rightarrow> int \<Rightarrow> nat \<Rightarrow> Sink" where
  "sample_sink state borrower last_idx n =
     \<lparr>snk_state = state, snk_error_msg = None, snk_socket = \<lparr>socket_handle = 3\<rparr>,
      snk_borrower_endpoint = borrower, snk_lights_count = 1, snk_frame_duration_ms = 20,
      snk_builder = \<lparr>msg_buf = \<lparr>blk_data = Ptr 5 0, blk_size = 0, blk_capacity = 32\<rparr>, next_msg_id = 0\<rparr>,
      snk_recv_buf = Ptr 1 0,
      snk_current_frame = \<lparr>blk_data = Ptr 2 0, blk_size = 0, blk_capacity = 3\<rparr>,
      snk_received_frame = \<lparr>blk_data = Ptr 3 0, blk_size = 0, blk_capacity = 3\<rparr>,
      snk_pending_frames = \<lparr>ring_buf = \<lparr>blk_data = Ptr 4 0, blk_size = 384, blk_capacity = 384\<rparr>,
        ring_front = 0, ring_len = 3 * n\<rparr>,
      snk_time_origin = NULL_TIME, snk_last_enqueued_frame_idx = last_idx, snk_last_recv_time = 0,
      snk_last_send_lent_time = 0\<rparr>"

definition sample_sink_world :: "os \<Rightarrow> u8 list list \<Rightarrow> world" where
  "sample_sink_world sys frames = sample_world sys (\<lambda>b.
     if b = 1 then Some (replicate 1024 (Some 0))
     else if b = 2 then Some (replicate 3 None)
     else if b = 3 then Some (replicate 3 None)
     else if b = 4 then Some (map Some (concat frames) @ replicate (384 - 3 * length frames) None)
     else if b = 5 then Some (replicate 32 None)
     else if b = 6 then Some (replicate 6 None) else None) 7"

definition sample_view :: "AtollaSinkState \<Rightarrow> UdpEndpoint \<Rightarrow> int \<Rightarrow> u8 list list \<Rightarrow> Sink_View" where
  "sample_view state borrower last_idx frames =
     \<lparr>sv_state = state, sv_borrower = borrower, sv_frame_size = 3, sv_duration = 20,
      sv_origin = NULL_TIME, sv_last_idx = last_idx, sv_frames = frames,
      sv_shown = replicate 3 None, sv_next_id = 0, sv_handle = 3\<rparr>"

lemma wrapped_start: "n \<le> length cs \<Longrightarrow> wrapped cs 0 n = take n cs"
  by (rule nth_equalityI) (auto simp: wrapped_def)

lemma sample_represents:
  assumes "length frames \<le> 128" "list_all (\<lambda>f. length f = 3) frames" "-1 \<le> idx" "idx \<le> 255"
  shows "represents (sample_sink state ep idx (length frames)) (sample_sink_world sys frames)
    (sample_view state ep idx frames)"
proof -
  let ?s = "sample_sink state ep idx (length frames)" and ?w = "sample_sink_world sys frames"
  have len: "length (concat frames) = 3 * length frames"
    using assms(2) by (rule length_concat_frames)
  have "sink_layout ?s ?w"
    using assms(1) len
    by (auto simp: sink_layout_def sink_blocks_def frame_size_ok_def live_def owns_def owned_def ring_inv_def
        sample_sink_def sample_sink_world_def sink_recv_buf_len_def pending_frames_capacity_def
        initial_block_capacity_def color_channel_count_def)
  moreover have "contents (snk_pending_frames ?s) ?w = map Some (concat frames)"
    using assms(1) len
    by (simp add: contents_def storage_def sample_sink_def sample_sink_world_def wrapped_start)
  ultimately show ?thesis
    using assms
    by (simp add: represents_def view_ok_def sample_view_def pending_frames_capacity_def)
      (simp add: sample_sink_def sample_sink_world_def)
qed

lemma sample_sink_world_simps [simp]:
  "os (sample_sink_world sys frames) = sys" "tick (sample_sink_world sys frames) = 100"
  "os_log (sample_sink_world sys frames) = []"
  "incoming (sample_sink_world (sample_os ms (hears ds addr)) frames) (datagram ds) addr"
  "nothing_incoming (sample_sink_world (sample_os ms silence) frames)"
  by (simp_all add: sample_sink_world_def sample_incoming)

lemma sample_caller_buffer:
  "caller_buffer (sample_sink state ep idx n) (sample_sink_world sys frames) 6 (replicate 6 None)"
  by (simp add: caller_buffer_def sink_blocks_def sample_sink_def sample_sink_world_def)

section \<open>A source\<close>

text \<open>Block 1 holds the receive buffer, block 2 is the builder's, block 3 a frame of its client.\<close>

definition sample_source :: "AtollaSourceState \<Rightarrow> u32 \<Rightarrow> Source" where
  "sample_source state last_frame_time =
     \<lparr>src_state = state, src_sock = \<lparr>socket_handle = 4\<rparr>, src_recv_buf = Ptr 1 0,
      src_builder = \<lparr>msg_buf = \<lparr>blk_data = Ptr 2 0, blk_size = 0, blk_capacity = 32\<rparr>, next_msg_id = 7\<rparr>,
      src_next_frame_idx = 255, src_frame_duration_ms = 20, src_max_buffered_frames = 16,
      src_retry_timeout_ms = 100, src_disconnect_timeout_ms = 750,
      src_first_borrow_time = 0, src_last_borrow_time = 0, src_last_frame_time = last_frame_time,
      src_last_recv_lent_time = Some 0, src_error_msg = Some ''lost''\<rparr>"

definition sample_source_world :: "os \<Rightarrow> world" where
  "sample_source_world sys = sample_world sys (\<lambda>b.
     if b = 1 then Some (replicate 32 None)
     else if b = 2 then Some (replicate 32 None)
     else if b = 3 then Some (map Some [10, 20, 30]) else None) 4"

lemma sample_source_world_simps [simp]:
  "os (sample_source_world sys) = sys" "tick (sample_source_world sys) = 100"
  "os_log (sample_source_world sys) = []"
  "incoming (sample_source_world (sample_os ms (hears ds addr))) (datagram ds) addr"
  "nothing_incoming (sample_source_world (sample_os ms silence))"
  by (simp_all add: sample_source_world_def sample_incoming)

lemma sample_source_ok: "source_ok (sample_source state t) (sample_source_world sys)"
  by (simp add: source_ok_def source_memory_def state_ok_def live_def builder_ok_def owned_def
      sample_source_def sample_source_world_def source_recv_buf_len_def initial_block_capacity_def)

lemma sample_source_env: "polite 32 sys \<Longrightarrow> sends_whole sys \<Longrightarrow> source_env (sample_source_world sys)"
  by (simp add: source_env_def source_recv_buf_len_def sample_source_world_def)

lemma sample_caller_frame: "caller_frame (sample_source state t) (sample_source_world sys) 3 [10, 20, 30]"
  by (simp add: caller_frame_def sample_source_def sample_source_world_def)

definition sample_spec :: "bool \<Rightarrow> AtollaSourceSpec" where
  "sample_spec async = \<lparr>spec_sink_hostname = ''lamp'', spec_sink_port = 10042, spec_frame_duration_ms = 276,
     spec_max_buffered_frames = 0, spec_retry_timeout_ms = 0, spec_disconnect_timeout_ms = 0,
     spec_async_make = async\<rparr>"

lemma sample_spec_ok: "source_spec_ok (sample_spec async)"
  by (simp add: source_spec_ok_def sample_spec_def)

lemma sample_clock_runs: "clock_runs (sample_os 1 rcv) 750"
  unfolding clock_runs_def
proof (intro allI)
  fix t0 u :: nat
  let ?T = "t0 + 2 ^ 32 * u + 1000"
  have "clock (sample_os 1 rcv) t - clock (sample_os 1 rcv) t0 > 750" if t: "?T \<le> t" "t < ?T + 5" for t
  proof -
    obtain k where k: "t = ?T + k" "k < 5" using t le_Suc_ex by (metis nat_add_left_cancel_less)
    have "of_nat (2 ^ 32 * u) = (0 :: u32)" by (simp only: word_of_nat_eq_0_iff) simp
    then have "(of_nat t :: u32) - of_nat t0 = of_nat (1000 + k)" using k(1) by (simp add: algebra_simps)
    moreover have "(750 :: u32) < of_nat (1000 + k)"
      using k(2) by (simp add: word_less_nat_alt unat_of_nat del: of_nat_add)
    ultimately show ?thesis by simp
  qed
  moreover have "u \<le> ?T" by simp
  ultimately show "\<exists>T\<ge>u. \<forall>t. T \<le> t \<and> t < T + 5 \<longrightarrow>
      clock (sample_os 1 rcv) t - clock (sample_os 1 rcv) t0 > 750" by blast
qed

section \<open>A WiFi network\<close>

definition sample_wifi :: "int \<Rightarrow> u8 list \<Rightarrow> nat wifi_world" where
  "sample_wifi k d = \<lparr>blocks = [1 \<mapsto> map Some [5, 6, 7]], next_block = 2, oom = (\<lambda>_. False), big_endian = False,
     wifi = \<lparr>wifi_parsePacket = (\<lambda>t. int (length d)), wifi_read = (\<lambda>t n. (k, take n d)),
             wifi_remoteIP = (\<lambda>t. 77), wifi_remotePort = (\<lambda>t. 4242)\<rparr>,
     wifi_tick = 0, wifi_log = [], has_receiver = False, receiver_port = 0, receiver = 0\<rparr>"

end
