(* ===== verification/Udp_Properties.thy ===== *)
theory Udp_Properties
  imports Sample_Worlds
begin

text \<open>
  What \<^verbatim>\<open>src/udp_socket\<close> promises: which result every answer of the operating system leads to,
  what was done to the outside world by then, and what is left open.
\<close>

section \<open>Sending and receiving\<close>

text \<open>The result code for the \<open>errno\<close> of a failed send.\<close>

definition send_error :: "int \<Rightarrow> UdpSocketResultCode" where
  "send_error e =
     (if e = 13 then UDP_SOCKET_ERR_BAD_BROADCAST
      else if e = 11 then UDP_SOCKET_ERR_WOULDBLOCK
      else if e = 89 then UDP_SOCKET_ERR_NO_RECEIVER
      else if e = 90 then UDP_SOCKET_ERR_PACKET_TOO_BIG
      else UDP_SOCKET_ERR_SEND_FAILED)"

text \<open>
  C37. Sending hands exactly the given bytes to the operating system, once, to the given endpoint or,
  without one, to the connected peer. Success is reported only if all of them went out, a refusal
  is reported by its cause, and a short send stops the program.
\<close>

theorem udp_send_result:
  assumes bytes: "read_bytes p n w = Inr bytes" "p \<noteq> Null" "0 < n"
    and answer: "sys_send (os w) (tick w) n = (r, e)"
  shows "if r = -1
    then returns (udp_socket_send_to (Some sock) p n to w) (\<lambda>(result, w').
      res_code result = send_error e \<and> w' = w\<lparr>tick := Suc (tick w), errno := e\<rparr>)
    else if r = int n
    then returns (udp_socket_send_to (Some sock) p n to w) (\<lambda>(result, w').
      res_code result = UDP_SOCKET_OK \<and>
      w' = w\<lparr>tick := Suc (tick w), os_log := os_log w @ [Sent (socket_handle sock) to bytes]\<rparr>)
    else udp_socket_send_to (Some sock) p n to w = Inl Assert_failed"
  using assms
  by (auto simp: udp_socket_send_to_def sys_return_def Let_def make_err_result_def make_success_result_def
      send_error_def EACCES_def EAGAIN_def EWOULDBLOCK_def EDESTADDRREQ_def EMSGSIZE_def)

text \<open>An operating system that refuses every datagram, and one that sends half of each.\<close>

definition refusing_os :: "int \<Rightarrow> os" where
  "refusing_os e = (sample_os 1 silence)\<lparr>sys_send := \<lambda>t n. (-1, e)\<rparr>"

definition halving_os :: os where
  "halving_os = (sample_os 1 silence)\<lparr>sys_send := \<lambda>t n. (int (n div 2), 0)\<rparr>"

theorem udp_send_result_witness:
  "returns (udp_socket_send_to (Some \<lparr>socket_handle = 4\<rparr>) (Ptr 3 0) 3 None (sample_source_world (refusing_os 90)))
     (\<lambda>(result, w'). res_code result = UDP_SOCKET_ERR_PACKET_TOO_BIG \<and> os_log w' = []) \<and>
   returns (udp_socket_send_to (Some \<lparr>socket_handle = 4\<rparr>) (Ptr 3 0) 3 None (sample_source_world (sample_os 1 silence)))
     (\<lambda>(result, w'). res_code result = UDP_SOCKET_OK \<and> os_log w' = [Sent 4 None [10, 20, 30]]) \<and>
   udp_socket_send_to (Some \<lparr>socket_handle = 4\<rparr>) (Ptr 3 0) 3 None (sample_source_world halving_os) = Inl Assert_failed"
proof -
  have bytes: "read_bytes (Ptr 3 0) 3 (sample_source_world sys) = Inr [10, 20, 30]" for sys
    by (rule read_bytes_block [where cs = "map Some [10, 20, 30]"]) (simp_all add: sample_source_world_def)
  have "sys_send (refusing_os 90) t n = (-1, 90)" "sys_send (sample_os 1 silence) t n = (int n, 0)"
    "sys_send halving_os t n = (int (n div 2), 0)" for t n
    by (simp_all add: refusing_os_def sample_os_def halving_os_def)
  then show ?thesis
    using udp_send_result [OF bytes, of "refusing_os 90" "-1" 90 "\<lparr>socket_handle = 4\<rparr>" None]
      udp_send_result [OF bytes, of "sample_os 1 silence" 3 0 "\<lparr>socket_handle = 4\<rparr>" None]
      udp_send_result [OF bytes, of halving_os 1 0 "\<lparr>socket_handle = 4\<rparr>" None]
    by (auto simp: send_error_def elim!: returns_mono)
qed

text \<open>
  C38. Receiving stores the first bytes of one datagram, as many as the buffer holds, and reports their
  number and the sender; nothing else in memory changes. Without a datagram nothing is stored. An
  empty datagram counts as a failed call, and which failure is reported depends on the value
  \<open>errno\<close> had before.
\<close>

theorem udp_receive_result:
  assumes "blocks w b = Some cs" "n \<le> length cs" "0 < n"
  shows "case sys_recvfrom (os w) (tick w) of
      Recv_data d addr \<Rightarrow>
        if d = []
        then returns (udp_socket_receive_from sock (Ptr b 0) n (Some ep) w) (\<lambda>(result, received, sender, w').
          res_code result = (if errno w = 11 then UDP_SOCKET_ERR_NOTHING_RECEIVED else UDP_SOCKET_ERR_RECEIVE_FAILED) \<and>
          received = 0 \<and> w' = w\<lparr>tick := Suc (tick w)\<rparr>)
        else returns (udp_socket_receive_from sock (Ptr b 0) n (Some ep) w) (\<lambda>(result, received, sender, w').
          res_code result = UDP_SOCKET_OK \<and> received = min n (length d) \<and> sender = Some (sender_of addr) \<and>
          w' = w\<lparr>blocks := (blocks w)(b := Some (overlay 0 (map Some (take n d)) cs)), tick := Suc (tick w)\<rparr>)
    | Recv_error e \<Rightarrow>
        returns (udp_socket_receive_from sock (Ptr b 0) n (Some ep) w) (\<lambda>(result, received, sender, w').
          res_code result = (if e = 11 then UDP_SOCKET_ERR_NOTHING_RECEIVED else UDP_SOCKET_ERR_RECEIVE_FAILED) \<and>
          received = 0 \<and> w' = w\<lparr>tick := Suc (tick w), errno := e\<rparr>)"
proof (cases "sys_recvfrom (os w) (tick w)")
  case (Recv_error e)
  then show ?thesis
    using assms(3) by (simp add: udp_socket_receive_from_def sys_recv_def Let_def make_err_result_def
        EAGAIN_def EWOULDBLOCK_def)
next
  case (Recv_data d addr)
  have "write_cells (Ptr b 0) (map Some (take n d)) w =
      Inr (w\<lparr>blocks := (blocks w)(b := Some (overlay 0 (map Some (take n d)) cs))\<rparr>)"
    using assms by (intro write_cells_block) auto
  with Recv_data assms(3) show ?thesis
    by (auto simp: udp_socket_receive_from_def sys_recv_def Let_def make_err_result_def make_success_result_def
        EAGAIN_def EWOULDBLOCK_def sender_of_def write_cells_def min.commute)
qed

theorem udp_receive_result_witness:
  "returns (udp_socket_receive_from \<lparr>socket_handle = 4\<rparr> (Ptr 1 0) 4 (Some \<lparr>ep_addr = [], ep_len = 0\<rparr>)
      (sample_source_world (sample_os 1 (\<lambda>t. Recv_data [9, 8, 7, 6, 5] [1, 2]))))
    (\<lambda>(result, received, sender, w'). received = 4 \<and> sender = Some (sender_of [1, 2]) \<and>
      read_bytes (Ptr 1 0) 4 w' = Inr [9, 8, 7, 6])"
proof -
  let ?w = "sample_source_world (sample_os 1 (\<lambda>t. Recv_data [9, 8, 7, 6, 5] [1, 2]))"
  have "blocks ?w 1 = Some (replicate 32 None)" by (simp add: sample_source_world_def)
  from udp_receive_result [OF this, of 4 "\<lparr>socket_handle = 4\<rparr>" "\<lparr>ep_addr = [], ep_len = 0\<rparr>"] show ?thesis
    by (auto simp: overlay_def intro!: read_bytes_block elim!: returns_mono)
qed

section \<open>Opening and connecting\<close>

text \<open>
  C39. Opening a socket reports the first step that failed. When it is the bind, the handle stays open
  and in the structure; when it is the switch to non-blocking mode, it is closed, and stays in the
  structure all the same.
\<close>

theorem udp_init_result:
  assumes "sys_socket (os w) (tick w) = (h, e)" "sys_bind (os w) (Suc (Suc (tick w))) = (b, e')"
    and "sys_fcntl (os w) (Suc (Suc (Suc (tick w)))) = (f, e'')" "setsockopt_works (os w)"
  shows "returns (udp_socket_init_on_port (Some sock) port w) (\<lambda>(result, sock', w').
    sock' = Some \<lparr>socket_handle = h\<rparr> \<and>
    res_code result = (if h \<le> 0 then UDP_SOCKET_ERR_SOCKET_CREATION_FAILED
      else if b < 0 then UDP_SOCKET_ERR_PORT_IN_USE
      else if f = -1 then UDP_SOCKET_ERR_SET_NONBLOCKING_FAILED else UDP_SOCKET_OK) \<and>
    os_log w' = os_log w @ (if h \<le> 0 then [Opened h] else if b < 0 then [Opened h, Bound h port]
      else if f = -1 then [Opened h, Bound h port, Closed h] else [Opened h, Bound h port]) \<and>
    blocks w' = blocks w)"
  using assms
  by (auto simp: udp_socket_init_on_port_def udp_socket_initialize_socket_support_def
      udp_socket_create_socket_def udp_socket_set_socket_nonblocking_def sys_return_def Let_def
      make_success_result_def make_err_result_def setsockopt_works_def)

theorem udp_init_result_witness:
  "returns (udp_socket_init_on_port (Some \<lparr>socket_handle = 9\<rparr>) 10042
      (sample_world ((sample_os 1 silence)\<lparr>sys_bind := \<lambda>t. (-1, 98)\<rparr>) (\<lambda>_. None) 1))
    (\<lambda>(result, sock', w'). res_code result = UDP_SOCKET_ERR_PORT_IN_USE \<and>
      sock' = Some \<lparr>socket_handle = 3\<rparr> \<and> Closed 3 \<notin> set (os_log w'))"
  by (rule returns_mono [OF udp_init_result [where h = 3 and e = 0 and b = "-1" and e' = 98 and f = 0 and e'' = 0]])
    (auto simp: sample_os_def setsockopt_works_def)

text \<open>The addresses a lookup with the given hints returns.\<close>

definition proper_address :: "addrinfo \<Rightarrow> bool" where
  "proper_address a \<longleftrightarrow> ai_socktype a = SOCK_DGRAM \<and> ai_protocol a = IPPROTO_UDP"

lemma connect_first_tries:
  assumes "as \<noteq> []" "list_all proper_address as"
  shows "returns (connect_first sock as w) (\<lambda>(err, w'). \<exists>k. k < length as \<and>
    os_log w' = os_log w @ map (\<lambda>a. Connected (socket_handle sock) (Some (ai_addr a))) (take (Suc k) as) \<and>
    blocks w' = blocks w \<and> os w' = os w \<and>
    (\<forall>j<k. fst (sys_connect (os w) (tick w + j)) \<noteq> 0) \<and>
    err = fst (sys_connect (os w) (tick w + k)) \<and> (err \<noteq> 0 \<longrightarrow> Suc k = length as))"
  using assms
proof (induction as arbitrary: w)
  case Nil
  then show ?case by simp
next
  case (Cons a as)
  obtain err w1 where call: "sys_connect_to sock (Some (ai_addr a)) w = (err, w1)" by fastforce
  then have w1: "err = fst (sys_connect (os w) (tick w))" "tick w1 = Suc (tick w)" "os w1 = os w"
    "blocks w1 = blocks w" "os_log w1 = os_log w @ [Connected (socket_handle sock) (Some (ai_addr a))]"
    by (auto simp: sys_connect_to_def sys_return_def)
  have ok: "ai_socktype a = SOCK_DGRAM" "ai_protocol a = IPPROTO_UDP"
    using Cons.prems(2) by (auto simp: proper_address_def)
  show ?case
  proof (cases "err \<noteq> 0 \<and> as \<noteq> []")
    case False
    then show ?thesis using ok call w1 by (auto simp: intro!: exI [of _ 0])
  next
    case True
    with Cons.prems have "returns (connect_first sock as w1) (\<lambda>(err, w'). \<exists>k. k < length as \<and>
      os_log w' = os_log w1 @ map (\<lambda>a. Connected (socket_handle sock) (Some (ai_addr a))) (take (Suc k) as) \<and>
      blocks w' = blocks w1 \<and> os w' = os w1 \<and>
      (\<forall>j<k. fst (sys_connect (os w1) (tick w1 + j)) \<noteq> 0) \<and>
      err = fst (sys_connect (os w1) (tick w1 + k)) \<and> (err \<noteq> 0 \<longrightarrow> Suc k = length as))"
      by (intro Cons.IH) auto
    then obtain err' w' k where rest: "connect_first sock as w1 = Inr (err', w')" "k < length as"
      "os_log w' = os_log w1 @ map (\<lambda>a. Connected (socket_handle sock) (Some (ai_addr a))) (take (Suc k) as)"
      "blocks w' = blocks w" "os w' = os w" "\<forall>j<k. fst (sys_connect (os w) (Suc (tick w) + j)) \<noteq> 0"
      "err' = fst (sys_connect (os w) (Suc (tick w) + k))" "err' \<noteq> 0 \<longrightarrow> Suc k = length as"
      by (auto simp: returns_iff w1)
    have fails: "fst (sys_connect (os w) (tick w + j)) \<noteq> 0" if "j < Suc k" for j
      using that rest(6) True w1(1) by (cases j) auto
    have call': "connect_first sock (a # as) w = Inr (err', w')" using rest(1) True ok call by simp
    show ?thesis
      using rest w1(5) fails unfolding call' returns_simps split_conv
      by (intro exI [of _ "Suc k"] conjI) auto
  qed
qed

text \<open>
  The addresses of a host are tried in the order of the lookup, each once, until one can be
  connected; the list is freed in every case, and the call succeeds exactly if one could.
\<close>

lemma udp_set_receiver_tries_in_order:
  assumes "sys_getaddrinfo (os w) (tick w) host port = (0, as)" "as \<noteq> []" "list_all proper_address as"
  shows "returns (udp_socket_set_receiver (Some sock) host port w) (\<lambda>(result, w').
    \<exists>k. k < length as \<and>
      os_log w' = os_log w @ map (\<lambda>a. Connected (socket_handle sock) (Some (ai_addr a))) (take (Suc k) as) @
        [Freed_addrinfo] \<and>
      (\<forall>j<k. fst (sys_connect (os w) (Suc (tick w) + j)) \<noteq> 0) \<and>
      (if res_code result = UDP_SOCKET_OK then fst (sys_connect (os w) (Suc (tick w) + k)) = 0
       else res_code result = UDP_SOCKET_ERR_CONNECT_FAILED \<and> Suc k = length as \<and>
         fst (sys_connect (os w) (Suc (tick w) + k)) \<noteq> 0))"
proof -
  from connect_first_tries [OF assms(2,3), of sock "w\<lparr>tick := Suc (tick w)\<rparr>"] obtain err w' k where
    first: "connect_first sock as (w\<lparr>tick := Suc (tick w)\<rparr>) = Inr (err, w')"
    and k: "k < length as" "os_log w' = os_log w @ map (\<lambda>a. Connected (socket_handle sock) (Some (ai_addr a))) (take (Suc k) as)"
      "\<forall>j<k. fst (sys_connect (os w) (Suc (tick w) + j)) \<noteq> 0"
      "err = fst (sys_connect (os w) (Suc (tick w) + k))" "err \<noteq> 0 \<longrightarrow> Suc k = length as"
    by (auto simp: returns_iff)
  have "res_code r = UDP_SOCKET_ERR_CONNECT_FAILED" if "r = \<lparr>res_code = UDP_SOCKET_ERR_CONNECT_FAILED, res_msg = m\<rparr>" for r m
    using that by simp
  with first k assms show ?thesis
    by (cases "err = 0")
      (auto simp: udp_socket_set_receiver_def Let_def make_success_result_def make_err_result_def intro!: exI [of _ k])
qed

section \<open>Results\<close>

text \<open>What the comment on \<^verbatim>\<open>struct UdpSocketResult\<close> guarantees.\<close>

definition result_ok :: "UdpSocketResult \<Rightarrow> bool" where
  "result_ok r \<longleftrightarrow> (res_code r = UDP_SOCKET_OK \<longleftrightarrow> res_msg r = None)"

lemma result_ok_make [simp]:
  "result_ok make_success_result" "res_code make_success_result = UDP_SOCKET_OK"
  "result_ok \<lparr>res_code = code, res_msg = Some msg\<rparr> \<longleftrightarrow> code \<noteq> UDP_SOCKET_OK"
  by (simp_all add: result_ok_def make_success_result_def)

lemma ends_err_result [simp]:
  "code \<noteq> UDP_SOCKET_OK \<Longrightarrow> ends F (make_err_result code msg) Q \<longleftrightarrow> Q \<lparr>res_code = code, res_msg = Some msg\<rparr>"
  by (simp add: make_err_result_def)


lemma ends_assert [simp]: "ends F (assert_that c) Q \<longleftrightarrow> (if c then Q () else Assert_failed \<in> F)"
  by (simp add: assert_that_def)




section \<open>The ESP8266\<close>

text \<open>
  C40. On the ESP8266 all sockets share one peer: after any sequence of calls on any sockets, a send
  without a destination, on whichever socket, goes to the peer that was stored last by any of them, with
  its port reduced to 16 bits; an \<^verbatim>\<open>udp_socket_init\<close> of one socket takes the peer away from all
  others. A send to a given endpoint changes nothing of this.
\<close>

theorem wifi_sockets_share_one_peer:
  assumes "run wifi_api cs (socks, w) = Inr (socks', w')"
    and "read_bytes p n w' = Inr bytes" "0 < n"
  shows "udp_socket_send_wifi (Some (socks' i)) p n w' = Inr
    (case fst (fold (next_peer (wifi w)) cs (wifi_peer w, wifi_tick w)) of
       None \<Rightarrow> (\<lparr>res_code = UDP_SOCKET_ERR_NO_RECEIVER, res_msg = Some msg_no_receiver\<rparr>, w')
     | Some (address, port) \<Rightarrow> (make_success_result, log_wifi (Packet address port bytes) w'))"
proof -
  have "p \<noteq> Null" using assms(2,3) by (auto simp: read_bytes_def read_cells_def)
  moreover have "fst (fold (next_peer (wifi w)) cs (wifi_peer w, wifi_tick w)) = wifi_peer w'"
    using wifi_run_peer [OF assms(1)] by (metis fst_conv)
  ultimately show ?thesis
    using assms(2,3) by (simp add: udp_socket_send_wifi_def udp_socket_send_to_wifi_def write_packet_def
        wifi_peer_def make_err_result_def)
qed

theorem wifi_sockets_share_one_peer_witness:
  "\<exists>socks w'. run wifi_api [Wifi_init 0 10042, Wifi_set_endpoint 0 (Some \<lparr>wep_address = 9, wep_port = 65541\<rparr>)]
      (\<lambda>i. \<lparr>socket_handle = 0\<rparr>, sample_wifi 0 []) = Inr (socks, w') \<and>
    udp_socket_send_wifi (Some (socks 1)) (Ptr 1 0) 3 w' = Inr (make_success_result, log_wifi (Packet 9 5 [5, 6, 7]) w')"
proof -
  let ?cs = "[Wifi_init 0 10042, Wifi_set_endpoint 0 (Some \<lparr>wep_address = 9, wep_port = 65541\<rparr>)]"
  let ?w = "sample_wifi 0 []"
  obtain socks w' where run: "run wifi_api ?cs (\<lambda>i. \<lparr>socket_handle = 0\<rparr>, ?w) = Inr (socks, w')"
    and blocks: "blocks w' = [1 \<mapsto> map Some [5, 6, 7]]"
    by (simp add: udp_socket_init_on_port_wifi_def udp_socket_set_endpoint_wifi_def log_wifi_def sample_wifi_def)
  have "read_bytes (Ptr 1 0) 3 w' = Inr [5, 6, 7]"
    using blocks by (intro read_bytes_block) (auto simp: fun_upd_def)
  from wifi_sockets_share_one_peer [OF run this, of 1] run show ?thesis
    by (auto simp: port_of_int_def)
qed

text \<open>
  Receiving on the ESP8266: when a packet is there, the bytes the library reads are stored at the
  start of the buffer and nowhere else, and the sender is reported; when none is there, nothing is stored.
  The byte count is the library's result converted to an unsigned number: a read that fails with -1
  counts as a success with 4294967295 bytes.
\<close>

lemma wifi_receive_result:
  assumes "blocks w b = Some cs" "n \<le> length cs" "0 < n"
    and "wifi_read (wifi w) (wifi_tick w) n = (k, d)" "length d \<le> n"
  shows "udp_socket_receive_from_wifi sock (Ptr b 0) n w = Inr
    (if wifi_parsePacket (wifi w) (wifi_tick w) = 0
     then (\<lparr>res_code = UDP_SOCKET_ERR_NOTHING_RECEIVED, res_msg = Some msg_nothing_received\<rparr>, 0, None,
       w\<lparr>wifi_tick := Suc (wifi_tick w)\<rparr>)
     else (make_success_result, if k = -1 then 4294967295 else nat (k mod 4294967296),
       Some \<lparr>wep_address = wifi_remoteIP (wifi w) (wifi_tick w),
             wep_port = int (wifi_remotePort (wifi w) (wifi_tick w))\<rparr>,
       w\<lparr>wifi_tick := Suc (wifi_tick w), blocks := (blocks w)(b := Some (overlay 0 (map Some d) cs))\<rparr>))"
proof -
  let ?w = "w\<lparr>wifi_tick := Suc (wifi_tick w)\<rparr>"
  have "write_cells (Ptr b 0) (map Some d) ?w = Inr (?w\<lparr>blocks := (blocks ?w)(b := Some (overlay 0 (map Some d) cs))\<rparr>)"
    using assms by (intro write_cells_block) auto
  then show ?thesis
    using assms by (simp add: udp_socket_receive_from_wifi_def Let_def make_err_result_def)
qed

end
