(* ===== verification/Doubles.thy ===== *)
theory Doubles
  imports Complex_Main Prelude
begin

text \<open>
  Arithmetic on \<^verbatim>\<open>double\<close> values. How accurate it is, C leaves to the implementation, so it is a
  parameter: a record of operations on an unspecified type. What the program needs of them is the
  hypothesis \<open>doubles_accurate\<close>, which the arithmetic of IEEE 754 meets: a result that is not too large
  is off by one part in \<open>2^52\<close>, or by very little where it is close to zero.
\<close>

section \<open>Operations\<close>

record 'd doubles =
  d_of_int :: "int \<Rightarrow> 'd"
  d_lit :: "rat \<Rightarrow> 'd"           \<comment> \<open>a decimal fraction in the source\<close>
  d_add :: "'d \<Rightarrow> 'd \<Rightarrow> 'd"
  d_sub :: "'d \<Rightarrow> 'd \<Rightarrow> 'd"
  d_mul :: "'d \<Rightarrow> 'd \<Rightarrow> 'd"
  d_div :: "'d \<Rightarrow> 'd \<Rightarrow> 'd"
  d_cos :: "'d \<Rightarrow> 'd"
  d_trunc :: "'d \<Rightarrow> int option"   \<comment> \<open>the integer part; none of an infinity or a NaN\<close>

section \<open>Accuracy\<close>

definition trunc :: "rat \<Rightarrow> int" where
  "trunc a = (if 0 \<le> a then \<lfloor>a\<rfloor> else \<lceil>a\<rceil>)"

text \<open>\<open>c\<close> is the value of a result, none of an infinity or a NaN, and \<open>x\<close> what it should be.\<close>

definition rounds_to :: "rat option \<Rightarrow> rat \<Rightarrow> bool" where
  "rounds_to c x \<longleftrightarrow> (case c of None \<Rightarrow> False | Some c \<Rightarrow> \<bar>c - x\<bar> \<le> \<bar>x\<bar> / 2 ^ 52 + 1 / 10 ^ 30)"

definition doubles_accurate :: "'d doubles \<Rightarrow> ('d \<Rightarrow> rat option) \<Rightarrow> bool" where
  "doubles_accurate D val \<longleftrightarrow>
     (\<forall>n. \<bar>n\<bar> \<le> 2 ^ 53 \<longrightarrow> val (d_of_int D n) = Some (of_int n)) \<and>
     (\<forall>q. \<bar>q\<bar> \<le> 10 ^ 30 \<longrightarrow> rounds_to (val (d_lit D q)) q) \<and>
     (\<forall>x y a b. val x = Some a \<and> val y = Some b \<longrightarrow>
        (\<bar>a + b\<bar> \<le> 10 ^ 30 \<longrightarrow> rounds_to (val (d_add D x y)) (a + b)) \<and>
        (\<bar>a - b\<bar> \<le> 10 ^ 30 \<longrightarrow> rounds_to (val (d_sub D x y)) (a - b)) \<and>
        (\<bar>a * b\<bar> \<le> 10 ^ 30 \<longrightarrow> rounds_to (val (d_mul D x y)) (a * b)) \<and>
        (b \<noteq> 0 \<and> \<bar>a / b\<bar> \<le> 10 ^ 30 \<longrightarrow> rounds_to (val (d_div D x y)) (a / b))) \<and>
     (\<forall>x a. val x = Some a \<longrightarrow>
        d_trunc D x = Some (trunc a) \<and> (\<bar>a\<bar> \<le> 1000 \<longrightarrow> (\<exists>c. val (d_cos D x) = Some c \<and> \<bar>c\<bar> \<le> 1)))"

lemma rounds_toE:
  assumes "rounds_to (val x) a" "\<bar>a\<bar> / 2 ^ 52 + 1 / 10 ^ 30 \<le> e"
  obtains c where "val x = Some c" "a - e \<le> c" "c \<le> a + e"
proof -
  from assms obtain c where c: "val x = Some c" "\<bar>c - a\<bar> \<le> e"
    unfolding rounds_to_def by (auto simp del: power_numeral split: option.splits intro: order_trans)
  from c(2) have "a - e \<le> c" "c \<le> a + e" unfolding abs_le_iff by linarith+
  with c(1) show thesis by (rule that)
qed

lemma doubles_exact: "doubles_accurate D val \<Longrightarrow> \<bar>n\<bar> \<le> 2 ^ 53 \<Longrightarrow> val (d_of_int D n) = Some (of_int n)"
  and doubles_lit: "doubles_accurate D val \<Longrightarrow> \<bar>q\<bar> \<le> 10 ^ 30 \<Longrightarrow> rounds_to (val (d_lit D q)) q"
  and doubles_add: "doubles_accurate D val \<Longrightarrow> val x = Some a \<Longrightarrow> val y = Some b \<Longrightarrow> \<bar>a + b\<bar> \<le> 10 ^ 30 \<Longrightarrow>
    rounds_to (val (d_add D x y)) (a + b)"
  and doubles_sub: "doubles_accurate D val \<Longrightarrow> val x = Some a \<Longrightarrow> val y = Some b \<Longrightarrow> \<bar>a - b\<bar> \<le> 10 ^ 30 \<Longrightarrow>
    rounds_to (val (d_sub D x y)) (a - b)"
  and doubles_mul: "doubles_accurate D val \<Longrightarrow> val x = Some a \<Longrightarrow> val y = Some b \<Longrightarrow> \<bar>a * b\<bar> \<le> 10 ^ 30 \<Longrightarrow>
    rounds_to (val (d_mul D x y)) (a * b)"
  and doubles_div: "doubles_accurate D val \<Longrightarrow> val x = Some a \<Longrightarrow> val y = Some b \<Longrightarrow> b \<noteq> 0 \<Longrightarrow> \<bar>a / b\<bar> \<le> 10 ^ 30 \<Longrightarrow>
    rounds_to (val (d_div D x y)) (a / b)"
  and doubles_trunc: "doubles_accurate D val \<Longrightarrow> val x = Some a \<Longrightarrow> d_trunc D x = Some (trunc a)"
  and doubles_cos: "doubles_accurate D val \<Longrightarrow> val x = Some a \<Longrightarrow> \<bar>a\<bar> \<le> 1000 \<Longrightarrow>
    \<exists>c. val (d_cos D x) = Some c \<and> \<bar>c\<bar> \<le> 1"
  unfolding doubles_accurate_def by blast+

section \<open>An arithmetic without rounding\<close>

definition exact :: "rat doubles" where
  "exact = \<lparr>d_of_int = of_int, d_lit = (\<lambda>q. q), d_add = (+), d_sub = (-), d_mul = (*), d_div = (/),
     d_cos = (\<lambda>x. 1 - 2 * frac x), d_trunc = (\<lambda>x. Some (trunc x))\<rparr>"

lemma exact_accurate: "doubles_accurate exact Some"
proof -
  have "\<bar>1 - 2 * frac x\<bar> \<le> 1" for x :: rat
    using frac_ge_0 [of x] frac_lt_1 [of x] unfolding abs_le_iff by linarith
  then show ?thesis by (simp add: doubles_accurate_def exact_def rounds_to_def)
qed

end
