(* ===== verification/Mach_Clock.thy ===== *)
theory Mach_Clock
  imports Doubles Os
begin

text \<open>
  \<^verbatim>\<open>time/mach_gettime.c\<close>, the \<^verbatim>\<open>clock_gettime\<close> of the library for systems on the Mach kernel, and
  \<^verbatim>\<open>time_now\<close> as it is compiled with it. What the kernel answers is a parameter: the record \<open>kernel\<close>
  gives the answer for every point in time \<open>t\<close>, which every call that reads a clock advances. The
  file has a timer of its own, which counts from the first call on in \<^verbatim>\<open>double\<close> arithmetic (a parameter,
  see \<open>Doubles\<close>), and maps the other clocks to services of the kernel.
\<close>

section \<open>The kernel and the static variables\<close>

record kernel =
  mach_timebase_info :: "u32 \<times> u32"             \<comment> \<open>\<open>numer\<close>, \<open>denom\<close>\<close>
  mach_absolute_time :: "nat \<Rightarrow> 64 word"
  host_get_clock_service :: "int \<Rightarrow> nat option"  \<comment> \<open>none: refused, nothing stored\<close>
  clock_get_time :: "nat \<Rightarrow> nat \<Rightarrow> int + u32 \<times> int"
    \<comment> \<open>given the service: an error code and nothing stored, or \<open>tv_sec\<close> and \<open>tv_nsec\<close>\<close>

record 'd mach_statics =
  mt_timebase :: 'd
  mt_timestart :: "64 word"

record timespec =
  tv_sec :: int
  tv_nsec :: int

definition TIMER_ABSTIME :: int where "TIMER_ABSTIME = -1"
definition CLOCK_REALTIME :: int where "CLOCK_REALTIME = 1"    \<comment> \<open>\<^verbatim>\<open>CALENDAR_CLOCK\<close>\<close>
definition KERN_SUCCESS :: int where "KERN_SUCCESS = 0"
definition MT_NANO :: rat where "MT_NANO = 1 / 1000000000"
definition MT_GIGA :: "64 word" where "MT_GIGA = 1000000000"

definition mach_statics_start :: "'d doubles \<Rightarrow> 'd mach_statics" where
  "mach_statics_start D = \<lparr>mt_timebase = d_of_int D 0, mt_timestart = 0\<rparr>"

section \<open>Reading a clock\<close>

text \<open>The conversion of a \<^verbatim>\<open>double\<close> to a \<^verbatim>\<open>long\<close> or \<^verbatim>\<open>time_t\<close> of 64 bits.\<close>

definition i64_of_double :: "'d doubles \<Rightarrow> 'd \<Rightarrow> int result" where
  "i64_of_double D x = (case d_trunc D x of
       None \<Rightarrow> Inl Bad_conversion
     | Some k \<Rightarrow> if - (2 ^ 63) \<le> k \<and> k < 2 ^ 63 then Inr k else Inl Bad_conversion)"

definition start_timer :: "'d doubles \<Rightarrow> kernel \<Rightarrow> 'd mach_statics \<Rightarrow> nat \<Rightarrow> 'd mach_statics \<times> nat" where
  "start_timer D K st t =
     (if mt_timestart st = 0
      then let (numer, denom) = mach_timebase_info K;
               st = st\<lparr>mt_timebase := d_of_int D (uint numer)\<rparr>;
               st = st\<lparr>mt_timebase := d_div D (mt_timebase st) (d_of_int D (uint denom))\<rparr> in
           (st\<lparr>mt_timestart := mach_absolute_time K t\<rparr>, Suc t)
      else (st, t))"

definition clock_gettime ::
  "'d doubles \<Rightarrow> kernel \<Rightarrow> int \<Rightarrow> 'd mach_statics \<Rightarrow> nat \<Rightarrow> (int \<times> timespec \<times> 'd mach_statics \<times> nat) result" where
  "clock_gettime D K clk_id st t =
     (if clk_id = TIMER_ABSTIME
      then
        let (st, t) = start_timer D K st t;
            diff = d_mul D (d_of_int D (uint (mach_absolute_time K t - mt_timestart st))) (mt_timebase st) in
        bind_res (i64_of_double D (d_mul D diff (d_lit D MT_NANO))) (\<lambda>sec.
        bind_res (i64_of_double D (d_sub D diff (d_of_int D (uint (word_of_int sec * MT_GIGA))))) (\<lambda>nsec.
        Inr (KERN_SUCCESS, \<lparr>tv_sec = sec, tv_nsec = nsec\<rparr>, st, Suc t)))
      else
        case host_get_clock_service K clk_id of
          None \<Rightarrow> Inl Indeterminate
        | Some cclock \<Rightarrow> (case clock_get_time K cclock t of
            Inl _ \<Rightarrow> Inl Indeterminate
          | Inr (sec, nsec) \<Rightarrow> Inr (KERN_SUCCESS, \<lparr>tv_sec = uint sec, tv_nsec = nsec\<rparr>, st, Suc t)))"

text \<open>\<^verbatim>\<open>time_now\<close>, as \<open>Os\<close> has it for POSIX.\<close>

definition time_now_mach ::
  "'d doubles \<Rightarrow> kernel \<Rightarrow> 'd mach_statics \<Rightarrow> nat \<Rightarrow> (u32 \<times> 'd mach_statics \<times> nat) result" where
  "time_now_mach D K st t =
     bind_res (clock_gettime D K CLOCK_REALTIME st t) (\<lambda>(_, ts, st, t).
     Inr (word_of_int (tv_sec ts * 1000 + tv_nsec ts sdiv 1000000), st, t))"

section \<open>The timer\<close>

text \<open>The timer was started at a reading of \<open>start\<close>.\<close>

definition timer_started :: "'d doubles \<Rightarrow> kernel \<Rightarrow> 64 word \<Rightarrow> 'd mach_statics \<Rightarrow> bool" where
  "timer_started D K start st \<longleftrightarrow> mt_timestart st = start \<and> start \<noteq> 0 \<and>
     mt_timebase st = d_div D (d_of_int D (uint (fst (mach_timebase_info K)))) (d_of_int D (uint (snd (mach_timebase_info K))))"

lemma start_timer_started: "timer_started D K start st \<Longrightarrow> start_timer D K st t = (st, t)"
  by (simp add: timer_started_def start_timer_def)

lemma start_timer_first:
  assumes "mt_timestart st = 0" "mach_absolute_time K t \<noteq> 0"
  shows "\<exists>st'. start_timer D K st t = (st', Suc t) \<and> timer_started D K (mach_absolute_time K t) st'"
  using assms by (simp add: start_timer_def timer_started_def Let_def split_def)

text \<open>Nanoseconds in \<open>n\<close> ticks of the kernel's counter.\<close>

definition nanoseconds :: "kernel \<Rightarrow> 64 word \<Rightarrow> rat" where
  "nanoseconds K n = of_int (uint n) * (of_int (uint (fst (mach_timebase_info K))) / of_int (uint (snd (mach_timebase_info K))))"

lemma trunc_bounds: "trunc a \<le> b \<longleftrightarrow> (if 0 \<le> a then a < of_int b + 1 else a \<le> of_int b)"
  by (simp add: trunc_def floor_le_iff ceiling_le_iff)

lemma trunc_near: "of_int (trunc a) - 1 < a" "a < of_int (trunc a) + 1" "0 \<le> a \<Longrightarrow> of_int (trunc a) \<le> a"
  "- 1 < a \<Longrightarrow> 0 \<le> trunc a"
  by (auto simp: trunc_def le_ceiling_iff) linarith+

text \<open>The elapsed time in \<^verbatim>\<open>double\<close> arithmetic is within half a nanosecond.\<close>

lemma elapsed_accurate:
  assumes D: "doubles_accurate D val" and started: "timer_started D K start st"
    and denom: "snd (mach_timebase_info K) \<noteq> 0"
    and range: "uint n \<le> 10 ^ 15" "nanoseconds K n \<le> 10 ^ 15"
  obtains d where "val (d_mul D (d_of_int D (uint n)) (mt_timebase st)) = Some d"
    "nanoseconds K n - 1 / 2 \<le> d" "d \<le> nanoseconds K n + 1 / 2"
proof -
  obtain numer denom where tb: "mach_timebase_info K = (numer, denom)" by fastforce
  define a where "a = uint numer"
  define b where "b = uint denom"
  define r :: rat where "r = of_int a / of_int b"
  define e :: rat where "e = of_int (uint n)"
  have ab: "0 \<le> a" "a < 2 ^ 32" "1 \<le> b" "b < 2 ^ 32"
    using denom tb uint_bounded [of numer] uint_bounded [of denom]
    by (simp_all add: a_def b_def word_neq_0_conv word_less_def)
  have "of_int 0 \<le> e" "e \<le> of_int (10 ^ 15)" unfolding e_def of_int_le_iff using range(1) by simp_all
  then have e: "0 \<le> e" "e \<le> 10 ^ 15" by simp_all
  have "r \<le> of_int a / 1" unfolding r_def using ab by (intro divide_left_mono) simp_all
  also have "\<dots> \<le> of_int (2 ^ 32)" using ab(2) by (simp only: div_by_1 of_int_le_iff)
  finally have r: "0 \<le> r" "r \<le> 2 ^ 32" using ab by (simp_all add: r_def)
  have ns: "nanoseconds K n = e * r"
    by (simp only: nanoseconds_def tb fst_conv snd_conv a_def b_def r_def e_def)
  have "rounds_to (val (d_div D (d_of_int D a) (d_of_int D b))) r"
    unfolding r_def using ab r(1,2)
    by (intro doubles_div [OF D] doubles_exact [OF D]) (simp_all add: r_def)
  then have "rounds_to (val (mt_timebase st)) r" using started by (simp add: timer_started_def tb a_def b_def)
  then obtain r' where r': "val (mt_timebase st) = Some r'" "r - (r / 2 ^ 52 + 1 / 10 ^ 30) \<le> r'" "r' \<le> r + (r / 2 ^ 52 + 1 / 10 ^ 30)"
    using r(1) by (auto elim!: rounds_toE)
  define q where "q = e * r"
  have q: "0 \<le> q" "q \<le> 10 ^ 15" using e(1) r(1) range(2) ns by (simp_all add: q_def)
  have "e * (r - (r / 2 ^ 52 + 1 / 10 ^ 30)) \<le> e * r'" "e * r' \<le> e * (r + (r / 2 ^ 52 + 1 / 10 ^ 30))"
    using r'(2,3) e(1) by (simp_all only: mult_left_mono)
  moreover have "e * (r - (r / 2 ^ 52 + 1 / 10 ^ 30)) = q - q / 2 ^ 52 - e / 10 ^ 30"
    "e * (r + (r / 2 ^ 52 + 1 / 10 ^ 30)) = q + q / 2 ^ 52 + e / 10 ^ 30"
    by (simp_all add: q_def algebra_simps)
  ultimately have prod: "q - q / 2 ^ 52 - e / 10 ^ 30 \<le> e * r'" "e * r' \<le> q + q / 2 ^ 52 + e / 10 ^ 30" by simp_all
  have near: "q - 9 / 40 \<le> e * r'" "e * r' \<le> q + 9 / 40"
    using prod q e by (simp_all add: field_simps)
  then have small: "\<bar>e * r'\<bar> \<le> 10 ^ 15 + 1" using q unfolding abs_le_iff by simp
  have "val (d_of_int D (uint n)) = Some e" unfolding e_def by (rule doubles_exact [OF D]) (use range(1) in simp)
  then have "rounds_to (val (d_mul D (d_of_int D (uint n)) (mt_timebase st))) (e * r')"
    using r'(1) small by (intro doubles_mul [OF D]) simp_all
  moreover have "\<bar>e * r'\<bar> / 2 ^ 52 + 1 / 10 ^ 30 \<le> 9 / 40" using small by simp
  ultimately obtain d where "val (d_mul D (d_of_int D (uint n)) (mt_timebase st)) = Some d"
    "e * r' - 9 / 40 \<le> d" "d \<le> e * r' + 9 / 40" by (rule rounds_toE)
  moreover from this(2,3) near have "q - 1 / 2 \<le> d" "d \<le> q + 1 / 2" by linarith+
  ultimately show thesis by (intro that) (simp_all only: ns q_def)
qed

text \<open>The seconds are cut off the elapsed time without going negative.\<close>

lemma seconds_accurate:
  assumes D: "doubles_accurate D val" and d: "val x = Some d" "- 1 / 2 \<le> d" "d \<le> 10 ^ 15 + 1 / 2"
  obtains sec where "i64_of_double D (d_mul D x (d_lit D MT_NANO)) = Inr sec" "0 \<le> sec" "sec \<le> 1000001"
    "of_int (sec * 1000000000) \<le> d + 1 / 2" "d < of_int (sec * 1000000000) + 1000000000 + 1 / 2"
proof -
  have "rounds_to (val (d_lit D MT_NANO)) MT_NANO" by (rule doubles_lit [OF D]) (simp add: MT_NANO_def)
  then obtain l where l: "val (d_lit D MT_NANO) = Some l" "\<bar>l - MT_NANO\<bar> \<le> 23 / 10 ^ 26"
    by (cases "val (d_lit D MT_NANO)") (simp_all add: rounds_to_def MT_NANO_def)
  have abs_d: "\<bar>d\<bar> \<le> 10 ^ 15 + 1" using d unfolding abs_le_iff by simp
  have "\<bar>d * l - d / 1000000000\<bar> = \<bar>d\<bar> * \<bar>l - MT_NANO\<bar>"
    unfolding abs_mult [symmetric] by (simp add: MT_NANO_def algebra_simps)
  also have "\<dots> \<le> (10 ^ 15 + 1) * (23 / 10 ^ 26)" using abs_d l(2) by (intro mult_mono) simp_all
  finally have near: "\<bar>d * l - d / 1000000000\<bar> \<le> 24 / 10 ^ 11" by simp
  then have dl: "d / 1000000000 - 24 / 10 ^ 11 \<le> d * l" "d * l \<le> d / 1000000000 + 24 / 10 ^ 11"
    unfolding abs_le_iff by linarith+
  then have small: "\<bar>d * l\<bar> \<le> 1000001" using abs_d unfolding abs_le_iff by simp
  then have "rounds_to (val (d_mul D x (d_lit D MT_NANO))) (d * l)"
    using d(1) l(1) by (intro doubles_mul [OF D]) simp_all
  moreover have "\<bar>d * l\<bar> / 2 ^ 52 + 1 / 10 ^ 30 \<le> 23 / 10 ^ 11" using small by simp
  ultimately obtain m where m: "val (d_mul D x (d_lit D MT_NANO)) = Some m"
    "d * l - 23 / 10 ^ 11 \<le> m" "m \<le> d * l + 23 / 10 ^ 11" by (rule rounds_toE)
  with dl have md: "d / 1000000000 - 5 / 10 ^ 10 \<le> m" "m \<le> d / 1000000000 + 5 / 10 ^ 10" by simp_all
  define sec where "sec = trunc m"
  have "- 1 < m" using md d by simp
  then have sec: "0 \<le> sec" "m < of_int sec + 1" "0 \<le> m \<Longrightarrow> of_int sec \<le> m" "m < 0 \<Longrightarrow> sec = 0"
    using trunc_near [of m] by (auto simp: sec_def trunc_def ceiling_eq_iff)
  have upper: "sec \<le> 1000001"
    unfolding sec_def trunc_bounds using md(2) d by simp
  have "i64_of_double D (d_mul D x (d_lit D MT_NANO)) = Inr sec"
    using sec(1) upper by (simp add: i64_of_double_def doubles_trunc [OF D m(1)] sec_def [symmetric])
  moreover have "of_int (sec * 1000000000) \<le> d + 1 / 2"
  proof (cases "0 \<le> m")
    case True
    have "of_int (sec * 1000000000) = of_int sec * (1000000000 :: rat)" by simp
    also have "\<dots> \<le> m * 1000000000" using sec(3) [OF True] by (intro mult_right_mono) simp_all
    finally show ?thesis using md(2) by simp
  qed (use sec(4) d(2) in simp)
  moreover have "d < of_int (sec * 1000000000) + 1000000000 + 1 / 2" using sec(2) md(1) by simp
  ultimately show thesis by (intro that [OF _ sec(1) upper])
qed

text \<open>A reading of the timer.\<close>

lemma timer_reading:
  assumes D: "doubles_accurate D val" and started: "timer_started D K start st"
    and denom: "snd (mach_timebase_info K) \<noteq> 0"
    and range: "uint (mach_absolute_time K t - start) \<le> 10 ^ 15" "nanoseconds K (mach_absolute_time K t - start) \<le> 10 ^ 15"
  shows "\<exists>sec nsec. clock_gettime D K TIMER_ABSTIME st t = Inr (KERN_SUCCESS, \<lparr>tv_sec = sec, tv_nsec = nsec\<rparr>, st, Suc t) \<and>
    0 \<le> sec \<and> 0 \<le> nsec \<and> nsec \<le> 10 ^ 9 \<and>
    \<bar>of_int (sec * 10 ^ 9 + nsec) - nanoseconds K (mach_absolute_time K t - start)\<bar> \<le> 2"
proof -
  define n where "n = mach_absolute_time K t - start"
  define x where "x = d_mul D (d_of_int D (uint n)) (mt_timebase st)"
  note range = range [folded n_def]
  have diff: "d_mul D (d_of_int D (uint (mach_absolute_time K t - mt_timestart st))) (mt_timebase st) = x"
    using started by (simp add: x_def n_def timer_started_def)
  have ns0: "0 \<le> nanoseconds K n" unfolding nanoseconds_def
    by (intro mult_nonneg_nonneg divide_nonneg_nonneg) (simp_all only: of_int_0_le_iff unsigned_greater_eq)
  obtain d where d: "val x = Some d" "nanoseconds K n - 1 / 2 \<le> d" "d \<le> nanoseconds K n + 1 / 2"
    unfolding x_def by (rule elapsed_accurate [OF D started denom range])
  have "- 1 / 2 \<le> d" "d \<le> 10 ^ 15 + 1 / 2" using d(2,3) ns0 range(2) by simp_all
  from d(1) this obtain sec where sec: "i64_of_double D (d_mul D x (d_lit D MT_NANO)) = Inr sec" "0 \<le> sec" "sec \<le> 1000001"
    "of_int (sec * 1000000000) \<le> d + 1 / 2" "d < of_int (sec * 1000000000) + 1000000000 + 1 / 2"
    by (rule seconds_accurate [OF D])
  define u where "u = sec * 1000000000"
  have giga: "uint (word_of_int sec * MT_GIGA) = u"
    using sec(2,3) by (simp add: MT_GIGA_def uint_word_ariths uint_word_of_int u_def)
  have "val (d_of_int D u) = Some (of_int u)" using sec(2,3) by (intro doubles_exact [OF D]) (simp add: u_def)
  moreover have near: "\<bar>d - of_int u\<bar> \<le> 1000000001" using sec(4,5) unfolding u_def [symmetric] abs_le_iff by simp
  ultimately have "rounds_to (val (d_sub D x (d_of_int D u))) (d - of_int u)"
    using d(1) by (intro doubles_sub [OF D]) simp_all
  moreover have "\<bar>d - of_int u\<bar> / 2 ^ 52 + 1 / 10 ^ 30 \<le> 1 / 1000" using near by simp
  ultimately obtain y where y: "val (d_sub D x (d_of_int D u)) = Some y" "d - of_int u - 1 / 1000 \<le> y" "y \<le> d - of_int u + 1 / 1000"
    by (rule rounds_toE)
  note bounds = sec(4,5) [folded u_def]
  have nsec: "0 \<le> trunc y" "trunc y \<le> 10 ^ 9" "y - 1 < of_int (trunc y)" "of_int (trunc y) < y + 1"
    using y bounds trunc_near [of y] by (simp_all add: trunc_bounds)
  then have "i64_of_double D (d_sub D x (d_of_int D u)) = Inr (trunc y)"
    by (simp add: i64_of_double_def doubles_trunc [OF D y(1)])
  then have "clock_gettime D K TIMER_ABSTIME st t = Inr (KERN_SUCCESS, \<lparr>tv_sec = sec, tv_nsec = trunc y\<rparr>, st, Suc t)"
    using sec(1) by (simp add: clock_gettime_def Let_def start_timer_started [OF started] diff giga)
  moreover have "\<bar>of_int (sec * 10 ^ 9 + trunc y) - nanoseconds K n\<bar> \<le> 2"
  proof -
    have "of_int (sec * 10 ^ 9 + trunc y) = of_int u + (of_int (trunc y) :: rat)" by (simp add: u_def)
    with nsec(3,4) y(2,3) d(2,3) show ?thesis unfolding abs_le_iff by simp
  qed
  ultimately show ?thesis using sec(2) nsec(1,2) unfolding n_def by blast
qed

section \<open>Properties\<close>

text \<open>
  The clock the library reads is a service of the kernel: \<^verbatim>\<open>time_now\<close> is the one of \<open>Os\<close>, for an operating
  system whose clock is that service. A service that fails leaves the reading indeterminate, because
  \<^verbatim>\<open>clock_gettime\<close> stores it without a look at the result.
\<close>

lemma mach_time_now:
  assumes "host_get_clock_service K CLOCK_REALTIME = Some service"
    and "\<And>sec nsec. clock_get_time K service (tick w) = Inr (sec, nsec) \<Longrightarrow> sys_clock_gettime (os w) (tick w) = (uint sec, nsec)"
  shows "time_now_mach D K st (tick w) = (case clock_get_time K service (tick w) of
      Inl e \<Rightarrow> Inl Indeterminate
    | Inr reading \<Rightarrow> Inr (fst (time_now w), st, tick (snd (time_now w))))"
  using assms by (auto simp: time_now_mach_def clock_gettime_def CLOCK_REALTIME_def TIMER_ABSTIME_def clock_def
      split: sum.splits)

text \<open>
  C35. The timer of \<^verbatim>\<open>mach_gettime.c\<close> counts from its first call on. Every later call, in the first
  eleven days, yields the nanoseconds since then to within two, as seconds and a rest that is
  never negative and never more than a second, although it computes them in \<^verbatim>\<open>double\<close> arithmetic.
\<close>

theorem mach_timer_counts:
  assumes D: "doubles_accurate D val" and fresh: "mt_timestart st = 0" "mach_absolute_time K t0 \<noteq> 0"
    and denom: "snd (mach_timebase_info K) \<noteq> 0"
    and range: "\<And>u. u \<in> {Suc t0, t} \<Longrightarrow> uint (mach_absolute_time K u - mach_absolute_time K t0) \<le> 10 ^ 15 \<and>
      nanoseconds K (mach_absolute_time K u - mach_absolute_time K t0) \<le> 10 ^ 15"
  shows "\<exists>ts st' sec nsec. clock_gettime D K TIMER_ABSTIME st t0 = Inr (KERN_SUCCESS, ts, st', t0 + 2) \<and>
    clock_gettime D K TIMER_ABSTIME st' t = Inr (KERN_SUCCESS, \<lparr>tv_sec = sec, tv_nsec = nsec\<rparr>, st', t + 1) \<and>
    0 \<le> sec \<and> 0 \<le> nsec \<and> nsec \<le> 10 ^ 9 \<and>
    \<bar>of_int (sec * 10 ^ 9 + nsec) - nanoseconds K (mach_absolute_time K t - mach_absolute_time K t0)\<bar> \<le> 2"
proof -
  obtain st' where st': "start_timer D K st t0 = (st', Suc t0)" "timer_started D K (mach_absolute_time K t0) st'"
    using start_timer_first [OF fresh] by blast
  have "clock_gettime D K TIMER_ABSTIME st t0 = clock_gettime D K TIMER_ABSTIME st' (Suc t0)"
    using st' by (simp add: clock_gettime_def start_timer_started)
  with timer_reading [OF D st'(2) denom, of "Suc t0"] timer_reading [OF D st'(2) denom, of t] range
  show ?thesis by fastforce
qed

definition sample_kernel :: kernel where
  "sample_kernel = \<lparr>mach_timebase_info = (125, 3), mach_absolute_time = (\<lambda>t. 24 * of_nat t + 1000),
     host_get_clock_service = Some \<circ> nat, clock_get_time = (\<lambda>service t. Inr (5, 0))\<rparr>"

theorem mach_timer_counts_witness:
  "\<exists>ts st' sec nsec. clock_gettime exact sample_kernel TIMER_ABSTIME (mach_statics_start exact) 0 = Inr (KERN_SUCCESS, ts, st', 2) \<and>
    clock_gettime exact sample_kernel TIMER_ABSTIME st' 10 = Inr (KERN_SUCCESS, \<lparr>tv_sec = sec, tv_nsec = nsec\<rparr>, st', 11) \<and>
    0 \<le> sec \<and> 0 \<le> nsec \<and> nsec \<le> 10 ^ 9 \<and> \<bar>of_int (sec * 10 ^ 9 + nsec) - (10000 :: rat)\<bar> \<le> 2"
proof -
  let ?abs = "mach_absolute_time sample_kernel"
  have ns: "nanoseconds sample_kernel (?abs 1 - ?abs 0) = 1000" "nanoseconds sample_kernel (?abs 10 - ?abs 0) = 10000"
    by (simp_all add: sample_kernel_def nanoseconds_def)
  have range: "uint (?abs u - ?abs 0) \<le> 10 ^ 15 \<and> nanoseconds sample_kernel (?abs u - ?abs 0) \<le> 10 ^ 15"
    if "u \<in> {Suc 0, 10}" for u
    using that ns by (auto simp: sample_kernel_def)
  have "mt_timestart (mach_statics_start exact) = 0" "?abs 0 \<noteq> 0" "snd (mach_timebase_info sample_kernel) \<noteq> 0"
    by (simp_all add: mach_statics_start_def sample_kernel_def)
  from mach_timer_counts [OF exact_accurate this, of 10, OF range] show ?thesis
    unfolding ns by (simp add: numeral_2_eq_2)
qed

end
