(* ===== verification/Sink_Properties.thy ===== *)
theory Sink_Properties
  imports Sample_Worlds
begin

text \<open>
  What \<^verbatim>\<open>src/atolla/sink.cpp\<close> promises, stated over the functions of the source: datagrams have the
  effect the protocol gives them, frames are shown on time, the lease is exclusive with one
  exception, and a sink keeps the memory of the program in order from its making to its freeing.
\<close>

lemmas sample_sink_defs = sample_sink_def sample_view_def

abbreviation lent_sink :: "int \<Rightarrow> nat \<Rightarrow> Sink" where
  "lent_sink idx n \<equiv> sample_sink ATOLLA_SINK_STATE_LENT (sender_of [7, 7]) idx n"

abbreviation lent_view :: "int \<Rightarrow> u8 list list \<Rightarrow> Sink_View" where
  "lent_view idx frames \<equiv> sample_view ATOLLA_SINK_STATE_LENT (sender_of [7, 7]) idx frames"

lemma udp_endpoint_equal_sender [simp]: "udp_endpoint_equal (sender_of a) (sender_of b) \<longleftrightarrow> a = b"
  by (auto simp: udp_endpoint_equal_def sender_of_def)

section \<open>Datagrams\<close>



text \<open>The replies to a stranger: one refusal for each of its messages.\<close>

fun refusal_of :: "u16 \<Rightarrow> message \<Rightarrow> message" where
  "refusal_of i (Borrow j fl bl) = Fail i j ATOLLA_ERROR_CODE_LENT_TO_OTHER_SOURCE"
| "refusal_of i (Enqueue j idx frame) = Fail i j ATOLLA_ERROR_CODE_LENT_TO_OTHER_SOURCE"
| "refusal_of i (Lent j) = Fail i j ATOLLA_ERROR_CODE_BAD_MSG"
| "refusal_of i (Fail j causing code) = Fail i j ATOLLA_ERROR_CODE_BAD_MSG"

fun refusals :: "int \<Rightarrow> UdpEndpoint \<Rightarrow> u16 \<Rightarrow> message list \<Rightarrow> os_event list" where
  "refusals handle to i [] = []"
| "refusals handle to i (m # ms) = Sent handle (Some to) (encode (refusal_of i m)) # refusals handle to (i + 1) ms"

fun long_enough :: "message \<Rightarrow> bool" where
  "long_enough (Enqueue i idx frame) \<longleftrightarrow> 3 \<le> length frame"
| "long_enough m \<longleftrightarrow> True"

lemma stranger_steps:
  assumes "sv_state v = ATOLLA_SINK_STATE_LENT" "\<not> udp_endpoint_equal sender (sv_borrower v)"
    and "list_all long_enough ms"
  shows "run_spec (sink_spec sender) ms (v, out) =
    Some (v\<lparr>sv_next_id := sv_next_id v + of_nat (length ms)\<rparr>,
          out @ refusals (sv_handle v) sender (sv_next_id v) ms)"
  using assms
proof (induction ms arbitrary: v out)
  case Nil
  then show ?case by simp
next
  case (Cons m ms)
  let ?v = "v\<lparr>sv_next_id := sv_next_id v + 1\<rparr>"
  have "sink_spec sender m (v, out) =
      Some (?v, out @ [Sent (sv_handle v) (Some sender) (encode (refusal_of (sv_next_id v) m))])"
    using Cons.prems
    by (cases m) (auto simp: sink_spec_def borrow_step_def enqueue_step_def step_defs)
  moreover have "run_spec (sink_spec sender) ms (?v, out') =
      Some (?v\<lparr>sv_next_id := sv_next_id ?v + of_nat (length ms)\<rparr>,
        out' @ refusals (sv_handle ?v) sender (sv_next_id ?v) ms)" for out'
    using Cons.prems by (intro Cons.IH) auto
  ultimately show ?case by (simp add: add.assoc add.commute)
qed

text \<open>
  C12. A lease is exclusive: whatever messages another endpoint sends, provided the frames in it have
  at least three bytes, the borrower keeps the sink, the frames that wait and their order stay as
  they are, and the stranger gets exactly one refusal for each message.
\<close>

theorem sink_lease_is_exclusive:
  assumes rep: "represents s w v" and whole: "sends_whole (os w)"
    and lent: "sv_state v = ATOLLA_SINK_STATE_LENT"
    and stranger: "\<not> udp_endpoint_equal (sender_of addr) (snk_borrower_endpoint s)"
    and inc: "incoming w d addr" "d \<noteq> []" "length d \<le> sink_recv_buf_len" "parse d = Some ms"
    and long: "list_all long_enough ms"
  shows "returns (sink_receive s w) (\<lambda>(s', w'). snk_state s' = ATOLLA_SINK_STATE_LENT \<and>
    snk_borrower_endpoint s' = snk_borrower_endpoint s \<and>
    snk_last_enqueued_frame_idx s' = snk_last_enqueued_frame_idx s \<and>
    contents (snk_pending_frames s') w' = contents (snk_pending_frames s) w \<and>
    sent (refusals (socket_handle (snk_socket s)) (sender_of addr) (next_msg_id (snk_builder s)) ms) w w')"
proof -
  have eqs: "snk_borrower_endpoint s = sv_borrower v" "socket_handle (snk_socket s) = sv_handle v"
    "next_msg_id (snk_builder s) = sv_next_id v" "snk_last_enqueued_frame_idx s = sv_last_idx v"
    "contents (snk_pending_frames s) w = map Some (concat (sv_frames v))"
    using rep by (simp_all add: represents_def)
  have "datagram_step (sender_of addr) ms v = Some (v\<lparr>sv_next_id := sv_next_id v + of_nat (length ms)\<rparr>,
      refusals (sv_handle v) (sender_of addr) (sv_next_id v) ms)"
    using stranger_steps [of v "sender_of addr" ms "[]"] lent stranger long
    by (simp add: datagram_step_def eqs)
  with sink_receive_datagram [OF rep whole inc] lent show ?thesis
    by (auto simp: eqs follows_def represents_def elim!: returns_mono)
qed

lemma sample_datagram:
  assumes "ds \<noteq> []" "list_all encodable ds" "length (datagram ds) \<le> 1024"
  shows "incoming (sample_sink_world (sample_os ms (hears ds addr)) frames) (datagram ds) addr"
    "datagram ds \<noteq> []" "length (datagram ds) \<le> sink_recv_buf_len" "parse (datagram ds) = Some ds"
  using assms by (simp_all add: datagram_not_Nil sink_recv_buf_len_def parse_datagram del: concat.simps)

theorem sink_lease_is_exclusive_witness:
  "returns (sink_receive (lent_sink 4 1) (sample_sink_world (sample_os 1 (hears [Borrow 3 20 8] [6, 6])) [[1, 2, 3]]))
     (\<lambda>(s', w'). snk_borrower_endpoint s' = sender_of [7, 7] \<and>
        contents (snk_pending_frames s') w' = [Some 1, Some 2, Some 3] \<and>
        os_log w' = [Sent 3 (Some (sender_of [6, 6])) (encode (Fail 0 3 3))])"
proof -
  let ?w = "sample_sink_world (sample_os 1 (hears [Borrow 3 20 8] [6, 6])) [[1, 2, 3]]"
  have rep: "represents (lent_sink 4 1) ?w (lent_view 4 [[1, 2, 3]])"
    using sample_represents [of "[[1, 2, 3]]" 4] by simp
  then have "contents (snk_pending_frames (lent_sink 4 1)) ?w = [Some 1, Some 2, Some 3]"
    by (simp add: represents_def sample_view_def)
  moreover have small: "[Borrow 3 20 8] \<noteq> []" "list_all encodable [Borrow 3 20 8]"
    "length (datagram [Borrow 3 20 8]) \<le> 1024" by simp_all
  ultimately show ?thesis
    using sink_lease_is_exclusive [OF rep _ _ _ sample_datagram(1) [OF small] sample_datagram(2-4) [OF small]]
    by (auto simp: sample_sink_defs sent_def error_code_defs simp del: encode.simps elim!: returns_mono)
qed

text \<open>
  C24. The exception: one ENQUEUE message with a frame of fewer than three bytes, from anybody, takes the
  sink away from its borrower. The length is checked before the sender.
\<close>

theorem short_frame_ends_lease:
  assumes rep: "represents s w v" and whole: "sends_whole (os w)"
    and lent: "sv_state v = ATOLLA_SINK_STATE_LENT" and short: "length frame < 3"
    and inc: "incoming w (encode (Enqueue i idx frame)) addr"
  shows "returns (sink_receive s w) (\<lambda>(s', w'). snk_state s' = ATOLLA_SINK_STATE_OPEN \<and>
    sent [Sent (socket_handle (snk_socket s)) (Some (sender_of addr))
      (encode (Fail (next_msg_id (snk_builder s)) i ATOLLA_ERROR_CODE_BAD_MSG))] w w')"
proof -
  let ?d = "encode (Enqueue i idx frame)"
  have len: "?d \<noteq> []" "length ?d \<le> sink_recv_buf_len" using short by (simp_all add: sink_recv_buf_len_def message_bytes_def)
  have "parse (datagram [Enqueue i idx frame]) = Some [Enqueue i idx frame]"
    using short by (intro parse_datagram) simp
  then have parse: "parse ?d = Some [Enqueue i idx frame]" by simp
  have step: "datagram_step (sender_of addr) [Enqueue i idx frame] v =
      Some (drop_lease (refuse i ATOLLA_ERROR_CODE_BAD_MSG (sender_of addr) v))"
    using lent short by (simp add: datagram_step_def sink_spec_def enqueue_step_def step_defs)
  have "socket_handle (snk_socket s) = sv_handle v" "next_msg_id (snk_builder s) = sv_next_id v"
    using rep by (simp_all add: represents_def)
  with sink_receive_datagram [OF rep whole inc len parse] lent show ?thesis
    unfolding step by (auto simp: step_defs follows_def represents_def simp del: encode.simps elim!: returns_mono)
qed

theorem short_frame_ends_lease_witness:
  "returns (sink_receive (lent_sink 4 0) (sample_sink_world (sample_os 1 (hears [Enqueue 9 0 []] [6, 6])) []))
     (\<lambda>(s', w'). snk_state s' = ATOLLA_SINK_STATE_OPEN)"
proof -
  let ?w = "sample_sink_world (sample_os 1 (hears [Enqueue 9 0 []] [6, 6])) []"
  have rep: "represents (lent_sink 4 0) ?w (lent_view 4 [])"
    using sample_represents [of "[]" 4] by simp
  have "incoming ?w (datagram [Enqueue 9 0 []]) [6, 6]" by (rule sample_sink_world_simps)
  then have inc: "incoming ?w (encode (Enqueue 9 0 [])) [6, 6]" by simp
  show ?thesis
    by (rule returns_mono [OF short_frame_ends_lease [OF rep _ _ _ inc]]) (auto simp: sample_view_def)
qed



section \<open>Loops\<close>

text \<open>
  C25. A sink whose borrower is more frames ahead than there is room for never comes back: the loop that
  makes up for the lost frames waits for an index that only moves when a frame was stored. No
  number of rounds is enough.
\<close>

theorem sink_hangs_when_full:
  assumes rep: "represents s w v" and frame: "frame_at s w block bs"
    and k: "0 < frames_ahead (snk_last_enqueued_frame_idx s) (uint (idx :: u8))"
      "frames_ahead (snk_last_enqueued_frame_idx s) (uint idx) \<le> 128"
    and full: "pending_frames_capacity < length (sv_frames v) + frames_ahead (snk_last_enqueued_frame_idx s) (uint idx)"
  shows "enqueue_loop rounds block (uint idx) (bounded_diff (snk_last_enqueued_frame_idx s) (uint idx) 256) s w = Inl Hang"
proof -
  have eq: "snk_last_enqueued_frame_idx s = sv_last_idx v" and ok: "view_ok v"
    using rep by (simp_all add: represents_def)
  then have "-1 \<le> sv_last_idx v" "sv_last_idx v \<le> 255" by (simp_all add: view_ok_def)
  moreover have idx: "0 \<le> uint idx" "uint idx \<le> 255" using u8_at_most(2) [of idx] by simp_all
  moreover have "\<not> (sv_last_idx v = -1 \<and> uint idx = 255)" using k(1) by (auto simp: eq frames_ahead_def)
  ultimately have diff: "bounded_diff (sv_last_idx v) (uint idx) 256 = int (frames_ahead (sv_last_idx v) (uint idx))"
    by (rule bounded_diff_ahead)
  then show ?thesis
    using enqueue_loop_hangs [OF rep frame idx diff] k(2) full by (simp add: eq)
qed

definition full_ring :: "u8 list list" where
  "full_ring = replicate 128 [1, 2, 3]"

theorem sink_hangs_when_full_witness:
  "\<exists>w block. frame_at (lent_sink 4 128) w block [9, 8, 7] \<and>
     (\<forall>rounds. enqueue_loop rounds block 5 1 (lent_sink 4 128) w = Inl Hang)"
proof -
  let ?s = "lent_sink 4 128" and ?w = "sample_sink_world (sample_os 1 silence) full_ring"
  let ?w' = "?w\<lparr>blocks := (blocks ?w)(1 := Some (overlay 0 [Some 9, Some 8, Some 7] (replicate 1024 (Some 0))))\<rparr>"
  let ?block = "\<lparr>blk_data = Ptr 1 0, blk_size = 3, blk_capacity = 3\<rparr>"
  have "represents ?s ?w (lent_view 4 full_ring)"
    using sample_represents [of full_ring 4] by (simp add: full_ring_def list_all_iff)
  then have rep: "represents ?s ?w' (lent_view 4 full_ring)"
    by (rule represents_heap) (auto simp: shape_def sample_sink_world_def sample_sink_def)
  have frame: "frame_at ?s ?w' ?block [9, 8, 7]"
    by (auto simp: frame_at_def bytes_at_def sample_sink_def overlay_def intro!: read_bytes_block)
  have "bounded_diff 4 5 256 = 1" "frames_ahead 4 5 = 1" by (simp_all add: bounded_diff_def frames_ahead_def)
  then have "enqueue_loop rounds ?block 5 1 ?s ?w' = Inl Hang" for rounds
    using sink_hangs_when_full [OF rep frame, of 5 rounds]
    by (simp add: sample_sink_defs full_ring_def pending_frames_capacity_def)
  with frame show ?thesis by blast
qed

text \<open>
  C11. \<^verbatim>\<open>atolla_sink_get\<close> shows the frame whose time it is: while frames are shown, it takes as many out
  of the ring as whole frame durations have passed since the time origin (one that ends just now
  does not count), but no more than there are, copies the last one taken (or the frame shown
  before) to the caller, repeated or cut to the caller's length, and moves the time origin on by
  exactly the frames taken. A frame duration thus never drifts, and a late client catches up.
\<close>

theorem sink_get_shows_frame_due:
  assumes rep: "represents s w v" and us: "caller_buffer s w ub us" "i + len \<le> length us"
    and lent: "snk_state s = ATOLLA_SINK_STATE_LENT" and started: "snk_time_origin s \<noteq> NULL_TIME"
    and k: "k = min ((unat (clock (os w) (tick w) - snk_time_origin s) - 1) div unat (snk_frame_duration_ms s))
      (length (sv_frames v))"
  shows "returns (atolla_sink_get s (Ptr ub i) len w) (\<lambda>(ok, s', w'). ok \<and>
    blocks w' ub = Some (overlay i (cycle len (if k = 0 then sv_shown v else map Some (sv_frames v ! (k - 1)))) us) \<and>
    snk_time_origin s' = snk_time_origin s + of_nat k * snk_frame_duration_ms s \<and>
    contents (snk_pending_frames s') w' = map Some (concat (drop k (sv_frames v))) \<and>
    (\<exists>v'. represents s' w' v'))"
proof -
  have eqs: "snk_state s = sv_state v" "snk_time_origin s = sv_origin v" "snk_frame_duration_ms s = sv_duration v"
    using rep by (simp_all add: represents_def)
  have "get_step (clock (os w) (tick w)) v = (True, (show_frames k v)\<lparr>sv_origin := sv_origin v + of_nat k * sv_duration v\<rparr>)"
    using lent started by (simp add: get_step_def frames_due_def k eqs Let_def)
  with atolla_sink_get_refines [OF rep us] show ?thesis
    by (auto simp: shown_to_def represents_def show_frames_def eqs elim!: returns_mono)
qed

theorem sink_get_shows_frame_due_witness:
  "returns (atolla_sink_get ((lent_sink 4 3)\<lparr>snk_time_origin := 55\<rparr>) (Ptr 6 0) 6
      (sample_sink_world (sample_os 1 silence) [[1, 2, 3], [4, 5, 6], [7, 8, 9]]))
    (\<lambda>(ok, s', w'). ok \<and> blocks w' 6 = Some (map Some [4, 5, 6, 4, 5, 6]) \<and> snk_time_origin s' = 95 \<and>
       contents (snk_pending_frames s') w' = map Some [7, 8, 9])"
proof -
  let ?f = "[[1, 2, 3], [4, 5, 6], [7, 8, 9]] :: u8 list list" and ?s = "(lent_sink 4 3)\<lparr>snk_time_origin := 55\<rparr>"
  let ?w = "sample_sink_world (sample_os 1 silence) ?f"
  have "represents (lent_sink 4 (length ?f)) ?w (lent_view 4 ?f)" by (rule sample_represents) simp_all
  then have rep: "represents ?s ?w ((lent_view 4 ?f)\<lparr>sv_origin := 55\<rparr>)"
    by (intro represents_origin) (simp add: eval_nat_numeral)
  have buf: "caller_buffer ?s ?w 6 (replicate 6 None)"
    using sample_caller_buffer [of ATOLLA_SINK_STATE_LENT "sender_of [7, 7]" 4 3 _ ?f]
    by (simp add: caller_buffer_def sink_blocks_def)
  have cyc: "cycle 6 [Some 4, Some 5, Some 6] = [Some 4, Some 5, Some 6, Some 4, Some 5, Some (6 :: u8)]"
    by (simp add: cycle_def upt_conv_Cons)
  have sel: "snk_state ?s = ATOLLA_SINK_STATE_LENT" "snk_time_origin ?s = 55" "snk_frame_duration_ms ?s = 20"
    and "sv_frames ((lent_view 4 ?f)\<lparr>sv_origin := 55\<rparr>) = ?f"
    by (simp_all add: sample_sink_defs)
  then have k: "2 = min ((unat (clock (os ?w) (tick ?w) - snk_time_origin ?s) - 1) div unat (snk_frame_duration_ms ?s))
      (length (sv_frames ((lent_view 4 ?f)\<lparr>sv_origin := 55\<rparr>)))"
    by (simp only: sel) simp
  show ?thesis
    by (rule returns_mono [OF sink_get_shows_frame_due [OF rep buf _ sel(1) _ k]])
      (auto simp: sel(2,3) NULL_TIME_def cyc sample_view_def)
qed



section \<open>From making to freeing\<close>



section \<open>Patterns and bad input\<close>

text \<open>
  C31. \<^verbatim>\<open>fill_with_pattern\<close> ends, stores into the target only, and leaves in it the pattern over and over
  from its start, cut off at its end.
\<close>

theorem fill_repeats_pattern:
  assumes "blocks h t = Some ts" "i + len \<le> length ts" "t \<noteq> b"
    and "0 < n" "read_cells (Ptr b j) n h = Inr ps"
  shows "returns (fill_with_pattern (Ptr t i) len (Ptr b j) n h) (\<lambda>h'.
    (\<forall>c. c \<noteq> t \<longrightarrow> blocks h' c = blocks h c) \<and> length (the (blocks h' t)) = length ts \<and>
    (\<forall>x. x < length ts \<longrightarrow> the (blocks h' t) ! x =
       (if i \<le> x \<and> x < i + len then ps ! ((x - i) mod n) else ts ! x)))"
proof -
  have "length ps = n" using assms(5) by (rule read_cells_length)
  then show ?thesis
    using assms by (auto simp: fill_with_pattern_cells nth_overlay cycle_def)
qed

theorem fill_repeats_pattern_witness:
  "returns (fill_with_pattern (Ptr 6 1) 5 (Ptr 3 0) 2
      ((sample_sink_world (sample_os 1 silence) [])\<lparr>blocks := (blocks (sample_sink_world (sample_os 1 silence) []))(3 := Some [Some 1, Some 2])\<rparr>))
    (\<lambda>h'. the (blocks h' 6) ! 0 = None \<and> the (blocks h' 6) ! 1 = Some 1 \<and> the (blocks h' 6) ! 4 = Some 2 \<and>
       the (blocks h' 6) ! 5 = Some 1)"
proof -
  let ?h = "(sample_sink_world (sample_os 1 silence) [])\<lparr>blocks := (blocks (sample_sink_world (sample_os 1 silence) []))(3 := Some [Some 1, Some 2])\<rparr>"
  have "blocks ?h 6 = Some (replicate 6 None)" "read_cells (Ptr 3 0) 2 ?h = Inr [Some 1, Some 2]"
    by (simp_all add: sample_sink_world_def read_cells_def)
  from fill_repeats_pattern [OF this(1) _ _ _ this(2), of 1 5] show ?thesis
    by (auto elim!: returns_mono)
qed



end
