(* ===== verification/Source_Properties.thy ===== *)
theory Source_Properties
  imports Sample_Worlds
begin

text \<open>
  What \<^verbatim>\<open>src/atolla/source.cpp\<close> promises, stated over the functions of the source: its state
  machine, the timers, the pacing of frames and the bytes that are sent, and that a source comes
  back from every call.
\<close>

section \<open>The state machine\<close>




text \<open>
  C21. Whatever a client calls and whatever arrives, a source only moves along its state machine: once in
  ERROR it stays there, and once it no longer waits it never waits again.
\<close>

theorem source_never_goes_back:
  assumes "source_ok s w" "source_env w" "caller_frame s w ub bs"
    and "list_all (source_call_allowed (length bs)) cs" "run (source_api ub) cs (s, w) = Inr (s', w')"
  shows "(src_state s = ATOLLA_SOURCE_STATE_ERROR \<longrightarrow> src_state s' = ATOLLA_SOURCE_STATE_ERROR) \<and>
    (src_state s \<noteq> ATOLLA_SOURCE_STATE_WAITING \<longrightarrow> src_state s' \<noteq> ATOLLA_SOURCE_STATE_WAITING)"
proof -
  have "source_object ub (length bs) (src_state s) 0 (blocks w) (s, w)"
    using assms(1-3) by (auto simp: source_object_def)
  from source.run_ends [OF this assms(4)] assms(5) have "source_reaches (src_state s) (src_state s')"
    by (simp add: source_object_def)
  then show ?thesis by (auto dest: source_error_absorbing source_never_waits_again)
qed

theorem source_never_goes_back_witness:
  "\<exists>s' w'. run (source_api 3) [Get_source_state, Put 3, Get_ready_count]
      (sample_source ATOLLA_SOURCE_STATE_ERROR 0, sample_source_world (sample_os 1 (hears [Lent 1] [1, 1]))) = Inr (s', w') \<and>
    src_state s' = ATOLLA_SOURCE_STATE_ERROR"
proof -
  let ?w = "sample_source_world (sample_os 1 (hears [Lent 1] [1, 1]))" and ?s = "sample_source ATOLLA_SOURCE_STATE_ERROR 0"
  let ?cs = "[Get_source_state, Put 3, Get_ready_count]"
  have env: "source_env ?w" by (rule sample_source_env) (simp_all add: polite_hears)
  have "\<exists>bs. caller_frame ?s ?w 3 bs \<and> length bs = length [10, 20, 30 :: u8]"
    using sample_caller_frame by blast
  then have "source_object 3 (length [10, 20, 30 :: u8]) (src_state ?s) 0 (blocks ?w) (?s, ?w)"
    unfolding source_object_def split_conv using sample_source_ok env by blast
  from source.run_ends [OF this, of ?cs] obtain s' w' where run: "run (source_api 3) ?cs (?s, ?w) = Inr (s', w')"
    by (auto simp: ends_returns returns_iff)
  moreover have "src_state ?s = ATOLLA_SOURCE_STATE_ERROR" by (simp add: sample_source_def)
  ultimately show ?thesis
    using source_never_goes_back [OF sample_source_ok env sample_caller_frame _ run] by auto
qed

text \<open>
  C22. A FAIL message ends the connection, and the client is told why: \<^verbatim>\<open>atolla_source_error_msg\<close> then
  returns the text for its code.
\<close>

theorem fail_message_is_explained:
  assumes ok: "source_ok s w" and whole: "sends_whole (os w)"
    and inc: "incoming w (encode (Fail i causing code)) addr"
  shows "returns (atolla_source_state s w) (\<lambda>(st, s', w'). st = ATOLLA_SOURCE_STATE_ERROR \<and>
    atolla_source_error_msg s' = Inr (Some (fail_error_msg code)) \<and> source_run [] (s, w) (s', w'))"
proof -
  let ?m = "Fail i causing code"
  have "parse (datagram [?m]) = Some [?m]" by (rule parse_datagram) simp
  moreover have "length (encode ?m) \<le> source_recv_buf_len" by (simp add: source_recv_buf_len_def)
  ultimately have arr: "arriving source_recv_buf_len w [?m]"
    using inc encode_not_Nil [of ?m] unfolding arriving_def by (auto simp del: encode.simps)
  have "returns (source_update s w) (\<lambda>(s', w'). src_state s' = ATOLLA_SOURCE_STATE_ERROR \<and>
      src_error_msg s' = Some (fail_error_msg code) \<and> source_run [] (s, w) (s', w'))"
  proof (rule returns_mono [OF source_update_effect [OF ok whole arr]], clarify)
    fix s' w' t out
    assume run: "source_run out (s, w) (s', w')" and "update_effect [?m] (clock (os w) t) s out s'"
    then obtain s1 where s1: "source_view s1 = messages_effect [?m] (source_view s)"
      "source_view s' = fst (quiet_effect (clock (os w) t) s1)"
      "out = borrow_request (snd (quiet_effect (clock (os w) t) s1)) s1"
      by (auto simp: update_effect_def heard_def)
    have "src_state s1 = ATOLLA_SOURCE_STATE_ERROR"
      using arg_cong [OF s1(1), of cv_state] by (simp add: messages_effect_def view_fails_def)
    then have "quiet_effect (clock (os w) t) s1 = (source_view s1, False)"
      by (simp add: quiet_effect_def Let_def)
    with s1 have "source_view s' = view_fails (fail_error_msg code) (source_view s)" "out = []"
      by (simp_all add: messages_effect_def borrow_request_def)
    with run show "src_state s' = ATOLLA_SOURCE_STATE_ERROR \<and> src_error_msg s' = Some (fail_error_msg code) \<and>
        source_run [] (s, w) (s', w')"
      by (simp add: source_view_def view_fails_def)
  qed
  then show ?thesis
    by (auto simp: atolla_source_state_def atolla_source_error_msg_def elim!: returns_mono)
qed

theorem fail_message_is_explained_witness:
  "returns (atolla_source_state (sample_source ATOLLA_SOURCE_STATE_OPEN 0)
      (sample_source_world (sample_os 1 (hears [Fail 1 2 5] [1, 1]))))
    (\<lambda>(st, s', w'). atolla_source_error_msg s' = Inr (Some ''The sink signalled that it did not receive packets for so long, it deems the connection no longer working. This might be due to bad signal quality or the source failing to enqueue frames for too long.''))"
proof -
  have "incoming (sample_source_world (sample_os 1 (hears [Fail 1 2 5] [1, 1]))) (datagram [Fail 1 2 5]) [1, 1]"
    by (rule sample_source_world_simps)
  then have inc: "incoming (sample_source_world (sample_os 1 (hears [Fail 1 2 5] [1, 1]))) (encode (Fail 1 2 5)) [1, 1]"
    by simp
  show ?thesis
    by (rule returns_mono [OF fail_message_is_explained [OF sample_source_ok _ inc]])
      (auto simp: fail_error_msg_def error_code_defs)
qed

section \<open>Timers\<close>



section \<open>Frames\<close>



text \<open>An open source that hears nothing, and whose sink is not overdue, does not change in an update.\<close>

lemma quiet_open_update:
  assumes ok: "source_ok s w" and none: "nothing_incoming w" and open_state: "src_state s = ATOLLA_SOURCE_STATE_OPEN"
    and alive: "clock (os w) (Suc (tick w)) - the (src_last_recv_lent_time s) < src_disconnect_timeout_ms s"
  shows "returns (source_update s w) (\<lambda>(s', w'). s' = s \<and> tick w' = tick w + 2 \<and> os w' = os w)"
proof -
  have "arriving source_recv_buf_len w []" using none by (simp add: arriving_def)
  from source_receive_effect [OF ok this] obtain w1 where recv: "source_receive s w = Inr (s, w1)"
    "tick w1 = Suc (tick w)" "source_run [] (s, w) (s, w1)"
    by (auto simp: returns_iff)
  moreover have "os w1 = os w" using recv(3) by (rule source_run_os)
  moreover obtain t where "src_last_recv_lent_time s = Some t"
    using ok open_state by (auto simp: source_ok_def state_ok_def)
  ultimately show ?thesis
    using open_state alive
    by (simp add: source_update_def source_manage_borrow_packet_loss_def source_ensure_lent_resent_def time_now_split)
qed

text \<open>
  An open source whose sink is not overdue and that has put no frame puts one at once, if nothing
  arrives and the operating system takes the datagram.
\<close>

lemma quiet_first_put:
  assumes ok: "source_ok s w" and env: "source_env w" and open_state: "src_state s = ATOLLA_SOURCE_STATE_OPEN"
    and none: "\<And>t. \<exists>e. sys_recvfrom (os w) t = Recv_error e" and accepts: "accepts_all (os w)"
    and alive: "\<And>t. t \<le> tick w + 5 \<Longrightarrow>
      clock (os w) t - the (src_last_recv_lent_time s) < src_disconnect_timeout_ms s"
    and first: "src_last_frame_time s = SOURCE_NULL_TIME"
    and frame: "caller_frame s w ub bs" "n \<le> length bs" "n \<le> 65532"
  shows "returns (atolla_source_put s (Ptr ub 0) n w) (\<lambda>(ok, s', w'). ok)"
proof -
  have step: "\<exists>w2. source_update s w1 = Inr (s, w2) \<and> between (s, w) (s, w2) \<and> tick w2 = tick w1 + 2"
    if b: "between (s, w) (s, w1)" and t: "Suc (tick w1) \<le> tick w + 5" for w1
  proof -
    have os1: "os w1 = os w" using b by (auto simp: between_def source_run_os)
    have none1: "nothing_incoming w1" using none [of "tick w1"] os1 by (simp add: nothing_incoming_def)
    from quiet_open_update [OF between_ok [OF b] none1 open_state] alive [OF t] os1 obtain w2 where
      up: "source_update s w1 = Inr (s, w2)" "tick w2 = tick w1 + 2" by (auto simp: returns_iff)
    with source_update_between [OF between_ok [OF b] between_env [OF env b]] have "between (s, w1) (s, w2)"
      by simp
    with b up show ?thesis by (blast intro: between_trans)
  qed
  obtain w1 where w1: "source_update s w = Inr (s, w1)" "between (s, w) (s, w1)" "tick w1 = tick w + 2"
    using step [OF between_refl [OF ok]] by auto
  obtain w2 where w2: "source_update s w1 = Inr (s, w2)" "between (s, w) (s, w2)" "tick w2 = tick w + 4"
    using step [OF w1(2)] w1(3) by auto
  obtain w3 where w3: "source_update s w2 = Inr (s, w3)" and b: "between (s, w) (s, w3)"
    using step [OF w2(2)] w2(3) by auto
  have "caller_frame s w3 ub bs" by (rule caller_frame_between [OF frame(1) b])
  then have read: "read_cells (Ptr ub 0) (length (take n bs)) w3 = Inr (map Some (take n bs))"
    using caller_frame_read [of s w3 ub bs n] frame(2) by simp
  have len: "length (take n bs) = n" "length (take n bs) \<le> 65532" using frame by simp_all
  have "os w3 = os w" using b by (auto simp: between_def source_run_os)
  with accepts have "ok'" if "frame_put (take n bs) (s, w3) (ok', s', w')" for ok' s' w'
    using that by (auto simp: frame_put_def source_run_def sent_def delivered_def split: if_splits)
  then have "returns (source_send_frame s (Ptr ub 0) n w3) (\<lambda>(ok, s', w'). ok)"
    using source_send_frame_puts [OF between_ok [OF b] between_env [OF env b] read len(2)]
    unfolding len(1) by (auto elim!: returns_mono)
  then show ?thesis
    using w1(1) w2(1) w3 open_state first
    by (simp add: atolla_source_put_def atolla_source_state_def atolla_source_put_ready_timeout_def)
qed

lemma sample_put:
  "returns (atolla_source_put (sample_source ATOLLA_SOURCE_STATE_OPEN SOURCE_NULL_TIME) (Ptr 3 0) 3
      (sample_source_world (sample_os 1 silence))) (\<lambda>(ok, s', w'). ok)"
proof (rule quiet_first_put [OF sample_source_ok _ _ _ _ _ _ sample_caller_frame])
  show "source_env (sample_source_world (sample_os 1 silence))" by (rule sample_source_env) simp_all
  fix t assume "t \<le> tick (sample_source_world (sample_os 1 silence)) + 5"
  then have "t < 750" "t < 2 ^ 32" by simp_all
  then have "(of_nat t :: u32) < 750" by (simp add: word_less_nat_alt unat_of_nat)
  then show "clock (os (sample_source_world (sample_os 1 silence))) t -
      the (src_last_recv_lent_time (sample_source ATOLLA_SOURCE_STATE_OPEN SOURCE_NULL_TIME))
      < src_disconnect_timeout_ms (sample_source ATOLLA_SOURCE_STATE_OPEN SOURCE_NULL_TIME)"
    by (simp add: sample_source_def)
qed (simp_all add: sample_source_def silence_def)






text \<open>
  C10. \<^verbatim>\<open>atolla_source_make\<close> without \<^verbatim>\<open>async_make\<close> returns, whatever the sink answers or does not
  answer, as long as the clock passes the disconnect timeout: enough rounds of its loop exist,
  and the source it returns waits no more.
\<close>

theorem blocking_make_returns:
  assumes spec: "source_spec_ok spec" "\<not> spec_async_make spec" and env: "source_env w"
    and sys: "setsockopt_works (os w)" "resolver_works (os w)"
    and clock: "clock_runs (os w) (spec_deadline spec)"
  shows "\<exists>N. \<forall>rounds\<ge>N. returns (atolla_source_make rounds spec w) (\<lambda>(s, w').
    source_ok s w' \<and> source_env w' \<and> src_state s \<noteq> ATOLLA_SOURCE_STATE_WAITING)"
  using assms by (rule make_blocking_returns)

theorem blocking_make_returns_witness:
  "\<exists>N. \<forall>rounds\<ge>N. returns (atolla_source_make rounds (sample_spec False)
      (sample_source_world (sample_os 1 silence))) (\<lambda>(s, w').
    source_ok s w' \<and> source_env w' \<and> src_state s \<noteq> ATOLLA_SOURCE_STATE_WAITING)"
proof -
  have env: "source_env (sample_source_world (sample_os 1 silence))" by (rule sample_source_env) simp_all
  show ?thesis
    by (rule blocking_make_returns [OF sample_spec_ok _ env])
      (simp_all add: sample_spec_def spec_deadline_def disconnect_timeout_ms_default_def sample_clock_runs [unfolded One_nat_def])
qed



end
