(* ===== verification/Sink_Moves.thy ===== *)
theory Sink_Moves
  imports Sink_Api
begin

text \<open>
  What one call of the interface of a sink can do to its abstract state, whatever the network
  brings, and what that keeps: the answers it gives, whose frames it takes, and what it shows.
\<close>

lemma represents_os [simp]: "represents s (w\<lparr>os := sys\<rparr>) v = represents s w v"
proof -
  have "shape (w\<lparr>os := sys\<rparr>) = shape w" by (simp add: shape_def)
  then show ?thesis by (auto elim: represents_heap)
qed

section \<open>The moves\<close>

text \<open>\<open>M\<close> holds the messages the sink may receive, each with its sender.\<close>

inductive sink_moves :: "(UdpEndpoint \<times> message) set \<Rightarrow> Sink_View \<Rightarrow> sink_step \<Rightarrow> bool" for M v where
  stays: "sink_moves M v (v, [])"
| hears: "(sender, m) \<in> M \<Longrightarrow> message_step sender m v = Some r \<Longrightarrow> sink_moves M v (keepalive due r)"
| silent: "sink_moves M v (keepalive due (timeout_step now last_recv v))"
| displays: "sink_moves M v (snd (get_step now v), [])"

lemma datagram_step_single: "datagram_step sender [m] v = message_step sender m v"
  by (cases "message_step sender m v") (auto simp: datagram_step_def sink_spec_def)

lemma sink_state_moves:
  assumes rep: "represents s w v" and whole: "sends_whole (os w)" and M: "brings M sink_recv_buf_len (os w)"
    and call: "atolla_sink_state s w = Inr (st, s', w')"
  shows "\<exists>r. sink_moves M v r \<and> follows r (s, w) (s', w')"
proof (cases "snk_state s = ATOLLA_SINK_STATE_ERROR")
  case True
  with call rep have "follows (v, []) (s, w) (s', w')" by (simp add: atolla_sink_state_def follows_def)
  then show ?thesis using stays by blast
next
  case False
  then have up: "sink_update s w = Inr (s', w')" using call by (cases "sink_update s w") (auto simp: atolla_sink_state_def)
  show ?thesis
  proof (cases "nothing_incoming w")
    case True
    from sink_receive_nothing [OF rep whole True] have
      "case Some (timeout_step (clock (os w) (Suc (tick w))) (snk_last_recv_time s) v) of
         None \<Rightarrow> sink_receive s w = Inl Hang | Some r \<Rightarrow> returns (sink_receive s w) (follows r (s, w))"
      by (simp add: realises_def)
    from sink_update_realises [OF whole this] up show ?thesis by (simp del: split_paired_Ex) (blast intro: silent)
  next
    case False
    then obtain d addr where d: "incoming w d addr" "d \<noteq> []" by (rule not_nothing_incoming)
    then obtain m where m: "(sender_of addr, m) \<in> M" "encodable m" "d = encode m" "length d \<le> sink_recv_buf_len"
      using M unfolding brings_def incoming_def by blast
    have "case message_step (sender_of addr) m v of
        None \<Rightarrow> sink_receive s w = Inl Hang | Some r \<Rightarrow> returns (sink_receive s w) (follows r (s, w))"
      using sink_receive_datagram [OF rep whole d m(4), of "[m]"] m(2,3)
      by (auto simp: parse_encode datagram_step_single elim!: returns_mono split: option.splits)
    from sink_update_realises [OF whole this] up m(1) show ?thesis
      by (simp del: split_paired_Ex split: option.splits) (blast intro: hears)
  qed
qed

lemma sink_api_moves:
  assumes rep: "represents s w v" and whole: "sends_whole (os w)" and M: "brings M sink_recv_buf_len (os w)"
    and us: "caller_buffer s w ub us" and allowed: "sink_call_allowed (length us) c"
    and call: "sink_api ub c (s, w) = Inr (s', w')"
  obtains v' out us' where "sink_moves M v (v', out)" "represents s' w' v'" "sent out w w'"
    "caller_buffer s' w' ub us'" "length us' = length us"
proof (cases c)
  case Get_state
  with call obtain st where "atolla_sink_state s w = Inr (st, s', w')"
    by (cases "atolla_sink_state s w") auto
  from sink_state_moves [OF rep whole M this] obtain v' out where
    "sink_moves M v (v', out)" "follows (v', out) (s, w) (s', w')" by auto
  moreover from this(2) have "caller_buffer s' w' ub us"
    by (intro caller_buffer_keeps [OF us]) (simp add: follows_def)
  ultimately show thesis by (intro that [of v' out us]) (simp_all add: follows_def)
next
  case Get_error_msg
  with call rep us show thesis by (intro that [OF stays]) auto
next
  case (Get_frame len)
  with allowed have fits: "0 + len \<le> length us" by simp
  from Get_frame call obtain ok where "atolla_sink_get s (Ptr ub 0) len w = Inr (ok, s', w')"
    by (cases "atolla_sink_get s (Ptr ub 0) len w") auto
  with atolla_sink_get_refines [OF rep us fits] have
    shown: "shown_to ub 0 len us s w (get_step (clock (os w) (tick w)) v) (ok, s', w')" by simp
  have "length (overlay 0 (cycle len xs) us) = length us" for xs using fits by simp
  with shown us show thesis
    by (intro that [OF displays [where now = "clock (os w) (tick w)"],
          where us' = "if ok then overlay 0 (cycle len (sv_shown (snd (get_step (clock (os w) (tick w)) v)))) us else us"])
      (auto simp: shown_to_def caller_buffer_def split: prod.splits if_splits)
qed

section \<open>What the moves keep\<close>

text \<open>
  \<open>leased A C v\<close>: the sink is lent to one of \<open>A\<close> only, the frames that wait satisfy \<open>C\<close>, and so does
  the frame that is shown, once one was shown under the lease.
\<close>

definition leased :: "UdpEndpoint set \<Rightarrow> (u8 list \<Rightarrow> bool) \<Rightarrow> Sink_View \<Rightarrow> bool" where
  "leased A C v \<longleftrightarrow> (sv_state v = ATOLLA_SINK_STATE_LENT \<longrightarrow> sv_borrower v \<in> A) \<and> list_all C (sv_frames v) \<and>
     (sv_state v = ATOLLA_SINK_STATE_LENT \<and> sv_origin v \<noteq> NULL_TIME \<longrightarrow> (\<exists>f. C f \<and> sv_shown v = map Some f))"

text \<open>An answer grants the sink to one of \<open>A\<close>, or refuses a message.\<close>

definition answers :: "UdpEndpoint set \<Rightarrow> os_event \<Rightarrow> bool" where
  "answers A e \<longleftrightarrow> (\<exists>h to m. e = Sent h (Some to) (encode m) \<and>
     (\<exists>i. m = Lent i \<and> to \<in> A \<or> (\<exists>causing code. m = Fail i causing code)))"

definition kept :: "UdpEndpoint set \<Rightarrow> (u8 list \<Rightarrow> bool) \<Rightarrow> Sink_View \<Rightarrow> sink_step \<Rightarrow> bool" where
  "kept A C v r \<longleftrightarrow> leased A C (fst r) \<and> list_all (answers A) (snd r) \<and> sv_frame_size (fst r) = sv_frame_size v"

lemma answers_intros [intro]:
  "to \<in> A \<Longrightarrow> answers A (Sent h (Some to) (encode (Lent i)))"
  "answers A (Sent h (Some to) (encode (Fail i causing code)))"
  unfolding answers_def by blast+

lemma leased_next_id [simp]: "leased A C (v\<lparr>sv_next_id := i\<rparr>) = leased A C v"
  by (simp add: leased_def)

lemma kept_stays: "leased A C v \<Longrightarrow> kept A C v (v, [])"
  by (simp add: kept_def)

lemma kept_refuse: "leased A C v \<Longrightarrow> kept A C v (refuse i code to v)"
  by (auto simp: kept_def refuse_def reply_def simp del: encode.simps)

lemma kept_grant: "leased A C v' \<Longrightarrow> to \<in> A \<Longrightarrow> sv_frame_size v' = sv_frame_size v \<Longrightarrow> kept A C v (reply Lent to v')"
  by (auto simp: kept_def reply_def simp del: encode.simps)

lemma kept_drop_lease: "kept A C v r \<Longrightarrow> kept A C v (drop_lease r)"
  by (cases r) (auto simp: kept_def drop_lease_def leased_def)

lemma kept_keepalive:
  assumes "kept A C v r"
  shows "kept A C v (keepalive due r)"
  using assms by (cases r) (auto simp: kept_def keepalive_def reply_def leased_def simp del: encode.simps)

lemma endpoint_equal_sender: "udp_endpoint_equal (sender_of a) (sender_of b) \<longleftrightarrow> a = b"
  by (auto simp: udp_endpoint_equal_def sender_of_def)

text \<open>
  \<open>fair A C n M\<close>: of the messages in \<open>M\<close>, the requests the sink can serve come from \<open>A\<close> only, and
  the frames that \<open>A\<close> sends satisfy \<open>C\<close> when the sink has fitted them to its \<open>n\<close> channels.
\<close>

definition fair :: "UdpEndpoint set \<Rightarrow> (u8 list \<Rightarrow> bool) \<Rightarrow> nat \<Rightarrow> (UdpEndpoint \<times> message) set \<Rightarrow> bool" where
  "fair A C n M \<longleftrightarrow> A \<subseteq> range sender_of \<and> (\<forall>(sender, m)\<in>M. sender \<in> range sender_of \<and> (case m of
       Borrow i fl bl \<Rightarrow> 10 \<le> unat fl \<and> unat bl \<le> 128 \<longrightarrow> sender \<in> A
     | Enqueue i idx f \<Rightarrow> sender \<in> A \<longrightarrow> C (cycle n f)
     | _ \<Rightarrow> True))"

lemma kept_borrow:
  assumes "leased A C v" "10 \<le> unat fl \<and> unat bl \<le> 128 \<longrightarrow> sender \<in> A"
  shows "kept A C v (borrow_step sender i fl bl v)"
proof -
  let ?v = "v\<lparr>sv_state := ATOLLA_SINK_STATE_LENT, sv_borrower := sender, sv_duration := ucast fl,
    sv_origin := NULL_TIME, sv_last_idx := -1\<rparr>"
  have "kept A C v (reply Lent sender ?v)"
    if "\<not> uint fl < frame_length_ms_min" "\<not> unat bl > pending_frames_capacity"
  proof (rule kept_grant)
    show sender: "sender \<in> A"
      using assms(2) that u8_at_least [of fl 10] by (simp add: frame_length_ms_min_def pending_frames_capacity_def)
    then show "leased A C ?v" using assms(1) by (simp add: leased_def)
  qed simp
  with assms(1) show ?thesis
    by (auto simp: borrow_step_def kept_refuse kept_drop_lease kept_stays)
qed

lemma kept_enqueue:
  assumes leased: "leased A C v" and A: "A \<subseteq> range sender_of" "sender \<in> range sender_of"
    and frame: "sender \<in> A \<longrightarrow> C (cycle (sv_frame_size v) f)" and step: "enqueue_step sender i idx f v = Some r"
  shows "kept A C v r"
proof -
  have "sender \<in> A" if "sv_state v = ATOLLA_SINK_STATE_LENT" "udp_endpoint_equal sender (sv_borrower v)"
    using that leased A endpoint_equal_sender by (auto simp: leased_def)
  then have "kept A C v (v\<lparr>sv_frames := sv_frames v @ replicate k (cycle (sv_frame_size v) f), sv_last_idx := uint idx\<rparr>, [])"
    if "sv_state v = ATOLLA_SINK_STATE_LENT" "udp_endpoint_equal sender (sv_borrower v)" for k
    using that leased frame by (auto simp: kept_def leased_def list_all_iff)
  moreover have "kept A C v (v, [])" using leased by (rule kept_stays)
  ultimately show ?thesis
    using step leased
    by (auto simp: enqueue_step_def Let_def kept_refuse kept_drop_lease split: AtollaSinkState.splits if_splits)
qed

lemma kept_get:
  assumes "leased A C v"
  shows "kept A C v (snd (get_step now v), [])"
proof -
  have shown: "\<exists>f. C f \<and> sv_shown (show_frames k v) = map Some f" "list_all C (sv_frames (show_frames k v))"
    if "0 < k" "k \<le> length (sv_frames v)" for k
    using that assms by (auto simp: show_frames_def leased_def list_all_length intro!: exI [of _ "sv_frames v ! (k - 1)"])
  have same: "sv_state (show_frames k v) = sv_state v" "sv_borrower (show_frames k v) = sv_borrower v"
    "sv_frame_size (show_frames k v) = sv_frame_size v" "show_frames 0 v = v" for k
    by (simp_all add: show_frames_def)
  let ?k = "min (frames_due now v) (length (sv_frames v))"
  have first: "\<exists>f. C f \<and> sv_shown (show_frames 1 v) = map Some f" "list_all C (sv_frames (show_frames 1 v))"
    if "sv_frames v \<noteq> []"
    using that shown [of 1] by (cases "sv_frames v"; simp)+
  show ?thesis
  proof (cases "?k = 0")
    case True
    then show ?thesis
      using assms first same by (auto simp: kept_def get_step_def Let_def leased_def)
  next
    case False
    then have "\<exists>f. C f \<and> sv_shown (show_frames ?k v) = map Some f" "list_all C (sv_frames (show_frames ?k v))"
      using shown [of ?k] by simp_all
    then show ?thesis
      using assms first same by (auto simp: kept_def get_step_def Let_def leased_def)
  qed
qed

lemma moves_kept:
  assumes move: "sink_moves M v r" and leased: "leased A C v" and fair: "fair A C (sv_frame_size v) M"
  shows "kept A C v r"
  using move
proof cases
  case stays
  then show ?thesis using leased by (simp add: kept_stays)
next
  case (hears sender m r' due)
  have "kept A C v r'"
  proof (cases m)
    case (Borrow i fl bl)
    with hears fair leased show ?thesis by (auto simp: fair_def intro!: kept_borrow)
  next
    case (Enqueue i idx f)
    with hears fair have "A \<subseteq> range sender_of" "sender \<in> range sender_of" "sender \<in> A \<longrightarrow> C (cycle (sv_frame_size v) f)"
      by (auto simp: fair_def)
    with Enqueue hears leased show ?thesis by (intro kept_enqueue) auto
  qed (use hears leased in \<open>auto intro: kept_refuse\<close>)
  with hears show ?thesis by (simp add: kept_keepalive)
next
  case (silent due now last_recv)
  then show ?thesis
    using leased by (auto simp: timeout_step_def intro!: kept_keepalive kept_drop_lease kept_refuse kept_stays)
next
  case (displays now)
  then show ?thesis using leased by (simp add: kept_get)
qed

end
