(* ===== verification/Session.thy ===== *)
theory Session
  imports Sink_Properties Source_Properties Sink_Moves
begin

text \<open>
  What the properties that span a sink and a source rest on: the exact effect of an answer on a
  waiting source, and the steps of the protocol for the datagrams a source sends.
\<close>

section \<open>The answer of the sink\<close>

definition opened :: "u32 \<Rightarrow> Source \<Rightarrow> Source" where
  "opened now c = c\<lparr>src_state := ATOLLA_SOURCE_STATE_OPEN, src_last_frame_time := SOURCE_NULL_TIME,
                    src_last_recv_lent_time := Some now\<rparr>"

lemma source_iterate_lent:
  assumes "messages_in (src_recv_buf c) w [Lent i]" "src_state c = ATOLLA_SOURCE_STATE_WAITING"
  shows "source_iterate_recv_buf c (length (datagram [Lent i])) w =
    Inr (opened (clock (os w) (tick w)) c, w\<lparr>tick := Suc (tick w)\<rparr>)"
proof -
  from assms(1) obtain rb cs where rb: "src_recv_buf c = Ptr rb 0"
    and hold: "remaining rb (msg_iter_make (Ptr rb 0) (length (datagram [Lent i]))) [Lent i] w"
    by (rule messages_inE)
  define rel where "rel = (\<lambda>done c' w'. if done
    then c' = opened (clock (os w) (tick w)) c \<and> w' = w\<lparr>tick := Suc (tick w)\<rparr> else c' = c \<and> w' = w)"
  let ?spec = "\<lambda>m done. if \<not> done \<and> m = Lent i then Some True else None"
  have start: "rel False c w" by (simp add: rel_def)
  have body: "returns (source_handle_message it c' w') (\<lambda>(c'', w''). rel d' c'' w'' \<and> remaining rb it (m # ms) w'')"
    if "rel d c' w'" "remaining rb it (m # ms) w'" "?spec m d = Some d'" for it m ms d d' c' w'
  proof -
    from that(1,3) have m: "m = Lent i" and d': d' and now: "c' = c" "w' = w"
      by (auto simp: rel_def split: if_splits)
    have "remaining rb it (m # ms) (w\<lparr>tick := t\<rparr>)" for t
      using that(2) now by (intro remaining_cong [OF that(2)]) simp
    with at_message_header(1) [OF remaining_ConsD [OF that(2)]] m d' now assms(2) show ?thesis
      by (simp add: source_handle_message_def source_lent_def time_now_split rel_def opened_def)
  qed
  have run: "run_spec ?spec [Lent i] False = Some True" by simp
  from iter.for_each_implements [where rel = rel and spec = ?spec, OF body start hold run]
  show ?thesis by (auto simp: source_iterate_recv_buf_def rb rel_def returns_iff)
qed

lemma source_hears_lent:
  assumes ok: "source_ok c w" and waiting: "src_state c = ATOLLA_SOURCE_STATE_WAITING"
    and inc: "incoming w (encode (Lent i)) addr"
    and prompt: "clock (os w) (tick w + 2) - clock (os w) (tick w + 1) < src_disconnect_timeout_ms c"
  shows "returns (source_update c w) (\<lambda>(c', w'). c' = opened (clock (os w) (tick w + 1)) c)"
proof -
  from ok obtain rb cs where rb: "src_recv_buf c = Ptr rb 0" "blocks w rb = Some cs"
    "length cs = source_recv_buf_len"
    by (auto simp: source_ok_def source_memory_def live_def)
  let ?w = "w\<lparr>blocks := (blocks w)(rb := Some (overlay 0 (map Some (encode (Lent i))) cs)), tick := Suc (tick w)\<rparr>"
  have d: "length (encode (Lent i)) \<le> source_recv_buf_len" by (simp add: source_recv_buf_len_def)
  have parsed: "parse (encode (Lent i)) = Some [Lent i]" using parse_datagram [of "[Lent i]"] by simp
  have "messages_in (src_recv_buf c) ?w [Lent i]"
    using messages_in_received [OF parsed, of cs rb w] d rb by (simp add: messages_in_def del: encode.simps)
  from source_iterate_lent [OF this waiting]
  have "source_iterate_recv_buf c (length (encode (Lent i))) ?w =
      Inr (opened (clock (os w) (tick w + 1)) c, ?w\<lparr>tick := tick w + 2\<rparr>)"
    by (simp del: encode.simps)
  moreover have "udp_socket_receive (src_sock c) (Ptr rb 0) source_recv_buf_len False w =
      Inr (make_success_result, length (encode (Lent i)), ?w)"
    using udp_receive_datagram [OF inc encode_not_Nil d rb(2)] rb(3)
    by (simp add: udp_socket_receive_def make_success_result_def del: encode.simps)
  ultimately have "source_receive c w = Inr (opened (clock (os w) (tick w + 1)) c, ?w\<lparr>tick := tick w + 2\<rparr>)"
    by (simp add: source_receive_def rb(1) make_success_result_def del: encode.simps)
  with prompt show ?thesis
    by (simp add: source_update_def source_manage_borrow_packet_loss_def source_ensure_lent_resent_def
        opened_def time_now_split numeral_2_eq_2 not_le del: encode.simps)
qed

section \<open>The datagrams of a source\<close>

lemma single_datagram_step:
  assumes "message_step sender m v = Some (v', out)"
  shows "datagram_step sender [m] v = Some (v', out)"
  using assms by (simp add: datagram_step_def sink_spec_def)

lemma keepalive_keeps:
  "sv_state (fst (keepalive due r)) = sv_state (fst r)"
  "sv_borrower (fst (keepalive due r)) = sv_borrower (fst r)"
  "sv_duration (fst (keepalive due r)) = sv_duration (fst r)"
  "sv_last_idx (fst (keepalive due r)) = sv_last_idx (fst r)"
  "sv_frames (fst (keepalive due r)) = sv_frames (fst r)"
  "sv_frame_size (fst (keepalive due r)) = sv_frame_size (fst r)"
  "sv_origin (fst (keepalive due r)) = sv_origin (fst r)"
  "\<exists>more. snd (keepalive due r) = snd r @ more"
  by (cases r; auto simp: keepalive_def reply_def)+

lemma granted_step:
  assumes "sv_state v = ATOLLA_SINK_STATE_OPEN" "10 \<le> unat fl" "unat bl \<le> 128"
  shows "datagram_step sender [Borrow i fl bl] v = Some (reply Lent sender
    (v\<lparr>sv_state := ATOLLA_SINK_STATE_LENT, sv_borrower := sender, sv_duration := ucast fl,
       sv_origin := NULL_TIME, sv_last_idx := -1\<rparr>))"
proof -
  have "int 10 \<le> int (unat fl)" using assms(2) by linarith
  then have "\<not> uint fl < 10" by simp
  with assms(1,3) show ?thesis
    by (simp add: datagram_step_def sink_spec_def borrow_step_def may_borrow_def frame_length_ms_min_def
        pending_frames_capacity_def split_def)
qed

text \<open>A request that reaches a free sink, and that it can serve.\<close>

lemma sink_hears_borrow:
  assumes sink: "represents s w v" "sv_state v = ATOLLA_SINK_STATE_OPEN" "sends_whole (os w)"
    and inc: "incoming w (encode (Borrow i fl bl)) addr" and served: "10 \<le> unat fl" "unat bl \<le> 128"
  shows "returns (atolla_sink_state s w) (\<lambda>(st, s', w'). st = ATOLLA_SINK_STATE_LENT \<and> keeps (s, w) (s', w') \<and>
    (\<exists>v' more. represents s' w' v' \<and> sv_state v' = ATOLLA_SINK_STATE_LENT \<and> sv_borrower v' = sender_of addr \<and>
      sv_duration v' = ucast fl \<and> sv_origin v' = NULL_TIME \<and> sv_last_idx v' = -1 \<and>
      sv_frames v' = sv_frames v \<and> sv_frame_size v' = sv_frame_size v \<and>
      sent (Sent (sv_handle v) (Some (sender_of addr)) (encode (Lent (sv_next_id v))) # more) w w'))"
proof -
  let ?d = "encode (Borrow i fl bl)"
  let ?v = "v\<lparr>sv_state := ATOLLA_SINK_STATE_LENT, sv_borrower := sender_of addr,
    sv_duration := ucast fl, sv_origin := NULL_TIME, sv_last_idx := -1\<rparr>"
  let ?r = "(?v\<lparr>sv_next_id := sv_next_id ?v + 1\<rparr>,
      [Sent (sv_handle ?v) (Some (sender_of addr)) (encode (Lent (sv_next_id ?v)))])"
  have parsed: "parse ?d = Some [Borrow i fl bl]" using parse_datagram [of "[Borrow i fl bl]"] by simp
  have len: "length ?d \<le> sink_recv_buf_len" by (simp add: sink_recv_buf_len_def)
  note step = granted_step [OF sink(2) served, unfolded reply_def]
  show ?thesis
  proof (rule returns_mono [OF sink_state_follows [OF sink(1) _ sink(3) inc encode_not_Nil len parsed,
          unfolded step option.case]])
    show "sv_state v \<noteq> ATOLLA_SINK_STATE_ERROR" using sink(2) by simp
  next
    fix x
    assume "case x of (st, s', w') \<Rightarrow> \<exists>due. follows (keepalive due ?r) (s, w) (s', w') \<and>
      st = sv_state (fst (keepalive due ?r))"
    then obtain st s' w' due where x: "x = (st, s', w')" "st = sv_state (fst (keepalive due ?r))"
      and follows: "follows (keepalive due ?r) (s, w) (s', w')" by (cases x) auto
    obtain more where "snd (keepalive due ?r) = snd ?r @ more" using keepalive_keeps(8) by blast
    then have "sent (Sent (sv_handle v) (Some (sender_of addr)) (encode (Lent (sv_next_id v))) # more) w w'"
      using followsD(2) [OF follows] by simp
    with followsD(1,3) [OF follows] x show "case x of (st, s', w') \<Rightarrow> st = ATOLLA_SINK_STATE_LENT \<and> keeps (s, w) (s', w') \<and>
      (\<exists>v' more. represents s' w' v' \<and> sv_state v' = ATOLLA_SINK_STATE_LENT \<and> sv_borrower v' = sender_of addr \<and>
        sv_duration v' = ucast fl \<and> sv_origin v' = NULL_TIME \<and> sv_last_idx v' = -1 \<and>
        sv_frames v' = sv_frames v \<and> sv_frame_size v' = sv_frame_size v \<and>
        sent (Sent (sv_handle v) (Some (sender_of addr)) (encode (Lent (sv_next_id v))) # more) w w')"
      by (auto simp: keepalive_keeps simp del: encode.simps intro!: exI [of _ "fst (keepalive due ?r)"])
  qed
qed

text \<open>
  A frame of the borrower with an index \<open>n + 1\<close> after the last one: it stands for the \<open>n\<close> lost
  frames before it as well.
\<close>

lemma sink_hears_frame:
  assumes sink: "represents s w v" "sv_state v = ATOLLA_SINK_STATE_LENT" "sv_borrower v = sender_of addr"
      "sends_whole (os w)"
    and inc: "incoming w (encode (Enqueue i (word_of_int idx) f)) addr"
    and f: "3 \<le> length f" "length f + 8 \<le> sink_recv_buf_len"
    and idx: "idx mod 256 = (sv_last_idx v + int (Suc n)) mod 256" "length (sv_frames v) + Suc n \<le> 128"
  shows "returns (atolla_sink_state s w) (\<lambda>(st, s', w'). st = ATOLLA_SINK_STATE_LENT \<and> os w' = os w \<and>
    (\<exists>v'. represents s' w' v' \<and> sv_state v' = ATOLLA_SINK_STATE_LENT \<and> sv_borrower v' = sender_of addr \<and>
      sv_frame_size v' = sv_frame_size v \<and> sv_origin v' = sv_origin v \<and> sv_last_idx v' = idx mod 256 \<and>
      sv_frames v' = sv_frames v @ replicate (Suc n) (cycle (sv_frame_size v) f)))"
proof -
  let ?m = "Enqueue i (word_of_int idx) f"
  let ?v = "v\<lparr>sv_frames := sv_frames v @ replicate (Suc n) (cycle (sv_frame_size v) f), sv_last_idx := idx mod 256\<rparr>"
  have byte: "uint (word_of_int idx :: u8) = idx mod 256" by (simp add: uint_word_of_int)
  have "(idx mod 256 - sv_last_idx v) mod 256 = int (Suc n) mod 256"
    unfolding idx(1) by (simp add: mod_diff_left_eq)
  also have "\<dots> = int (Suc n)" using idx(2) by simp
  finally have "frames_ahead (sv_last_idx v) (idx mod 256) = Suc n" unfolding frames_ahead_def by simp
  then have "message_step (sender_of addr) ?m v = Some (?v, [])"
    using sink(2,3) f(1) idx(2) byte by (simp add: enqueue_step_def Let_def pending_frames_capacity_def)
  note step = single_datagram_step [OF this]
  have "encodable ?m" using f(2) by (simp add: sink_recv_buf_len_def)
  then have parsed: "parse (encode ?m) = Some [?m]" using parse_datagram [of "[?m]"] by simp
  have len: "length (encode ?m) \<le> sink_recv_buf_len" using f(2) by simp
  show ?thesis
  proof (rule returns_mono [OF sink_state_follows [OF sink(1) _ sink(4) inc encode_not_Nil len parsed,
          unfolded step option.case]])
    show "sv_state v \<noteq> ATOLLA_SINK_STATE_ERROR" using sink(2) by simp
  next
    fix x assume "case x of (st, s', w') \<Rightarrow> \<exists>due. follows (keepalive due (?v, [])) (s, w) (s', w') \<and>
      st = sv_state (fst (keepalive due (?v, [])))"
    then obtain st s' w' due where "x = (st, s', w')" "st = sv_state (fst (keepalive due (?v, [])))"
      and fol: "follows (keepalive due (?v, [])) (s, w) (s', w')" by (cases x) auto
    with followsD(1) [OF fol] sent_os [OF followsD(2) [OF fol]] sink(2,3)
    show "case x of (st, s', w') \<Rightarrow> st = ATOLLA_SINK_STATE_LENT \<and> os w' = os w \<and>
      (\<exists>v'. represents s' w' v' \<and> sv_state v' = ATOLLA_SINK_STATE_LENT \<and> sv_borrower v' = sender_of addr \<and>
        sv_frame_size v' = sv_frame_size v \<and> sv_origin v' = sv_origin v \<and> sv_last_idx v' = idx mod 256 \<and>
        sv_frames v' = sv_frames v @ replicate (Suc n) (cycle (sv_frame_size v) f))"
      by (auto simp: keepalive_keeps intro!: exI [of _ "fst (keepalive due (?v, []))"])
  qed
qed

section \<open>A stream of frames over a network that loses datagrams\<close>

text \<open>
  A stream is a list of the frames the source put, each with the id of its message and whether its
  datagram was lost. The source numbers them from \<open>idx\<close> on.
\<close>

type_synonym stream = "(bool \<times> u16 \<times> u8 list) list"

fun arrived :: "int \<Rightarrow> stream \<Rightarrow> message list" where
  "arrived idx [] = []"
| "arrived idx ((lost, i, f) # xs) =
     (if lost then arrived (idx + 1) xs else Enqueue i (word_of_int idx) f # arrived (idx + 1) xs)"

text \<open>The frames the sink makes of a stream when \<open>n\<close> were lost just before: in place of a lost frame, the next one.\<close>

fun made_up :: "nat \<Rightarrow> stream \<Rightarrow> u8 list list" where
  "made_up n [] = []"
| "made_up n ((lost, i, f) # xs) = (if lost then made_up (Suc n) xs else replicate (Suc n) f @ made_up 0 xs)"

text \<open>One call of \<^verbatim>\<open>atolla_sink_state\<close> that finds the datagram of \<open>m\<close>.\<close>

definition deliver :: "u8 list \<Rightarrow> message \<Rightarrow> Sink \<times> world \<Rightarrow> (Sink \<times> world) result" where
  "deliver addr m = (\<lambda>(s, w).
     bind_res (atolla_sink_state s (w\<lparr>os := (os w)\<lparr>sys_recvfrom := (\<lambda>t. Recv_data (encode m) addr)\<rparr>\<rparr>))
       (\<lambda>(st, s, w). Inr (s, w)))"

lemma length_made_up: "xs \<noteq> [] \<Longrightarrow> \<not> fst (last xs) \<Longrightarrow> length (made_up n xs) = n + length xs"
proof (induction n xs rule: made_up.induct)
  case (2 n lost i f xs)
  then show ?case by (cases "xs = []") auto
qed simp

lemma made_up_arrived:
  "k < length xs \<Longrightarrow> xs ! k = (False, i, f) \<Longrightarrow> n + k < length (made_up n xs) \<and> made_up n xs ! (n + k) = f"
proof (induction n xs arbitrary: k rule: made_up.induct)
  case (2 n lost j g xs)
  show ?case
  proof (cases k)
    case 0
    with 2(4) show ?thesis by (simp add: nth_append del: replicate_Suc)
  next
    case (Suc k')
    with 2 show ?thesis by (cases lost) (auto simp: nth_append)
  qed
qed simp

lemma deliver_stream:
  assumes "represents s w v" "sv_state v = ATOLLA_SINK_STATE_LENT" "sv_borrower v = sender_of addr"
      "sends_whole (os w)"
    and "list_all (\<lambda>(lost, i, f). 3 \<le> length f \<and> length f + 8 \<le> sink_recv_buf_len) xs"
    and "idx mod 256 = (sv_last_idx v + int (Suc n)) mod 256"
    and "length (sv_frames v) + length (made_up n xs) \<le> 128"
  shows "returns (run (deliver addr) (arrived idx xs) (s, w)) (\<lambda>(s', w'). \<exists>v'. represents s' w' v' \<and>
    sv_state v' = ATOLLA_SINK_STATE_LENT \<and> sv_borrower v' = sender_of addr \<and>
    sv_frames v' = sv_frames v @ map (cycle (sv_frame_size v)) (made_up n xs))"
  using assms
proof (induction n xs arbitrary: idx s w v rule: made_up.induct)
  case (1 n)
  then show ?case by auto
next
  case (2 n lost i f xs)
  show ?case
  proof (cases lost)
    case True
    have "(idx + 1) mod 256 = (sv_last_idx v + int (Suc (Suc n))) mod 256"
      using 2(8) mod_add_cong [of idx 256 "sv_last_idx v + int (Suc n)" 1 1] by (simp add: algebra_simps)
    with True 2 show ?thesis by simp
  next
    case False
    let ?w = "w\<lparr>os := (os w)\<lparr>sys_recvfrom := (\<lambda>t. Recv_data (encode (Enqueue i (word_of_int idx) f)) addr)\<rparr>\<rparr>"
    have rep: "represents s ?w v" using 2(3) by simp
    have whole: "sends_whole (os ?w)" using 2(6) by (simp add: sends_whole_def)
    have inc: "incoming ?w (encode (Enqueue i (word_of_int idx) f)) addr" by (simp add: incoming_def)
    have f: "3 \<le> length f" "length f + 8 \<le> sink_recv_buf_len" using 2(7) by auto
    have room: "length (sv_frames v) + Suc n \<le> 128" using 2(9) False by simp
    from sink_hears_frame [OF rep 2(4,5) whole inc f 2(8) room] obtain s1 w1 v1 where
      call: "atolla_sink_state s ?w = Inr (ATOLLA_SINK_STATE_LENT, s1, w1)" and os1: "os w1 = os ?w"
      and v1: "represents s1 w1 v1" "sv_state v1 = ATOLLA_SINK_STATE_LENT" "sv_borrower v1 = sender_of addr"
        "sv_frame_size v1 = sv_frame_size v" "sv_last_idx v1 = idx mod 256"
        "sv_frames v1 = sv_frames v @ replicate (Suc n) (cycle (sv_frame_size v) f)"
      by (auto simp: returns_iff simp del: encode.simps)
    have "returns (run (deliver addr) (arrived (idx + 1) xs) (s1, w1)) (\<lambda>(s', w'). \<exists>v'. represents s' w' v' \<and>
        sv_state v' = ATOLLA_SINK_STATE_LENT \<and> sv_borrower v' = sender_of addr \<and>
        sv_frames v' = sv_frames v1 @ map (cycle (sv_frame_size v1)) (made_up 0 xs))"
    proof (rule 2(2) [OF False v1(1-3)])
      show "sends_whole (os w1)" using whole os1 by simp
      show "list_all (\<lambda>(lost, i, f). 3 \<le> length f \<and> length f + 8 \<le> sink_recv_buf_len) xs" using 2(7) by simp
      show "(idx + 1) mod 256 = (sv_last_idx v1 + int (Suc 0)) mod 256" by (simp add: v1(5) mod_add_left_eq)
      show "length (sv_frames v1) + length (made_up 0 xs) \<le> 128" using 2(9) False v1(6) by simp
    qed
    moreover have "deliver addr (Enqueue i (word_of_int idx) f) (s, w) = Inr (s1, w1)"
      using call by (simp add: deliver_def del: encode.simps)
    ultimately show ?thesis
      using False by (simp add: v1(4,6) del: encode.simps)
  qed
qed

end
