(* ===== verification/Source_Moves.thy ===== *)
theory Source_Moves
  imports Source_Api
begin

text \<open>
  What one call of the interface of a source sends, whatever the network brings: requests for the
  sink, the frame its client put, and nothing else; and when it can have opened the source.
\<close>

fun put_by :: "u8 list \<Rightarrow> source_call \<Rightarrow> u8 list set" where
  "put_by bs (Put n) = {take n bs}"
| "put_by bs c = {}"

definition says :: "u8 list set \<Rightarrow> os_event \<Rightarrow> bool" where
  "says F e \<longleftrightarrow> asks e \<or> (\<exists>us. e = Slept us) \<or>
     (\<exists>h i idx f. f \<in> F \<and> e = Sent h None (encode (Enqueue i idx f)))"

lemma says_asks: "list_all asks out \<Longrightarrow> list_all (says F) out"
  by (auto simp: list_all_iff says_def)

text \<open>\<open>source_moves F\<close>: a run that says nothing but requests and the frames of \<open>F\<close>.\<close>

definition source_moves :: "u8 list set \<Rightarrow> Source \<times> world \<Rightarrow> Source \<times> world \<Rightarrow> bool" where
  "source_moves F = (\<lambda>(s, w) (s', w'). (\<exists>out. source_run out (s, w) (s', w') \<and> list_all (says F) out) \<and>
     (src_state s' = ATOLLA_SOURCE_STATE_OPEN \<longrightarrow> src_state s = ATOLLA_SOURCE_STATE_OPEN \<or> hears_lent (os w)))"

lemma between_moves: "between x y \<Longrightarrow> source_moves F x y"
  by (cases x; cases y) (auto simp: between_def source_moves_def intro: says_asks)

lemma put_effect_moves:
  assumes put: "put_effect bs (s, w) (ok, s', w')"
  shows "source_moves {bs} (s, w) (s', w')"
proof -
  have sent: "source_moves {bs} (s, w) (s', w')"
    if b: "between (s, w) (s2, w2)"
      and put: "frame_put bs (s2, if n > 0 then time_sleep (nat n) w2 else w2) (ok, s', w')" for s2 w2 n
  proof -
    let ?w = "if n > 0 then time_sleep (nat n) w2 else w2"
    let ?ev = "Sent (socket_handle (src_sock s2)) None (encode (frame_message s2 bs))"
    from b obtain out where out: "source_run out (s, w) (s2, w2)" "list_all asks out" by (auto simp: between_def)
    obtain out' where out': "source_run out' (s2, w2) (s2, ?w)" "list_all (says {bs}) out'"
      using source_run_sleep [OF between_ok [OF b], of "nat n"] source_run_refl [OF between_ok [OF b]]
      by (cases "n > 0") (auto simp: says_def)
    from put have ev: "source_run [?ev] (s2, ?w) (s', w')" "src_state s' = src_state s2"
      unfolding frame_put_def split_conv by blast+
    have "says {bs} ?ev" unfolding says_def frame_message_def by blast
    with out(2) out'(2) have "list_all (says {bs}) ((out @ out') @ [?ev])" by (simp add: says_asks)
    moreover have "source_run ((out @ out') @ [?ev]) (s, w) (s', w')"
      using out(1) out'(1) ev(1) by (blast intro: source_run_trans)
    ultimately show ?thesis
      using b ev(2) unfolding source_moves_def between_def split_conv by metis
  qed
  from put have "between (s, w) (s', w') \<or> (\<exists>s1 w1 s2 w2 n. between (s, w) (s1, w1) \<and> between (s1, w1) (s2, w2) \<and>
      frame_put bs (s2, if n > 0 then time_sleep (nat n) w2 else w2) (ok, s', w'))"
    unfolding put_effect_def split_conv Let_def by blast
  then show ?thesis using sent between_trans between_moves by blast
qed

lemma source_api_moves:
  assumes ok: "source_ok s w" and env: "source_env w" and frame: "caller_frame s w ub bs"
    and allowed: "source_call_allowed (length bs) c"
  shows "returns (source_api ub c (s, w)) (source_moves (put_by bs c) (s, w))"
proof (cases c)
  case Get_source_state
  with source_update_between [OF ok env] show ?thesis
    by (auto simp: atolla_source_state_def intro: between_moves elim!: returns_mono)
next
  case Get_source_error
  then show ?thesis
    using between_moves [OF between_refl [OF ok]] ok
    by (auto simp: atolla_source_error_msg_def source_ok_def state_ok_def)
next
  case Get_ready_count
  with put_ready_count_effect [OF ok env] show ?thesis by (auto intro: between_moves elim!: returns_mono)
next
  case Get_ready_timeout
  with put_ready_timeout_effect [OF ok env] show ?thesis by (auto intro: between_moves elim!: returns_mono)
next
  case (Put n)
  with allowed have "n \<le> length bs" "n \<le> 65532" by auto
  from atolla_source_put_effect [OF ok env frame this] show ?thesis
    by (auto simp: Put intro: put_effect_moves elim!: returns_mono)
qed

end
