(* ===== verification/Network.thy ===== *)
theory Network
  imports Sink_Moves Source_Moves
begin

text \<open>
  One sink and any number of sources on a network that may lose, delay, reorder and repeat datagrams,
  but does not make any up. The state of the system is the state of every node with its own memory and
  operating system, and all that was ever sent. A step is one call of the interface of one node, the
  code of \<open>Sink\<close> or \<open>Source\<close>, under an operating system that may answer anything as long as what it
  delivers was sent to that node; or a client of a source painting its next frame.
\<close>

section \<open>The system\<close>

text \<open>Fixed throughout: the addresses of the sources, and the blocks of memory the clients pass.\<close>

record topology =
  address :: "nat \<Rightarrow> u8 list"
  sink_client :: nat
  sink_room :: nat
  source_client :: "nat \<Rightarrow> nat"

record system =
  sink_node :: "Sink \<times> world"
  source_node :: "nat \<Rightarrow> Source \<times> world"
  to_sink :: "(nat \<times> u8 list) set"      \<comment> \<open>the source, the datagram\<close>
  to_source :: "(nat \<times> u8 list) set"
  put_frames :: "(nat \<times> u8 list) set"   \<comment> \<open>the source, a frame its client put\<close>

definition new_events :: "world \<Rightarrow> world \<Rightarrow> os_event set" where
  "new_events w w' = set (drop (length (os_log w)) (os_log w'))"

text \<open>\<open>carries net sys\<close>: the operating system delivers only what is in \<open>net\<close>, address and datagram.\<close>

definition carries :: "(u8 list \<times> u8 list) set \<Rightarrow> os \<Rightarrow> bool" where
  "carries net sys \<longleftrightarrow> sends_whole sys \<and> (\<forall>t d a. sys_recvfrom sys t = Recv_data d a \<longrightarrow> (a, d) \<in> net)"

definition from_sources :: "topology \<Rightarrow> system \<Rightarrow> (u8 list \<times> u8 list) set" where
  "from_sources p S = {(a, d). \<exists>i. a = address p i \<and> (i, d) \<in> to_sink S}"

definition from_sink :: "system \<Rightarrow> nat \<Rightarrow> (u8 list \<times> u8 list) set" where
  "from_sink S i = {(a, d). (i, d) \<in> to_source S}"

inductive net_step :: "topology \<Rightarrow> system \<Rightarrow> system \<Rightarrow> bool" for p S where
  sink_call: "net_step p S (S\<lparr>sink_node := (s', w'),
      to_source := to_source S \<union> {(i, d). \<exists>h. Sent h (Some (sender_of (address p i))) d \<in> new_events w w'}\<rparr>)"
    if "sink_node S = (s, w)" "carries (from_sources p S) sys" "sink_call_allowed (sink_room p) c"
      "sink_api (sink_client p) c (s, w\<lparr>os := sys\<rparr>) = Inr (s', w')"
| source_call: "net_step p S (S\<lparr>source_node := (source_node S)(i := (s', w')),
      to_sink := to_sink S \<union> {(j, d). j = i \<and> (\<exists>h. Sent h None d \<in> new_events w w')},
      put_frames := put_frames S \<union> {(j, f). j = i \<and> f \<in> put_by bs c}\<rparr>)"
    if "source_node S i = (s, w)" "carries (from_sink S i) sys"
      "blocks w (source_client p i) = Some (map Some bs)" "source_call_allowed (length bs) c"
      "\<forall>f\<in>put_by bs c. length f + 8 \<le> sink_recv_buf_len"
      "source_api (source_client p i) c (s, w\<lparr>os := sys\<rparr>) = Inr (s', w')"
| client_paints: "net_step p S (S\<lparr>source_node := (source_node S)(i :=
      (s, w\<lparr>blocks := (blocks w)(source_client p i := Some (map Some bs'))\<rparr>))\<rparr>)"
    if "source_node S i = (s, w)" "blocks w (source_client p i) = Some (map Some bs)" "length bs' = length bs"

text \<open>Every node was made, the sink is not lent, no source is open, and nothing but requests is under way.\<close>

definition net_start :: "topology \<Rightarrow> system \<Rightarrow> bool" where
  "net_start p S \<longleftrightarrow>
     (case sink_node S of (s, w) \<Rightarrow> \<exists>v us. represents s w v \<and> sv_state v \<noteq> ATOLLA_SINK_STATE_LENT \<and> sv_frames v = [] \<and>
        caller_buffer s w (sink_client p) us \<and> length us = sink_room p) \<and>
     (\<forall>i. case source_node S i of (s, w) \<Rightarrow> source_ok s w \<and> src_state s \<noteq> ATOLLA_SOURCE_STATE_OPEN \<and>
        (\<forall>b. \<not> oom w b) \<and> (\<exists>bs. caller_frame s w (source_client p i) bs)) \<and>
     (\<forall>(i, d)\<in>to_sink S. \<exists>k fl bl. d = encode (Borrow k fl bl)) \<and> to_source S = {} \<and> put_frames S = {}"

definition net_reachable :: "topology \<Rightarrow> system \<Rightarrow> bool" where
  "net_reachable p S \<longleftrightarrow> (\<exists>S0. net_start p S0 \<and> (net_step p)\<^sup>*\<^sup>* S0 S)"

section \<open>The invariant\<close>

text \<open>The sources that sent a request the sink can serve, and the frames of their clients.\<close>

definition asked :: "system \<Rightarrow> nat set" where
  "asked S = {i. \<exists>k fl bl. (i, encode (Borrow k fl bl)) \<in> to_sink S \<and> 10 \<le> unat fl \<and> unat bl \<le> 128}"

definition came :: "system \<Rightarrow> nat \<Rightarrow> u8 list \<Rightarrow> bool" where
  "came S n f \<longleftrightarrow> (\<exists>i bs. i \<in> asked S \<and> (i, bs) \<in> put_frames S \<and> f = cycle n bs)"

abbreviation asked_eps :: "topology \<Rightarrow> system \<Rightarrow> UdpEndpoint set" where
  "asked_eps p S \<equiv> (\<lambda>i. sender_of (address p i)) ` asked S"

definition sink_inv :: "topology \<Rightarrow> system \<Rightarrow> bool" where
  "sink_inv p S \<longleftrightarrow> (case sink_node S of (s, w) \<Rightarrow> \<exists>v us. represents s w v \<and>
     caller_buffer s w (sink_client p) us \<and> length us = sink_room p \<and>
     leased (asked_eps p S) (came S (sv_frame_size v)) v)"

definition source_inv :: "topology \<Rightarrow> system \<Rightarrow> nat \<Rightarrow> bool" where
  "source_inv p S i \<longleftrightarrow> (case source_node S i of (s, w) \<Rightarrow> source_ok s w \<and> (\<forall>b. \<not> oom w b) \<and>
     (\<exists>bs. caller_frame s w (source_client p i) bs) \<and>
     (src_state s = ATOLLA_SOURCE_STATE_OPEN \<longrightarrow> (\<exists>k. (i, encode (Lent k)) \<in> to_source S)))"

text \<open>What is under way: requests and frames one way, answers the other way, each for a reason.\<close>

definition request_ok :: "system \<Rightarrow> nat \<Rightarrow> message \<Rightarrow> bool" where
  "request_ok S i m \<longleftrightarrow> (case m of Borrow k fl bl \<Rightarrow> True
     | Enqueue k idx f \<Rightarrow> (i, f) \<in> put_frames S \<and> length f + 8 \<le> sink_recv_buf_len | _ \<Rightarrow> False)"

definition answer_ok :: "system \<Rightarrow> nat \<Rightarrow> message \<Rightarrow> bool" where
  "answer_ok S i m \<longleftrightarrow> (case m of Lent k \<Rightarrow> i \<in> asked S | Fail k causing code \<Rightarrow> True | _ \<Rightarrow> False)"

definition net_inv :: "topology \<Rightarrow> system \<Rightarrow> bool" where
  "net_inv p S \<longleftrightarrow> sink_inv p S \<and> (\<forall>i. source_inv p S i) \<and>
     (\<forall>(i, d)\<in>to_sink S. \<exists>m. d = encode m \<and> request_ok S i m) \<and>
     (\<forall>(i, d)\<in>to_source S. \<exists>m. d = encode m \<and> answer_ok S i m)"

lemma leased_mono: "leased A C v \<Longrightarrow> A \<subseteq> A' \<Longrightarrow> (\<And>f. C f \<Longrightarrow> C' f) \<Longrightarrow> leased A' C' v"
  by (auto simp: leased_def list_all_iff)

lemma asked_mono: "to_sink S \<subseteq> to_sink S' \<Longrightarrow> asked S \<subseteq> asked S'"
  by (auto simp: asked_def simp del: encode.simps)

lemma came_mono: "to_sink S \<subseteq> to_sink S' \<Longrightarrow> put_frames S \<subseteq> put_frames S' \<Longrightarrow> came S n f \<Longrightarrow> came S' n f"
  using asked_mono unfolding came_def by blast

lemma request_ok_mono: "put_frames S \<subseteq> put_frames S' \<Longrightarrow> request_ok S i m \<Longrightarrow> request_ok S' i m"
  by (auto simp: request_ok_def split: message.splits)

lemma answer_ok_mono: "to_sink S \<subseteq> to_sink S' \<Longrightarrow> answer_ok S i m \<Longrightarrow> answer_ok S' i m"
  using asked_mono by (auto simp: answer_ok_def split: message.splits)

lemma under_way_encodable:
  "request_ok S i m \<Longrightarrow> encodable m \<and> length (encode m) \<le> sink_recv_buf_len"
  "answer_ok S i m \<Longrightarrow> encodable m \<and> length (encode m) \<le> source_recv_buf_len"
  by (auto simp: request_ok_def answer_ok_def sink_recv_buf_len_def source_recv_buf_len_def split: message.splits)

lemma net_start_inv:
  assumes "net_start p S"
  shows "net_inv p S"
proof -
  obtain s w where n: "sink_node S = (s, w)" by fastforce
  with assms have "sink_inv p S" by (fastforce simp: net_start_def sink_inv_def leased_def)
  moreover have "source_inv p S i" for i
  proof -
    obtain s w where n: "source_node S i = (s, w)" by fastforce
    from assms have "case source_node S i of (s, w) \<Rightarrow> source_ok s w \<and> src_state s \<noteq> ATOLLA_SOURCE_STATE_OPEN \<and>
        (\<forall>b. \<not> oom w b) \<and> (\<exists>bs. caller_frame s w (source_client p i) bs)" by (simp add: net_start_def)
    with n show ?thesis by (simp add: source_inv_def)
  qed
  moreover have "\<exists>m. d = encode m \<and> request_ok S i m" if "(i, d) \<in> to_sink S" for i d
  proof -
    from assms that obtain k fl bl where "d = encode (Borrow k fl bl)" by (force simp: net_start_def)
    then show ?thesis by (intro exI [of _ "Borrow k fl bl"]) (simp add: request_ok_def)
  qed
  ultimately show ?thesis using assms by (auto simp: net_inv_def net_start_def)
qed

text \<open>What an invariant network brings to a node.\<close>

definition messages_to_sink :: "topology \<Rightarrow> system \<Rightarrow> (UdpEndpoint \<times> message) set" where
  "messages_to_sink p S = {(sender_of (address p i), m) | i m. (i, encode m) \<in> to_sink S \<and> request_ok S i m}"

lemma brings_to_sink:
  assumes "net_inv p S" "carries (from_sources p S) sys"
  shows "brings (messages_to_sink p S) sink_recv_buf_len sys"
  unfolding brings_def
proof (intro allI impI)
  fix t d a assume "sys_recvfrom sys t = Recv_data d a"
  with assms(2) obtain i where i: "a = address p i" "(i, d) \<in> to_sink S"
    unfolding carries_def from_sources_def by blast
  with assms(1) obtain m where m: "d = encode m" "request_ok S i m" unfolding net_inv_def by blast
  with i under_way_encodable(1) [OF m(2)]
  show "\<exists>m. (sender_of a, m) \<in> messages_to_sink p S \<and> encodable m \<and> d = encode m \<and> length d \<le> sink_recv_buf_len"
    unfolding messages_to_sink_def by blast
qed

lemma fair_to_sink:
  assumes "inj (address p)"
  shows "fair (asked_eps p S) (came S n) n (messages_to_sink p S)"
proof -
  have same: "sender_of (address p i) = sender_of (address p j) \<longleftrightarrow> i = j" for i j
    using inj_eq [OF assms] by (auto simp: sender_of_def)
  show ?thesis
    unfolding fair_def messages_to_sink_def
    by (auto simp: request_ok_def asked_def came_def image_iff same simp del: encode.simps split: message.splits) blast+
qed

section \<open>Every step keeps it\<close>

lemma sent_new_events:
  assumes "sent out (w\<lparr>os := sys\<rparr>) w'"
  shows "new_events w w' \<subseteq> set out"
proof -
  from assms obtain events where "os_log w' = os_log w @ events" "subseq events out"
    by (auto simp: sent_def delivered_def)
  then show ?thesis by (auto simp: new_events_def dest: list_emb_set)
qed

lemma sink_call_inv:
  assumes inj: "inj (address p)" and inv: "net_inv p S" and n: "sink_node S = (s, w)"
    and sys: "carries (from_sources p S) sys" and allowed: "sink_call_allowed (sink_room p) c"
    and call: "sink_api (sink_client p) c (s, w\<lparr>os := sys\<rparr>) = Inr (s', w')"
  shows "net_inv p (S\<lparr>sink_node := (s', w'),
    to_source := to_source S \<union> {(i, d). \<exists>h. Sent h (Some (sender_of (address p i))) d \<in> new_events w w'}\<rparr>)"
    (is "net_inv p ?S")
proof -
  from inv n obtain v us where rep: "represents s w v" and us: "caller_buffer s w (sink_client p) us"
    and room: "length us = sink_room p" and leased: "leased (asked_eps p S) (came S (sv_frame_size v)) v"
    by (auto simp: net_inv_def sink_inv_def)
  have "represents s (w\<lparr>os := sys\<rparr>) v" "sends_whole (os (w\<lparr>os := sys\<rparr>))"
    "brings (messages_to_sink p S) sink_recv_buf_len (os (w\<lparr>os := sys\<rparr>))"
    "caller_buffer s (w\<lparr>os := sys\<rparr>) (sink_client p) us"
    using rep sys us brings_to_sink [OF inv sys] by (simp_all add: carries_def caller_buffer_def)
  from sink_api_moves [OF this _ call] allowed room obtain v' out us' where
    move: "sink_moves (messages_to_sink p S) v (v', out)" and rep': "represents s' w' v'"
    and sent: "sent out (w\<lparr>os := sys\<rparr>) w'" and us': "caller_buffer s' w' (sink_client p) us'" "length us' = length us"
    by auto
  from moves_kept [OF move leased fair_to_sink [OF inj]] have kept: "leased (asked_eps p S) (came S (sv_frame_size v)) v'"
    "list_all (answers (asked_eps p S)) out" "sv_frame_size v' = sv_frame_size v"
    by (simp_all add: kept_def)
  have asked: "asked ?S = asked S" "came ?S = came S"
    by (simp_all add: asked_def came_def fun_eq_iff)
  have "leased (asked_eps p S) (came S (sv_frame_size v')) v'" using kept(1,3) by simp
  with rep' us' room have "sink_inv p ?S" by (auto simp: sink_inv_def asked)
  moreover have "source_inv p ?S i" for i
  proof -
    have "source_inv p S i" using inv by (simp add: net_inv_def)
    then show ?thesis by (auto simp: source_inv_def simp del: encode.simps)
  qed
  moreover have "\<exists>m. d = encode m \<and> request_ok ?S i m" if "(i, d) \<in> to_sink ?S" for i d
  proof -
    from that inv obtain m where "d = encode m" "request_ok S i m" unfolding net_inv_def by auto
    with request_ok_mono [of S ?S] show ?thesis by auto
  qed
  moreover have "\<exists>m. d = encode m \<and> answer_ok ?S i m" if "(i, d) \<in> to_source ?S" for i d
  proof (cases "(i, d) \<in> to_source S")
    case True
    with inv obtain m where "d = encode m" "answer_ok S i m" unfolding net_inv_def by blast
    with answer_ok_mono [of S ?S] show ?thesis by auto
  next
    case False
    with that sent_new_events [OF sent] obtain h where "Sent h (Some (sender_of (address p i))) d \<in> set out" by auto
    with kept(2) have "answers (asked_eps p S) (Sent h (Some (sender_of (address p i))) d)" by (simp add: list_all_iff)
    then obtain m where m: "d = encode m" and
      reason: "(\<exists>k. m = Lent k \<and> sender_of (address p i) \<in> asked_eps p S) \<or> (\<exists>k causing code. m = Fail k causing code)"
      unfolding answers_def by blast
    have "i \<in> asked S" if "sender_of (address p i) \<in> asked_eps p S"
      using that inj_eq [OF inj] by (auto simp: sender_of_def)
    with reason have "answer_ok ?S i m" by (auto simp: answer_ok_def asked)
    with m show ?thesis by blast
  qed
  ultimately show ?thesis unfolding net_inv_def by blast
qed

lemma source_call_returns:
  assumes inv: "net_inv p S" and n: "source_node S i = (s, w)" and sys: "carries (from_sink S i) sys"
    and bs: "blocks w (source_client p i) = Some (map Some bs)" and allowed: "source_call_allowed (length bs) c"
  shows "returns (source_api (source_client p i) c (s, w\<lparr>os := sys\<rparr>)) (\<lambda>(s', w').
    source_moves (put_by bs c) (s, w\<lparr>os := sys\<rparr>) (s', w') \<and> (\<exists>bs'. caller_frame s' w' (source_client p i) bs'))"
proof -
  let ?w = "w\<lparr>os := sys\<rparr>"
  from inv have "source_inv p S i" by (simp add: net_inv_def)
  with n obtain bs0 where ok: "source_ok s w" and oom: "\<forall>b. \<not> oom w b"
    and frame0: "caller_frame s w (source_client p i) bs0"
    by (auto simp: source_inv_def simp del: encode.simps)
  then have frame: "caller_frame s ?w (source_client p i) bs" using bs by (simp add: caller_frame_def)
  have ok': "source_ok s ?w" using ok source_memory_shape [of s w ?w] by (simp add: source_ok_def shape_def)
  have "polite source_recv_buf_len sys"
    unfolding polite_def
  proof (intro allI)
    fix t
    show "case sys_recvfrom sys t of Recv_error e \<Rightarrow> True
      | Recv_data d addr \<Rightarrow> length d \<le> source_recv_buf_len \<and> parse d \<noteq> None"
    proof (cases "sys_recvfrom sys t")
      case (Recv_data d a)
      with sys have "(i, d) \<in> to_source S" by (force simp: carries_def from_sink_def)
      with inv obtain m where "d = encode m" "answer_ok S i m" unfolding net_inv_def by blast
      with Recv_data under_way_encodable(2) [of S i m] parse_encode [of m] show ?thesis by (simp del: encode.simps)
    qed simp
  qed
  then have "source_env ?w" using sys oom by (simp add: source_env_def carries_def)
  from source_api_moves [OF ok' this frame allowed] obtain s' w' where
    call: "source_api (source_client p i) c (s, ?w) = Inr (s', w')" and moves: "source_moves (put_by bs c) (s, ?w) (s', w')"
    by (auto simp: returns_iff)
  then obtain out where "source_run out (s, ?w) (s', w')" unfolding source_moves_def by blast
  from caller_frame_run [OF frame this] call moves show ?thesis by auto
qed

lemma hears_lent_sent:
  assumes "net_inv p S" "carries (from_sink S i) sys" "hears_lent sys"
  shows "\<exists>k. (i, encode (Lent k)) \<in> to_source S"
proof -
  from assms(2,3) obtain d ms k where d: "(i, d) \<in> to_source S" "parse d = Some ms" "Lent k \<in> set ms"
    unfolding hears_lent_def carries_def from_sink_def by blast
  from assms(1) d(1) obtain m where m: "d = encode m" "answer_ok S i m" unfolding net_inv_def by blast
  then have "ms = [m]" using d(2) parse_encode [of m] under_way_encodable(2) [OF m(2)] by (simp del: encode.simps)
  with d(3) have "m = Lent k" by simp
  with d(1) m(1) show ?thesis by blast
qed

lemma source_call_inv:
  assumes inv: "net_inv p S" and n: "source_node S i = (s, w)" and sys: "carries (from_sink S i) sys"
    and bs: "blocks w (source_client p i) = Some (map Some bs)" and allowed: "source_call_allowed (length bs) c"
    and fits: "\<forall>f\<in>put_by bs c. length f + 8 \<le> sink_recv_buf_len"
    and call: "source_api (source_client p i) c (s, w\<lparr>os := sys\<rparr>) = Inr (s', w')"
  shows "net_inv p (S\<lparr>source_node := (source_node S)(i := (s', w')),
    to_sink := to_sink S \<union> {(j, d). j = i \<and> (\<exists>h. Sent h None d \<in> new_events w w')},
    put_frames := put_frames S \<union> {(j, f). j = i \<and> f \<in> put_by bs c}\<rparr>)"
    (is "net_inv p ?S")
proof -
  from source_call_returns [OF inv n sys bs allowed] call obtain out bs' where
    run: "source_run out (s, w\<lparr>os := sys\<rparr>) (s', w')" and out: "list_all (says (put_by bs c)) out"
    and opens: "src_state s' = ATOLLA_SOURCE_STATE_OPEN \<longrightarrow> src_state s = ATOLLA_SOURCE_STATE_OPEN \<or> hears_lent sys"
    and frame: "caller_frame s' w' (source_client p i) bs'"
    by (auto simp: source_moves_def)
  from inv have sinv: "source_inv p S j" for j by (simp add: net_inv_def)
  have grows: "to_sink S \<subseteq> to_sink ?S" "put_frames S \<subseteq> put_frames ?S" by auto
  have "sink_inv p ?S"
  proof -
    obtain sk wk where k: "sink_node S = (sk, wk)" by fastforce
    with inv obtain v us where "represents sk wk v" "caller_buffer sk wk (sink_client p) us" "length us = sink_room p"
      "leased (asked_eps p S) (came S (sv_frame_size v)) v"
      by (auto simp: net_inv_def sink_inv_def)
    moreover from this(4) have "leased (asked_eps p ?S) (came ?S (sv_frame_size v)) v"
      by (rule leased_mono) (use asked_mono [OF grows(1)] came_mono [OF grows] in blast)+
    ultimately show ?thesis using k by (auto simp: sink_inv_def)
  qed
  moreover have "source_inv p ?S j" for j
  proof (cases "j = i")
    case True
    have "source_ok s' w'" "\<forall>b. \<not> oom w' b" using run sinv [of i] n by (auto simp: source_run_def source_inv_def)
    moreover have "\<exists>k. (i, encode (Lent k)) \<in> to_source S" if "src_state s' = ATOLLA_SOURCE_STATE_OPEN"
      using that opens sinv [of i] n hears_lent_sent [OF inv sys] by (auto simp: source_inv_def simp del: encode.simps)
    ultimately show ?thesis using frame True by (auto simp: source_inv_def simp del: encode.simps)
  next
    case False
    then show ?thesis using sinv [of j] by (simp add: source_inv_def)
  qed
  moreover have "\<exists>m. d = encode m \<and> request_ok ?S j m" if "(j, d) \<in> to_sink ?S" for j d
  proof (cases "(j, d) \<in> to_sink S")
    case True
    with inv obtain m where "d = encode m" "request_ok S j m" unfolding net_inv_def by blast
    with request_ok_mono [OF grows(2)] show ?thesis by blast
  next
    case False
    have "sent out (w\<lparr>os := sys\<rparr>) w'" using run by (simp add: source_run_def)
    from sent_new_events [OF this] False that obtain h where "j = i" "Sent h None d \<in> set out" by auto
    with out have "says (put_by bs c) (Sent h None d)" by (simp add: list_all_iff)
    then consider k fl bl where "d = encode (Borrow k fl bl)"
      | k idx f where "f \<in> put_by bs c" "d = encode (Enqueue k idx f)"
      unfolding says_def asks_def by blast
    then show ?thesis
    proof cases
      case 1
      then show ?thesis by (intro exI [of _ "Borrow k fl bl"]) (simp add: request_ok_def)
    next
      case 2
      with fits \<open>j = i\<close> show ?thesis by (intro exI [of _ "Enqueue k idx f"]) (simp add: request_ok_def)
    qed
  qed
  moreover have "\<exists>m. d = encode m \<and> answer_ok ?S j m" if "(j, d) \<in> to_source ?S" for j d
  proof -
    from that inv obtain m where "d = encode m" "answer_ok S j m" unfolding net_inv_def by auto
    with answer_ok_mono [OF grows(1)] show ?thesis by blast
  qed
  ultimately show ?thesis unfolding net_inv_def by blast
qed

lemma client_paints_inv:
  assumes inv: "net_inv p S" and n: "source_node S i = (s, w)"
    and bs: "blocks w (source_client p i) = Some (map Some bs)" "length bs' = length bs"
  shows "net_inv p (S\<lparr>source_node := (source_node S)(i :=
    (s, w\<lparr>blocks := (blocks w)(source_client p i := Some (map Some bs'))\<rparr>))\<rparr>)"
    (is "net_inv p ?S")
proof -
  let ?w = "w\<lparr>blocks := (blocks w)(source_client p i := Some (map Some bs'))\<rparr>"
  have "source_inv p S i" using inv by (simp add: net_inv_def)
  with n obtain bs0 where src: "source_ok s w" "\<forall>b. \<not> oom w b" "caller_frame s w (source_client p i) bs0"
    "src_state s = ATOLLA_SOURCE_STATE_OPEN \<longrightarrow> (\<exists>k. (i, encode (Lent k)) \<in> to_source S)"
    by (auto simp: source_inv_def simp del: encode.simps)
  have "shape ?w = shape w" using bs by (intro shape_store [OF bs(1)]) simp
  then have "source_ok s ?w" using src(1) source_memory_shape [of s w ?w] by (simp add: source_ok_def)
  moreover have "caller_frame s ?w (source_client p i) bs'" using src(3) by (simp add: caller_frame_def)
  moreover have "source_inv p S j" for j using inv by (simp add: net_inv_def)
  ultimately have "source_inv p ?S j" for j
    using src by (cases "j = i") (auto simp: source_inv_def simp del: encode.simps)
  moreover have same: "asked ?S = asked S" "came ?S = came S"
    by (simp_all add: asked_def came_def fun_eq_iff del: encode.simps)
  moreover have "sink_inv p ?S" using inv by (auto simp: net_inv_def sink_inv_def same)
  moreover have "request_ok ?S = request_ok S" "answer_ok ?S = answer_ok S"
    by (simp_all add: request_ok_def answer_ok_def same fun_eq_iff cong: message.case_cong)
  ultimately show ?thesis using inv by (simp add: net_inv_def)
qed

lemma net_step_inv:
  assumes "inj (address p)" "net_step p S S'" "net_inv p S"
  shows "net_inv p S'"
  using assms(2,3)
proof cases
  case (sink_call s w sys c s' w')
  then show ?thesis using sink_call_inv [OF assms(1,3)] by simp
next
  case (source_call i s w sys bs c s' w')
  then show ?thesis using source_call_inv [OF assms(3)] by simp
next
  case (client_paints i s w bs bs')
  then show ?thesis using client_paints_inv [OF assms(3)] by simp
qed

lemma net_reachable_inv:
  assumes "inj (address p)" "net_reachable p S"
  shows "net_inv p S"
proof -
  from assms(2) obtain S0 where "net_start p S0" "(net_step p)\<^sup>*\<^sup>* S0 S" unfolding net_reachable_def by blast
  from this(2,1) show ?thesis
    by (induction rule: rtranclp_induct) (auto intro: net_start_inv net_step_inv [OF assms(1)])
qed

lemma net_reachable_step: "net_reachable p S \<Longrightarrow> net_step p S S' \<Longrightarrow> net_reachable p S'"
  unfolding net_reachable_def by (blast intro: rtranclp.rtrancl_into_rtrancl)

lemma net_reachable_start: "net_start p S \<Longrightarrow> net_reachable p S"
  unfolding net_reachable_def by blast

section \<open>What follows in every reachable state\<close>

lemma asked_iff: "i \<in> asked S \<longleftrightarrow> (\<exists>k fl bl. (i, encode (Borrow k fl bl)) \<in> to_sink S \<and> 10 \<le> unat fl \<and> unat bl \<le> 128)"
  by (simp add: asked_def del: encode.simps)

lemma open_source_asked:
  assumes inv: "net_inv p S" and "src_state (fst (source_node S i)) = ATOLLA_SOURCE_STATE_OPEN"
  shows "(\<exists>k. (i, encode (Lent k)) \<in> to_source S) \<and> i \<in> asked S"
proof -
  obtain s w where n: "source_node S i = (s, w)" by fastforce
  have "source_inv p S i" using inv by (simp add: net_inv_def)
  with n assms(2) obtain k where k: "(i, encode (Lent k)) \<in> to_source S" by (auto simp: source_inv_def simp del: encode.simps)
  with inv obtain m where m: "encode (Lent k) = encode m" "answer_ok S i m" unfolding net_inv_def by blast
  have "m = Lent k"
    using encode_inject [OF m(1)] under_way_encodable(2) [OF m(2)] by simp
  with m(2) k show ?thesis by (auto simp: answer_ok_def simp del: encode.simps)
qed

lemma get_step_shows:
  assumes "leased A C v" "fst (get_step now v)"
  shows "\<exists>f. C f \<and> sv_shown (snd (get_step now v)) = map Some f"
proof -
  have shown: "\<exists>f. C f \<and> sv_shown (show_frames k v) = map Some f" if "0 < k" "k \<le> length (sv_frames v)" for k
    using that assms(1) by (auto simp: show_frames_def leased_def list_all_length intro!: exI [of _ "sv_frames v ! (k - 1)"])
  have lent: "sv_state v = ATOLLA_SINK_STATE_LENT" using assms(2) by (auto simp: get_step_def split: if_splits)
  show ?thesis
  proof (cases "sv_origin v = NULL_TIME")
    case True
    with assms(2) lent have "sv_frames v \<noteq> []" by (auto simp: get_step_def)
    with True lent shown [of 1] show ?thesis by (cases "sv_frames v") (simp_all add: get_step_def)
  next
    case False
    let ?k = "min (frames_due now v) (length (sv_frames v))"
    have "\<exists>f. C f \<and> sv_shown (show_frames ?k v) = map Some f"
      using shown [of ?k] assms(1) False lent by (cases "?k = 0") (auto simp: leased_def show_frames_def)
    with False lent show ?thesis by (simp add: get_step_def Let_def)
  qed
qed

end
