(* ===== verification/Network_Properties.thy ===== *)
theory Network_Properties
  imports Network Session
begin

text \<open>
  The properties of a network of one sink and many sources, and one run of such a network: a source
  is lent the sink, puts a frame, and the sink shows it.
\<close>

section \<open>A run\<close>

definition sample_topology :: topology where
  "sample_topology = \<lparr>address = (\<lambda>i. replicate (Suc i) 7), sink_client = 6, sink_room = 6, source_client = (\<lambda>i. 3)\<rparr>"

definition fresh_source :: Source where
  "fresh_source = (sample_source ATOLLA_SOURCE_STATE_WAITING 0)\<lparr>src_next_frame_idx := 0\<rparr>"

definition sample_start :: system where
  "sample_start = \<lparr>sink_node = (sample_sink ATOLLA_SINK_STATE_OPEN (sender_of []) 9 0, sample_sink_world (sample_os 0 silence) []),
     source_node = (\<lambda>i. (fresh_source, sample_source_world (sample_os 0 silence))),
     to_sink = {(0, encode (Borrow 7 20 16))}, to_source = {}, put_frames = {}\<rparr>"

lemma sample_topology_simps [simp]:
  "address sample_topology i = replicate (Suc i) 7" "sink_client sample_topology = 6"
  "sink_room sample_topology = 6" "source_client sample_topology i = 3"
  by (simp_all add: sample_topology_def)

lemma sample_inj: "inj (address sample_topology)"
  by (rule injI) (drule arg_cong [of _ _ length], simp)

lemma fresh_source_ok: "source_ok fresh_source (sample_source_world sys)"
  by (simp add: source_ok_def source_memory_def state_ok_def live_def builder_ok_def owned_def fresh_source_def
      sample_source_def sample_source_world_def source_recv_buf_len_def initial_block_capacity_def)

lemma fresh_caller_frame: "caller_frame fresh_source (sample_source_world sys) 3 [10, 20, 30]"
  by (simp add: caller_frame_def fresh_source_def sample_source_def sample_source_world_def)

lemma fresh_waiting: "src_state fresh_source = ATOLLA_SOURCE_STATE_WAITING" "\<not> oom (sample_source_world sys) b"
  by (simp_all add: fresh_source_def sample_source_def sample_source_world_def)

lemma sample_net_start: "net_start sample_topology sample_start"
proof -
  have "\<exists>v us. represents (sample_sink ATOLLA_SINK_STATE_OPEN (sender_of []) 9 0) (sample_sink_world (sample_os 0 silence) []) v \<and>
      sv_state v \<noteq> ATOLLA_SINK_STATE_LENT \<and> sv_frames v = [] \<and>
      caller_buffer (sample_sink ATOLLA_SINK_STATE_OPEN (sender_of []) 9 0) (sample_sink_world (sample_os 0 silence) []) 6 us \<and>
      length us = 6"
    using sample_represents [of "[]" 9] sample_caller_buffer
    by (intro exI [of _ "sample_view ATOLLA_SINK_STATE_OPEN (sender_of []) 9 []"] exI [of _ "replicate 6 None"])
      (simp add: sample_view_def)
  then show ?thesis
    using fresh_source_ok fresh_caller_frame
    by (auto simp: net_start_def sample_start_def fresh_waiting simp del: encode.simps)
qed

lemma carries_sample: "(a, encode m) \<in> net \<Longrightarrow> carries net (sample_os ms (hears [m] a))" "carries net (sample_os ms silence)"
  by (auto simp: carries_def hears_def silence_def simp del: encode.simps)

text \<open>The node of the sink, lent to source 0, with \<open>fs\<close> waiting since its request.\<close>

definition serves :: "system \<Rightarrow> int \<Rightarrow> u8 list list \<Rightarrow> bool" where
  "serves S idx fs \<longleftrightarrow> (case sink_node S of (s, w) \<Rightarrow> \<exists>v. represents s w v \<and> sv_state v = ATOLLA_SINK_STATE_LENT \<and>
     sv_borrower v = sender_of [7] \<and> sv_origin v = NULL_TIME \<and> sv_last_idx v = idx \<and> sv_frames v = fs \<and> sv_frame_size v = 3)"

lemma sample_lends:
  "\<exists>S. net_reachable sample_topology S \<and> serves S (-1) [] \<and> (0, encode (Lent 0)) \<in> to_source S \<and>
     source_node S = source_node sample_start"
proof -
  let ?s = "sample_sink ATOLLA_SINK_STATE_OPEN (sender_of []) 9 0" and ?w = "sample_sink_world (sample_os 0 silence) []"
  let ?sys = "sample_os 0 (hears [Borrow 7 20 16] [7])" and ?v = "sample_view ATOLLA_SINK_STATE_OPEN (sender_of []) 9 []"
  have rep: "represents ?s ?w ?v" using sample_represents [of "[]" 9] by simp
  have inc: "incoming (?w\<lparr>os := ?sys\<rparr>) (encode (Borrow 7 20 16)) [7]" by (simp add: incoming_def hears_def)
  have v: "sv_state ?v = ATOLLA_SINK_STATE_OPEN" "sv_handle ?v = 3" "sv_next_id ?v = 0" "sv_frames ?v = []"
    "sv_frame_size ?v = 3"
    by (simp_all add: sample_view_def)
  from sink_hears_borrow [OF _ v(1) _ inc, of ?s] rep obtain s' w' v' more where
    call: "atolla_sink_state ?s (?w\<lparr>os := ?sys\<rparr>) = Inr (ATOLLA_SINK_STATE_LENT, s', w')"
    and v': "represents s' w' v'" "sv_state v' = ATOLLA_SINK_STATE_LENT" "sv_borrower v' = sender_of [7]"
      "sv_origin v' = NULL_TIME" "sv_last_idx v' = -1" "sv_frames v' = []" "sv_frame_size v' = 3"
    and sent: "sent (Sent 3 (Some (sender_of [7])) (encode (Lent 0)) # more) (?w\<lparr>os := ?sys\<rparr>) w'"
    by (auto simp: returns_iff v simp del: encode.simps)
  have node: "sink_node sample_start = (?s, ?w)" by (simp add: sample_start_def)
  have "carries (from_sources sample_topology sample_start) ?sys"
    by (rule carries_sample) (auto simp: from_sources_def sample_start_def simp del: encode.simps)
  from net_step.sink_call [OF node this, of Get_state s' w'] call obtain S where
    step: "net_step sample_topology sample_start S" and S: "sink_node S = (s', w')" "source_node S = source_node sample_start"
      "to_source S = to_source sample_start \<union> {(i, d). \<exists>h. Sent h (Some (sender_of (replicate (Suc i) 7))) d \<in> new_events ?w w'}"
    by auto
  from sent have "Sent 3 (Some (sender_of [7])) (encode (Lent 0)) \<in> new_events ?w w'"
    by (auto simp: sent_def new_events_def simp del: encode.simps)
  then have "(0, encode (Lent 0)) \<in> to_source S" unfolding S(3) by auto
  moreover have "serves S (-1) []" using S(1) v' by (auto simp: serves_def)
  ultimately show ?thesis
    using net_reachable_step [OF net_reachable_start [OF sample_net_start] step] S(2) by blast
qed

text \<open>Source 0, open since an answer of the sink, before its first frame.\<close>

definition ready :: "system \<Rightarrow> bool" where
  "ready S \<longleftrightarrow> (case source_node S 0 of (s, w) \<Rightarrow> s = opened 0 fresh_source \<and> caller_frame s w 3 [10, 20, 30])"

lemma sample_opens: "\<exists>S. net_reachable sample_topology S \<and> serves S (-1) [] \<and> ready S"
proof -
  from sample_lends obtain S where S: "net_reachable sample_topology S" "serves S (-1) []"
    "(0, encode (Lent 0)) \<in> to_source S" "source_node S = source_node sample_start" by blast
  let ?w = "sample_source_world (sample_os 0 silence)" and ?sys = "sample_os 0 (hears [Lent 0] [1])"
  have node: "source_node S 0 = (fresh_source, ?w)" by (simp add: S(4) sample_start_def)
  have w: "?w\<lparr>os := ?sys\<rparr> = sample_source_world ?sys" by (simp add: sample_source_world_def sample_world_def)
  have inc: "incoming (sample_source_world ?sys) (encode (Lent 0)) [1]" by (simp add: incoming_def hears_def)
  have "src_state fresh_source = ATOLLA_SOURCE_STATE_WAITING" "src_disconnect_timeout_ms fresh_source = 750"
    by (simp_all add: fresh_source_def sample_source_def)
  from source_hears_lent [OF fresh_source_ok this(1) inc] this(2) obtain w' where
    call: "source_update fresh_source (sample_source_world ?sys) = Inr (opened 0 fresh_source, w')"
    by (auto simp: returns_iff)
  have "polite 32 ?sys" using polite_hears [of "[Lent 0]" 32] by simp
  then have "source_env (sample_source_world ?sys)" by (rule sample_source_env) simp
  from source_update_between [OF fresh_source_ok this] call have
    "between (fresh_source, sample_source_world ?sys) (opened 0 fresh_source, w')" by simp
  from caller_frame_between [OF fresh_caller_frame this] have frame: "caller_frame (opened 0 fresh_source) w' 3 [10, 20, 30]" .
  have "carries (from_sink S 0) ?sys"
    by (rule carries_sample) (use S(3) in \<open>simp add: from_sink_def del: encode.simps\<close>)
  from net_step.source_call [OF node this, of sample_topology "[10, 20, 30]" Get_source_state "opened 0 fresh_source" w'] call w
  obtain S' where step: "net_step sample_topology S S'" and S': "source_node S' 0 = (opened 0 fresh_source, w')"
    "sink_node S' = sink_node S"
    by (auto simp: atolla_source_state_def sample_source_world_def)
  from S' S(2) frame have "serves S' (-1) []" "ready S'" by (simp_all add: ready_def serves_def)
  with net_reachable_step [OF S(1) step] show ?thesis by blast
qed



section \<open>What holds in every reachable state\<close>

text \<open>
  C3. On a network that loses, delays, reorders and repeats datagrams, but makes none up, no source is
  ever open without a lease: the sink has answered this very source with a LENT message, and the source
  has asked it before, for a frame duration and a buffer the sink can serve.
\<close>

theorem open_source_was_lent:
  assumes "inj (address p)" "net_reachable p S"
    and "source_node S i = (s, w)" "src_state s = ATOLLA_SOURCE_STATE_OPEN"
  shows "(\<exists>k. (i, encode (Lent k)) \<in> to_source S) \<and>
    (\<exists>k fl bl. (i, encode (Borrow k fl bl)) \<in> to_sink S \<and> 10 \<le> unat fl \<and> unat bl \<le> 128)"
  using open_source_asked [OF net_reachable_inv [OF assms(1,2)], of i] assms(3,4) unfolding asked_iff by simp

theorem open_source_was_lent_witness:
  "\<exists>S k. net_reachable sample_topology S \<and> src_state (fst (source_node S 0)) = ATOLLA_SOURCE_STATE_OPEN \<and>
     (0, encode (Lent k)) \<in> to_source S"
proof -
  from sample_opens obtain S where S: "net_reachable sample_topology S" "ready S" by blast
  then obtain w where node: "source_node S 0 = (opened 0 fresh_source, w)" by (auto simp: ready_def)
  moreover have "src_state (opened 0 fresh_source) = ATOLLA_SOURCE_STATE_OPEN" by (simp add: opened_def)
  ultimately show ?thesis using S(1) open_source_was_lent [OF sample_inj S(1) node] by auto
qed



text \<open>
  C7. On such a network no call of the interface of a node goes wrong. Whatever it receives, every call on
  a source that its contract allows returns; every call on the sink returns or hangs, as a full
  ring makes it do, and so never fails an assertion nor touches memory it does not own.
\<close>

theorem network_calls_end:
  assumes "inj (address p)" "net_reachable p S"
  shows "(sink_node S = (s, w) \<longrightarrow> carries (from_sources p S) sys \<longrightarrow> sink_call_allowed (sink_room p) c \<longrightarrow>
      ends {Hang} (sink_api (sink_client p) c (s, w\<lparr>os := sys\<rparr>)) (\<lambda>(s', w'). \<forall>b. b \<noteq> sink_client p \<and>
        b \<notin> set (sink_blocks s) \<longrightarrow> blocks w' b = blocks w b)) \<and>
    (source_node S i = (t, u) \<longrightarrow> carries (from_sink S i) sys \<longrightarrow>
      blocks u (source_client p i) = Some (map Some bs) \<longrightarrow> source_call_allowed (length bs) d \<longrightarrow>
      returns (source_api (source_client p i) d (t, u\<lparr>os := sys\<rparr>)) (\<lambda>(t', u'). source_ok t' u'))"
proof (intro conjI impI)
  assume n: "sink_node S = (s, w)" and sys: "carries (from_sources p S) sys" and c: "sink_call_allowed (sink_room p) c"
  note inv = net_reachable_inv [OF assms]
  from inv n obtain v us where "represents s w v" "caller_buffer s w (sink_client p) us" "length us = sink_room p"
    by (auto simp: net_inv_def sink_inv_def)
  with sys brings_polite [OF brings_to_sink [OF inv sys]]
  have "sink_object (sink_client p) (sink_room p) (sink_blocks s) (blocks w) (s, w\<lparr>os := sys\<rparr>)"
    by (auto simp: sink_object_def carries_def caller_buffer_def)
  from sink_api_ends [OF this c] show "ends {Hang} (sink_api (sink_client p) c (s, w\<lparr>os := sys\<rparr>)) (\<lambda>(s', w').
    \<forall>b. b \<noteq> sink_client p \<and> b \<notin> set (sink_blocks s) \<longrightarrow> blocks w' b = blocks w b)"
    by (rule ends_mono) (auto simp: sink_object_def)
next
  assume "source_node S i = (t, u)" "carries (from_sink S i) sys" "blocks u (source_client p i) = Some (map Some bs)"
    "source_call_allowed (length bs) d"
  from source_call_returns [OF net_reachable_inv [OF assms] this]
  show "returns (source_api (source_client p i) d (t, u\<lparr>os := sys\<rparr>)) (\<lambda>(t', u'). source_ok t' u')"
    by (rule returns_mono) (auto simp: source_moves_def source_run_def)
qed

theorem network_calls_end_witness:
  "ends {Hang} (sink_api 6 Get_state (fst (sink_node sample_start), (snd (sink_node sample_start))\<lparr>os := sample_os 0 silence\<rparr>))
     (\<lambda>x. True) \<and>
   returns (source_api 3 (Put 3) (fresh_source, sample_source_world (sample_os 0 silence))) (\<lambda>(t', u'). source_ok t' u')"
proof
  note start = network_calls_end [OF sample_inj net_reachable_start [OF sample_net_start]]
  have "sink_node sample_start = (fst (sink_node sample_start), snd (sink_node sample_start))" by simp
  from start [of _ _ "sample_os 0 silence" Get_state, THEN conjunct1, rule_format, OF this carries_sample(2)]
  show "ends {Hang} (sink_api 6 Get_state (fst (sink_node sample_start), (snd (sink_node sample_start))\<lparr>os := sample_os 0 silence\<rparr>))
     (\<lambda>x. True)"
    by (simp add: ends_mono)
  let ?u = "sample_source_world (sample_os 0 silence)"
  have "source_node sample_start 0 = (fresh_source, ?u)" by (simp add: sample_start_def)
  from start [THEN conjunct2, rule_format, OF this carries_sample(2), of "[10, 20, 30]" "Put 3"]
  have "returns (source_api 3 (Put 3) (fresh_source, ?u\<lparr>os := sample_os 0 silence\<rparr>)) (\<lambda>(t', u'). source_ok t' u')"
    by (simp add: sample_source_world_def)
  moreover have "?u\<lparr>os := sample_os 0 silence\<rparr> = ?u" by (simp add: sample_source_world_def sample_world_def)
  ultimately show "returns (source_api 3 (Put 3) (fresh_source, ?u)) (\<lambda>(t', u'). source_ok t' u')" by simp
qed

end
