(* ===== verification/Example_Sink.thy ===== *)
theory Example_Sink
  imports Session
begin

text \<open>
  \<^verbatim>\<open>examples/01-sink.cpp\<close>: a window that shows the frames of a sink with one light. The window
  system is a parameter: whether it starts, whether it opens a window, and the sizes its window has in the
  rounds of the loop until it is closed. What the program asks of it is the list of its calls. The
  bytes of a colour stand for their quotients by 255 in floating point.
\<close>

section \<open>The program\<close>

datatype clear_color = Green | Red | Shown "u8 list"

definition show_sink :: "Sink \<Rightarrow> world \<Rightarrow> (clear_color \<times> Sink \<times> world) result" where
  "show_sink sink w =
     bind_res (atolla_sink_state sink w) (\<lambda>(state, sink, w).
     if state = ATOLLA_SINK_STATE_OPEN then Inr (Green, sink, w)
     else if state = ATOLLA_SINK_STATE_ERROR then Inr (Red, sink, w)
     else
       let (frame, w) = enter_array (replicate 3 None) w in
       bind_res (atolla_sink_get sink frame 3 w) (\<lambda>(_, sink, w).
       bind_res (read_bytes frame 3 w) (\<lambda>rgb.
       Inr (Shown rgb, sink, leave_array frame w))))"

datatype window_call = Init | Context_version int int | Create_window int int string | Make_current | Swap_interval int
  | Viewport int int | Clear_color clear_color | Clear | Swap_buffers | Poll_events | Destroy_window | Terminate

text \<open>\<^verbatim>\<open>while (!glfwWindowShouldClose(window))\<close>, one round for each size the window has.\<close>

fun show_rounds :: "(int \<times> int) list \<Rightarrow> Sink \<Rightarrow> world \<Rightarrow> (window_call list \<times> Sink \<times> world) result" where
  "show_rounds [] sink w = Inr ([], sink, w)"
| "show_rounds ((width, height) # sizes) sink w =
     bind_res (show_sink sink w) (\<lambda>(color, sink, w).
     bind_res (show_rounds sizes sink w) (\<lambda>(calls, sink, w).
     Inr ([Viewport width height, Clear_color color, Clear, Swap_buffers, Poll_events] @ calls, sink, w)))"

definition example_sink_main :: "bool \<Rightarrow> bool \<Rightarrow> (int \<times> int) list \<Rightarrow> world \<Rightarrow> (int \<times> window_call list \<times> world) result" where
  "example_sink_main glfw_init glfw_window sizes w =
     bind_res (atolla_sink_make \<lparr>sink_spec_port = 10042, sink_spec_lights_count = 1\<rparr> w) (\<lambda>(sink, w).
     if \<not> glfw_init then Inr (1, [Init], w)
     else
       let opening = [Init, Context_version 2 0, Create_window 640 480 ''Local Atolla Sink''] in
       if \<not> glfw_window then Inr (1, opening @ [Terminate], w)
       else bind_res (show_rounds sizes sink w) (\<lambda>(calls, sink, w).
         Inr (0, opening @ [Make_current, Swap_interval 1] @ calls @ [Destroy_window, Terminate], w)))"

section \<open>What it shows\<close>

lemma represents_enter:
  assumes "represents s w v" "next_block w \<notin> set (sink_blocks s)"
  shows "represents s (snd (enter_array cs w)) v" "caller_buffer s (snd (enter_array cs w)) (next_block w) cs"
proof -
  let ?w = "snd (enter_array cs w)"
  have same: "blocks ?w b = blocks w b" if "b \<in> set (sink_blocks s)" for b
    using that assms(2) by (auto simp: enter_array_def)
  have owned: "owned block b n ?w" if "owned block b n w" for block b n
    using that by (auto simp: owned_def enter_array_def)
  from assms(1) have lay: "sink_layout s w" by (simp add: represents_def)
  then have "live (snk_recv_buf s) sink_recv_buf_len ?w"
    using same by (auto simp: sink_layout_def live_def sink_blocks_def)
  with lay owned have "sink_layout s ?w"
    unfolding sink_layout_def owns_def ring_inv_def by blast
  moreover obtain gb where "blk_data (ring_buf (snk_pending_frames s)) = Ptr gb 0"
    using lay by (rule sink_layoutE)
  then have "contents (snk_pending_frames s) ?w = contents (snk_pending_frames s) w"
    using same by (intro contents_same_block) (auto simp: sink_blocks_def)
  ultimately show "represents s ?w v"
    using assms(1) same by (simp add: represents_def sink_blocks_def)
  show "caller_buffer s ?w (next_block w) cs"
    using assms(2) by (simp add: caller_buffer_def enter_array_def)
qed

end
