(* ===== verification/Example_Colors.thy ===== *)
theory Example_Colors
  imports Prelude
begin

text \<open>
  \<^verbatim>\<open>HsvToRgb\<close> of \<^verbatim>\<open>examples/04-complementary.cpp\<close>: the conversion of a colour in integers of 8 bits.
  The operands of \<^verbatim>\<open>*\<close>, \<^verbatim>\<open>-\<close>, \<^verbatim>\<open>/\<close> and \<^verbatim>\<open>>>\<close> are promoted to \<^verbatim>\<open>int\<close>, and each result
  is reduced to \<^verbatim>\<open>unsigned char\<close> when it is stored.
\<close>

record RgbColor =
  rgb_r :: u8
  rgb_g :: u8
  rgb_b :: u8

record HsvColor =
  hsv_h :: u8
  hsv_s :: u8
  hsv_v :: u8

definition HsvToRgb :: "HsvColor \<Rightarrow> RgbColor" where
  "HsvToRgb hsv =
     (if hsv_s hsv = 0 then \<lparr>rgb_r = hsv_v hsv, rgb_g = hsv_v hsv, rgb_b = hsv_v hsv\<rparr>
      else
        let region = word_of_int (uint (hsv_h hsv) div 43) :: u8;
            remainder = word_of_int ((uint (hsv_h hsv) - uint region * 43) * 6) :: u8;
            p = word_of_int (drop_bit 8 (uint (hsv_v hsv) * (255 - uint (hsv_s hsv)))) :: u8;
            q = word_of_int (drop_bit 8 (uint (hsv_v hsv) *
                  (255 - drop_bit 8 (uint (hsv_s hsv) * uint remainder)))) :: u8;
            t = word_of_int (drop_bit 8 (uint (hsv_v hsv) *
                  (255 - drop_bit 8 (uint (hsv_s hsv) * (255 - uint remainder))))) :: u8 in
        if region = 0 then \<lparr>rgb_r = hsv_v hsv, rgb_g = t, rgb_b = p\<rparr>
        else if region = 1 then \<lparr>rgb_r = q, rgb_g = hsv_v hsv, rgb_b = p\<rparr>
        else if region = 2 then \<lparr>rgb_r = p, rgb_g = hsv_v hsv, rgb_b = t\<rparr>
        else if region = 3 then \<lparr>rgb_r = p, rgb_g = q, rgb_b = hsv_v hsv\<rparr>
        else if region = 4 then \<lparr>rgb_r = t, rgb_g = p, rgb_b = hsv_v hsv\<rparr>
        else \<lparr>rgb_r = hsv_v hsv, rgb_g = p, rgb_b = q\<rparr>)"

text \<open>
  The reference: the same colour in natural numbers, without any reduction. A channel fades by
  \<open>v * s * x\<close>, in units of \<open>1 / 256\<close>, rounded down twice.
\<close>

definition faded :: "nat \<Rightarrow> nat \<Rightarrow> nat \<Rightarrow> nat" where
  "faded v s x = v * (255 - s * x div 256) div 256"

definition reference_rgb :: "nat \<Rightarrow> nat \<Rightarrow> nat \<Rightarrow> nat \<times> nat \<times> nat" where
  "reference_rgb h s v =
     (let x = h mod 43 * 6; low = v * (255 - s) div 256; falling = faded v s x; rising = faded v s (255 - x) in
      if s = 0 then (v, v, v)
      else [(v, rising, low), (falling, v, low), (low, v, rising), (low, falling, v), (rising, low, v),
            (v, low, falling)] ! (h div 43))"

lemma faded_bounds:
  assumes "x \<le> 255"
  shows "v * (255 - s) div 256 \<le> faded v s x" "faded v s x \<le> v"
proof -
  have "s * x div 256 \<le> s * 256 div 256" using assms by (intro div_le_mono mult_le_mono2) simp
  then have "s * x div 256 \<le> s" by simp
  then show "v * (255 - s) div 256 \<le> faded v s x"
    unfolding faded_def by (intro div_le_mono mult_le_mono2 diff_le_mono2)
  have "v * (255 - s * x div 256) div 256 \<le> v * 256 div 256"
    by (intro div_le_mono mult_le_mono2) simp
  then show "faded v s x \<le> v" by (simp add: faded_def)
qed

lemma unat_u8_le: "unat (x :: u8) \<le> 255"
  using unat_u8_less [of x] by simp

lemma unat_of_int_u8: "n < 256 \<Longrightarrow> unat (word_of_int (int n) :: u8) = n"
  by (simp add: unat_of_nat)

lemma uint_of_int_u8: "n < 256 \<Longrightarrow> uint (word_of_int (int n) :: u8) = int n"
  by (simp only: uint_nat unat_of_int_u8)

text \<open>A product of two bytes, shifted down by eight bits, fits a byte.\<close>

lemma shifted_product:
  "drop_bit 8 (uint (a :: u8) * int n) = int (unat a * n div 256)"
proof -
  have "drop_bit 8 (uint a * int n) = int (unat a * n) div int 256" by (simp add: drop_bit_eq_div)
  then show ?thesis by (simp only: zdiv_int)
qed

lemma shade_u8:
  assumes "y \<le> 255"
  shows "unat (word_of_int (drop_bit 8 (uint (a :: u8) * (255 - int y))) :: u8) = unat a * (255 - y) div 256"
proof -
  have "255 - int y = int (255 - y)" using assms by simp
  moreover have "unat a * (255 - y) \<le> 255 * 255" using unat_u8_le by (intro mult_le_mono) auto
  then have "unat a * (255 - y) div 256 < 256" by simp
  ultimately show ?thesis by (simp only: shifted_product unat_of_int_u8)
qed

lemma faded_u8:
  assumes "x \<le> 255"
  shows "unat (word_of_int (drop_bit 8 (uint (v :: u8) * (255 - drop_bit 8 (uint (s :: u8) * int x)))) :: u8) =
    faded (unat v) (unat s) x"
proof -
  have "unat s * x \<le> 255 * 255" using unat_u8_le assms by (intro mult_le_mono) auto
  then have "unat s * x div 256 \<le> 255" by simp
  then show ?thesis by (simp only: shifted_product shade_u8 faded_def)
qed

lemma HsvToRgb_reference:
  "(unat (rgb_r (HsvToRgb hsv)), unat (rgb_g (HsvToRgb hsv)), unat (rgb_b (HsvToRgb hsv))) =
   reference_rgb (unat (hsv_h hsv)) (unat (hsv_s hsv)) (unat (hsv_v hsv))"
proof (cases "hsv_s hsv = 0")
  case True
  then show ?thesis by (simp add: HsvToRgb_def reference_rgb_def)
next
  case False
  let ?h = "unat (hsv_h hsv)"
  define region where "region = ?h div 43"
  define x where "x = ?h mod 43 * 6"
  have h: "uint (hsv_h hsv) = int ?h" by simp
  have "region \<le> 255 div 43" unfolding region_def using unat_u8_le by (intro div_le_mono)
  then have region: "region \<le> 5" by simp
  have "?h mod 43 \<le> 42" by (metis Suc_le_mono eval_nat_numeral(3) less_Suc_eq_le mod_less_divisor zero_less_numeral)
  then have x: "x \<le> 252" unfolding x_def by simp
  have R: "word_of_int (uint (hsv_h hsv) div 43) = (word_of_int (int region) :: u8)"
    unfolding h region_def by (simp only: zdiv_int of_nat_numeral)
  have uR: "uint (word_of_int (int region) :: u8) = int region"
    using region by (intro uint_of_int_u8) simp
  define m where "m = ?h mod 43"
  have "?h = region * 43 + m" unfolding region_def m_def by simp
  then have "int ?h = int region * 43 + int m" by linarith
  then have X: "(uint (hsv_h hsv) - int region * 43) * 6 = int x"
    unfolding h x_def m_def [symmetric] of_nat_mult of_nat_numeral by (simp only: add_diff_cancel_left')
  have uX: "uint (word_of_int (int x) :: u8) = int x" using x by (intro uint_of_int_u8) simp
  let ?v = "unat (hsv_v hsv)" and ?s = "unat (hsv_s hsv)"
  have s: "uint (hsv_s hsv) = int ?s" by simp
  have low: "unat (word_of_int (drop_bit 8 (uint (hsv_v hsv) * (255 - int ?s))) :: u8) = ?v * (255 - ?s) div 256"
    by (rule shade_u8 [OF unat_u8_le])
  have falling: "unat (word_of_int (drop_bit 8 (uint (hsv_v hsv) *
      (255 - drop_bit 8 (uint (hsv_s hsv) * int x)))) :: u8) = faded ?v ?s x"
    using x by (intro faded_u8) simp
  have "255 - int x = int (255 - x)" using x by simp
  then have rising: "unat (word_of_int (drop_bit 8 (uint (hsv_v hsv) *
      (255 - drop_bit 8 (uint (hsv_s hsv) * (255 - int x))))) :: u8) = faded ?v ?s (255 - x)"
    by (simp only: faded_u8 diff_le_self)
  define p q u :: u8
    where "p = word_of_int (drop_bit 8 (uint (hsv_v hsv) * (255 - int ?s)))"
      and "q = word_of_int (drop_bit 8 (uint (hsv_v hsv) * (255 - drop_bit 8 (uint (hsv_s hsv) * int x))))"
      and "u = word_of_int (drop_bit 8 (uint (hsv_v hsv) * (255 - drop_bit 8 (uint (hsv_s hsv) * (255 - int x)))))"
  have "HsvToRgb hsv = (let region = word_of_int (int region) :: u8 in
        if region = 0 then \<lparr>rgb_r = hsv_v hsv, rgb_g = u, rgb_b = p\<rparr>
        else if region = 1 then \<lparr>rgb_r = q, rgb_g = hsv_v hsv, rgb_b = p\<rparr>
        else if region = 2 then \<lparr>rgb_r = p, rgb_g = hsv_v hsv, rgb_b = u\<rparr>
        else if region = 3 then \<lparr>rgb_r = p, rgb_g = q, rgb_b = hsv_v hsv\<rparr>
        else if region = 4 then \<lparr>rgb_r = u, rgb_g = p, rgb_b = hsv_v hsv\<rparr>
        else \<lparr>rgb_r = hsv_v hsv, rgb_g = p, rgb_b = q\<rparr>)"
    using False by (simp only: HsvToRgb_def Let_def if_False R uR X uX p_def q_def u_def flip: s)
  moreover have "region = 0 \<or> region = 1 \<or> region = 2 \<or> region = 3 \<or> region = 4 \<or> region = 5"
    using region by linarith
  moreover have "unat p = ?v * (255 - ?s) div 256" "unat q = faded ?v ?s x" "unat u = faded ?v ?s (255 - x)"
    using low falling rising by (simp_all only: p_def q_def u_def)
  ultimately show ?thesis
    using False unfolding reference_rgb_def Let_def region_def [symmetric] x_def [symmetric]
    by (elim disjE) (simp_all add: unat_eq_0)
qed

end
