(* ===== verification/Example_Source.thy ===== *)
theory Example_Source
  imports Source_Api Example_Colors Doubles
begin

text \<open>
  \<^verbatim>\<open>examples/02-yellow.cpp\<close>, \<^verbatim>\<open>03-sine.cpp\<close> and \<^verbatim>\<open>04-complementary.cpp\<close>: programs that lease a sink and
  paint it. What they print is the list of their lines. Arithmetic on \<^verbatim>\<open>double\<close> values and
  \<^verbatim>\<open>cos\<close> are the parameter of \<open>Doubles\<close>; the conversion of a \<^verbatim>\<open>double\<close> whose integer
  part does not fit \<^verbatim>\<open>uint8_t\<close> is undefined, the fault \<open>Bad_conversion\<close>.
\<close>

section \<open>Constants\<close>

definition frame_length_ms :: int where "frame_length_ms = 17"
definition max_buffered_frames :: int where "max_buffered_frames = 50"
definition run_time_ms_yellow :: int where "run_time_ms_yellow = 5000"
definition run_time_ms :: int where "run_time_ms = 10000"

section \<open>Leasing a sink\<close>

definition example_spec :: "string \<Rightarrow> int \<Rightarrow> AtollaSourceSpec" where
  "example_spec sink_hostname port =
     \<lparr>spec_sink_hostname = sink_hostname, spec_sink_port = port,
      spec_frame_duration_ms = frame_length_ms, spec_max_buffered_frames = max_buffered_frames,
      spec_retry_timeout_ms = 0, spec_disconnect_timeout_ms = 0, spec_async_make = False\<rparr>"

definition run_source ::
  "(Source \<Rightarrow> world \<Rightarrow> (Source \<times> world) result) \<Rightarrow> nat \<Rightarrow> string \<Rightarrow> int \<Rightarrow> world \<Rightarrow>
   (string list \<times> Source \<times> world) result" where
  "run_source paint rounds sink_hostname port w =
     (let out = [''Starting atolla source''] in
      bind_res (atolla_source_make rounds (example_spec sink_hostname port) w) (\<lambda>(source, w).
      bind_res (atolla_source_state source w) (\<lambda>(state, source, w).
      if state = ATOLLA_SOURCE_STATE_OPEN
      then bind_res (paint source w) (\<lambda>(source, w). Inr (out @ [''Atolla source received lent''], source, w))
      else Inr (out @ [''Error occurred lending''], source, w))))"

text \<open>\<^verbatim>\<open>while((state = atolla_source_state(source)) == ATOLLA_SOURCE_STATE_WAITING) {}\<close>\<close>

definition wait_round ::
  "Source \<times> world \<Rightarrow> ((Source \<times> world) + (AtollaSourceState \<times> Source \<times> world)) result" where
  "wait_round = (\<lambda>(source, w).
     bind_res (atolla_source_state source w) (\<lambda>(state, source, w).
     if state = ATOLLA_SOURCE_STATE_WAITING then Inr (Inl (source, w)) else Inr (Inr (state, source, w))))"

definition run_source_sine ::
  "(Source \<Rightarrow> world \<Rightarrow> (Source \<times> world) result) \<Rightarrow> nat \<Rightarrow> string \<Rightarrow> int \<Rightarrow> world \<Rightarrow>
   (string list \<times> Source \<times> world) result" where
  "run_source_sine paint rounds sink_hostname port w =
     (let out = [''Starting atolla source''] in
      bind_res (atolla_source_make rounds (example_spec sink_hostname port) w) (\<lambda>(source, w).
      bind_res (atolla_source_state source w) (\<lambda>(_, source, w).
      bind_res (loop rounds wait_round (source, w)) (\<lambda>(state, source, w).
      if state = ATOLLA_SOURCE_STATE_OPEN
      then bind_res (paint source w) (\<lambda>(source, w). Inr (out @ [''Atolla source received lent''], source, w))
      else Inr (out @ [''Error occurred lending''], source, w)))))"

text \<open>
  \<^verbatim>\<open>atoi\<close>, for numbers that fit an \<^verbatim>\<open>int\<close>: white space, a sign, and digits up to the first
  character that is none.
\<close>

definition is_digit :: "char \<Rightarrow> bool" where
  "is_digit c \<longleftrightarrow> c \<in> set ''0123456789''"

definition digit_value :: "char \<Rightarrow> int" where
  "digit_value c = int (of_char c) - 48"

definition atoi :: "string \<Rightarrow> int" where
  "atoi s =
     (let s = dropWhile (\<lambda>c. c \<in> {CHR '' '', CHR 0x09, CHR 0x0A, CHR 0x0B, CHR 0x0C, CHR 0x0D}) s;
          (sign, s) = (case s of [] \<Rightarrow> (1, s)
            | c # r \<Rightarrow> if c = CHR ''-'' then (-1, r) else if c = CHR ''+'' then (1, r) else (1, s)) in
      sign * foldl (\<lambda>n c. 10 * n + digit_value c) 0 (takeWhile is_digit s))"

text \<open>\<open>argv\<close> includes the name of the program.\<close>

definition example_main ::
  "(string \<Rightarrow> int \<Rightarrow> world \<Rightarrow> (string list \<times> Source \<times> world) result) \<Rightarrow> string list \<Rightarrow> world \<Rightarrow>
   (int \<times> string list \<times> world) result" where
  "example_main start argv w =
     (if length argv < 3
      then bind_res (start ''localhost'' 10042 w) (\<lambda>(out, source, w). Inr (0, out, w))
      else bind_res (start (argv ! 1) (atoi (argv ! 2)) w) (\<lambda>(out, source, w). Inr (0, out, w)))"

section \<open>Yellow\<close>

function paint_yellow_loop :: "int \<Rightarrow> ptr \<Rightarrow> Source \<Rightarrow> world \<Rightarrow> (Source \<times> world) result" where
  "paint_yellow_loop i frame source w =
     (if i * frame_length_ms < run_time_ms_yellow
      then bind_res (atolla_source_put source frame 3 w) (\<lambda>(_, source, w).
           paint_yellow_loop (i + 1) frame source w)
      else Inr (source, w))"
  by pat_completeness auto
termination
  by (relation "measure (\<lambda>(i, frame, source, w). nat (run_time_ms_yellow - i * frame_length_ms))")
    (auto simp: frame_length_ms_def)

declare paint_yellow_loop.simps [simp del]

definition paint_yellow :: "Source \<Rightarrow> world \<Rightarrow> (Source \<times> world) result" where
  "paint_yellow source w =
     (let (frame, w) = enter_array (map Some [255, 255, 0]) w in
      bind_res (paint_yellow_loop 0 frame source w) (\<lambda>(source, w). Inr (source, leave_array frame w)))"

definition run_source_yellow :: "nat \<Rightarrow> string \<Rightarrow> int \<Rightarrow> world \<Rightarrow> (string list \<times> Source \<times> world) result" where
  "run_source_yellow rounds = run_source paint_yellow rounds"

definition main_yellow :: "nat \<Rightarrow> string list \<Rightarrow> world \<Rightarrow> (int \<times> string list \<times> world) result" where
  "main_yellow rounds = example_main (run_source_yellow rounds)"

section \<open>Colours that change\<close>

text \<open>\<^verbatim>\<open>(uint8_t) x\<close>\<close>

definition u8_of_double :: "'d doubles \<Rightarrow> 'd \<Rightarrow> u8 result" where
  "u8_of_double D x = (case d_trunc D x of
       None \<Rightarrow> Inl Bad_conversion
     | Some k \<Rightarrow> if 0 \<le> k \<and> k \<le> 255 then Inr (word_of_int k) else Inl Bad_conversion)"

text \<open>\<^verbatim>\<open>(uint8_t) (poscos * 255.0)\<close> with \<^verbatim>\<open>poscos = (cos(x) + 1.0) / 2.0\<close>\<close>

definition wave :: "'d doubles \<Rightarrow> 'd \<Rightarrow> u8 result" where
  "wave D x =
     (let poscos = d_div D (d_add D (d_cos D x) (d_of_int D 1)) (d_of_int D 2) in
      u8_of_double D (d_mul D poscos (d_of_int D 255)))"

definition next_time :: "'d doubles \<Rightarrow> 'd \<Rightarrow> 'd" where
  "next_time D t = d_add D t (d_div D (d_of_int D frame_length_ms) (d_of_int D 1000))"

function paint_sine_loop :: "'d doubles \<Rightarrow> int \<Rightarrow> 'd \<Rightarrow> ptr \<Rightarrow> Source \<Rightarrow> world \<Rightarrow> (Source \<times> world) result" where
  "paint_sine_loop D i t frame source w =
     (if i * frame_length_ms < run_time_ms
      then
        let t = next_time D t in
        bind_res (wave D t) (\<lambda>col.
        bind_res (write_cells frame [Some col, Some col, Some col] w) (\<lambda>w.
        bind_res (atolla_source_put source frame 3 w) (\<lambda>(_, source, w).
        paint_sine_loop D (i + 1) t frame source w)))
      else Inr (source, w))"
  by pat_completeness auto
termination
  by (relation "measure (\<lambda>(D, i, t, frame, source, w). nat (run_time_ms - i * frame_length_ms))")
    (auto simp: frame_length_ms_def)

declare paint_sine_loop.simps [simp del]

definition paint_sine :: "'d doubles \<Rightarrow> Source \<Rightarrow> world \<Rightarrow> (Source \<times> world) result" where
  "paint_sine D source w =
     (let (frame, w) = enter_array (map Some [1, 2, 3]) w in
      bind_res (paint_sine_loop D 0 (d_of_int D 0) frame source w) (\<lambda>(source, w).
      Inr (source, leave_array frame w)))"

definition main_sine :: "'d doubles \<Rightarrow> nat \<Rightarrow> string list \<Rightarrow> world \<Rightarrow> (int \<times> string list \<times> world) result" where
  "main_sine D rounds = example_main (run_source_sine (paint_sine D) rounds)"

function paint_complementary_loop ::
  "'d doubles \<Rightarrow> int \<Rightarrow> 'd \<Rightarrow> ptr \<Rightarrow> Source \<Rightarrow> world \<Rightarrow> (Source \<times> world) result" where
  "paint_complementary_loop D i t frame source w =
     (if i * frame_length_ms < run_time_ms
      then
        let t = next_time D t in
        bind_res (wave D (d_mul D t (d_of_int D 10))) (\<lambda>col.
        bind_res (u8_of_double D (d_mul D t (d_of_int D 50))) (\<lambda>hue.
        let rgb = HsvToRgb \<lparr>hsv_h = hue, hsv_s = 255, hsv_v = col\<rparr> in
        bind_res (write_cells frame (map Some [rgb_r rgb, rgb_g rgb, rgb_b rgb]) w) (\<lambda>w.
        bind_res (u8_of_double D (d_add D (d_mul D t (d_of_int D 50)) (d_of_int D 128))) (\<lambda>hue2.
        let rgb = HsvToRgb \<lparr>hsv_h = hue2, hsv_s = 255, hsv_v = col\<rparr> in
        bind_res (write_cells (ptr_add frame 3) (map Some [rgb_r rgb, rgb_g rgb, rgb_b rgb]) w) (\<lambda>w.
        bind_res (atolla_source_put source frame 6 w) (\<lambda>(_, source, w).
        paint_complementary_loop D (i + 1) t frame source w))))))
      else Inr (source, w))"
  by pat_completeness auto
termination
  by (relation "measure (\<lambda>(D, i, t, frame, source, w). nat (run_time_ms - i * frame_length_ms))")
    (auto simp: frame_length_ms_def)

declare paint_complementary_loop.simps [simp del]

definition paint_complementary :: "'d doubles \<Rightarrow> Source \<Rightarrow> world \<Rightarrow> (Source \<times> world) result" where
  "paint_complementary D source w =
     (let (frame, w) = enter_array (map Some [1, 2, 3, 4, 5, 6]) w in
      bind_res (paint_complementary_loop D 0 (d_of_int D 0) frame source w) (\<lambda>(source, w).
      Inr (source, leave_array frame w)))"

definition run_source_complementary ::
  "'d doubles \<Rightarrow> nat \<Rightarrow> string \<Rightarrow> int \<Rightarrow> world \<Rightarrow> (string list \<times> Source \<times> world) result" where
  "run_source_complementary D rounds = run_source (paint_complementary D) rounds"

definition main_complementary :: "'d doubles \<Rightarrow> nat \<Rightarrow> string list \<Rightarrow> world \<Rightarrow> (int \<times> string list \<times> world) result" where
  "main_complementary D rounds = example_main (run_source_complementary D rounds)"

section \<open>Painting with a source\<close>

lemma owned_enter: "owned b k n w \<Longrightarrow> owned b k n (snd (enter_array cs w))"
  by (auto simp: owned_def enter_array_def)

lemma builder_ok_enter: "builder_ok b w \<Longrightarrow> builder_ok b (snd (enter_array cs w))"
  unfolding builder_ok_def using owned_enter by blast

lemma live_enter:
  assumes "live p n w" "block_of p < next_block w"
  shows "live p n (snd (enter_array cs w))"
proof -
  from assms obtain b xs where "p = Ptr b 0" "blocks w b = Some xs" "length xs = n" "b < next_block w"
    by (auto simp: live_def)
  then have "p = Ptr b 0 \<and> blocks (snd (enter_array cs w)) b = Some xs \<and> length xs = n"
    by (simp add: enter_array_def)
  then show ?thesis unfolding live_def by blast
qed

lemma source_object_enter:
  assumes "source_ok s w" "source_env w"
  shows "source_object (next_block w) (length bs) (src_state s) 0 m (s, snd (enter_array (map Some bs) w))"
proof -
  let ?w = "snd (enter_array (map Some bs) w)"
  have "builder_ok (src_builder s) ?w" if "builder_ok (src_builder s) w"
    using that by (rule builder_ok_enter)
  moreover from assms(1) have "block_of (src_recv_buf s) < next_block ?w"
    by (auto simp: source_ok_def source_memory_def enter_array_def)
  ultimately have "source_ok s ?w"
    using assms(1) live_enter by (auto simp: source_ok_def source_memory_def)
  moreover have "source_env ?w" using assms(2) by (simp add: source_env_def enter_array_def)
  moreover have "caller_frame s ?w (next_block w) bs"
    using assms(1) by (auto simp: caller_frame_def enter_array_def source_ok_def source_memory_def
        builder_ok_def owned_def)
  ultimately show ?thesis unfolding source_object_def by auto
qed

lemma overlay_map: "overlay i (map f xs) (map f ys) = map f (overlay i xs ys)"
  by (simp add: overlay_def take_map drop_map)

lemma source_object_write:
  assumes obj: "source_object ub n st 0 m (s, w)" and fits: "i + length xs \<le> n"
  shows "returns (write_cells (Ptr ub i) (map Some xs) w) (\<lambda>w'. source_object ub n st 0 m (s, w'))"
proof -
  from obj obtain bs where frame: "caller_frame s w ub bs" "length bs = n"
    and ok: "source_ok s w" "source_env w" "source_reaches st (src_state s)"
    by (auto simp: source_object_def)
  let ?w = "w\<lparr>blocks := (blocks w)(ub := Some (map Some (overlay i xs bs)))\<rparr>"
  have blk: "blocks w ub = Some (map Some bs)" using frame(1) by (simp add: caller_frame_def)
  have len: "length (overlay i xs bs) = n" using fits frame(2) by simp
  then have "shape ?w = shape w" using frame(2) by (intro shape_store [OF blk]) simp
  then have "source_ok s ?w"
    using ok(1) source_memory_shape [of s w ?w] by (simp add: source_ok_def)
  moreover have "caller_frame s ?w ub (overlay i xs bs)" using frame(1) by (simp add: caller_frame_def)
  moreover have "source_env ?w" using ok(2) by (simp add: source_env_def)
  ultimately have "source_object ub n st 0 m (s, ?w)"
    using ok(3) len unfolding source_object_def by auto
  moreover have "write_cells (Ptr ub i) (map Some xs) w = Inr ?w"
    using write_cells_block [OF blk] fits frame(2) by (simp add: overlay_map)
  ultimately show ?thesis by simp
qed

lemma source_object_put_returns:
  assumes "source_object ub n st nb m (s, w)" "k \<le> n" "k \<le> 65532"
  shows "returns (atolla_source_put s (Ptr ub 0) k w) (\<lambda>(ok, s', w'). source_object ub n st nb m (s', w'))"
  using source_api_ends [OF assms(1), of "Put k"] assms(2,3) by (simp add: ends_returns split_def)

text \<open>The loop of the first program is a fixed number of puts.\<close>

lemma paint_yellow_loop_puts:
  "0 \<le> i \<Longrightarrow> paint_yellow_loop i (Ptr ub 0) s w =
     run (source_api ub) (replicate (nat ((5016 - i * 17) div 17)) (Put 3)) (s, w)"
proof (induction i "Ptr ub 0" s w rule: paint_yellow_loop.induct)
  case (1 i s w)
  show ?case
  proof (cases "i * 17 < 5000")
    case True
    then have "5016 - i * 17 = (5016 - (i + 1) * 17) + 17" by simp
    then have "(5016 - i * 17) div 17 = (5016 - (i + 1) * 17) div 17 + 1"
      by (metis div_add_self2 zero_neq_numeral)
    moreover have "0 \<le> (5016 - (i + 1) * 17) div 17" using True by simp
    ultimately have "nat ((5016 - i * 17) div 17) = Suc (nat ((5016 - (i + 1) * 17) div 17))" by simp
    with True 1 show ?thesis
      by (cases "atolla_source_put s (Ptr ub 0) 3 w")
        (auto simp: paint_yellow_loop.simps [of i] frame_length_ms_def run_time_ms_yellow_def)
  next
    case False
    then have "(5016 - i * 17) div 17 \<le> 0" using zdiv_mono1 [of "5016 - i * 17" 16 17] by simp
    with False show ?thesis
      by (simp add: paint_yellow_loop.simps [of i] frame_length_ms_def run_time_ms_yellow_def)
  qed
qed

lemma paint_yellow_returns:
  assumes "source_ok s w" "source_env w"
  shows "returns (paint_yellow s w) (\<lambda>x. True)"
proof -
  let ?w = "snd (enter_array (map Some [255, 255, 0]) w)"
  have "list_all (source_call_allowed 3) (replicate k (Put 3))" for k by (induction k) simp_all
  then have "ends {} (run (source_api (next_block w)) (replicate k (Put 3)) (s, ?w))
      (source_object (next_block w) 3 (src_state s) 0 (\<lambda>b. None))" for k
    using source.run_ends [OF source_object_enter [OF assms, of "[255, 255, 0]"],
        of "replicate k (Put 3)"] by (simp add: numeral_3_eq_3)
  then have "returns (run (source_api (next_block w)) (replicate k (Put 3)) (s, ?w)) (\<lambda>x. True)" for k
    unfolding ends_returns by (rule returns_mono) simp
  then show ?thesis
    by (simp add: paint_yellow_def enter_array_def paint_yellow_loop_puts split_def)
qed

section \<open>A source that was made\<close>

lemma state_call_made:
  assumes "source_ok s w" "source_env w" "src_state s \<noteq> ATOLLA_SOURCE_STATE_WAITING"
  obtains s' w' where "atolla_source_state s w = Inr (src_state s', s', w')" "source_ok s' w'" "source_env w'"
    "src_state s' \<noteq> ATOLLA_SOURCE_STATE_WAITING"
proof -
  from source_update_between [OF assms(1,2)] obtain s' w' where up: "source_update s w = Inr (s', w')"
    and btw: "between (s, w) (s', w')" by (auto simp: returns_iff)
  have "src_state s' \<noteq> ATOLLA_SOURCE_STATE_WAITING"
    using btw assms(3) source_never_waits_again [of "src_state s"] by (auto simp: between_def)
  with up between_ok [OF btw] between_env [OF assms(2) btw] show thesis
    by (intro that) (simp_all add: atolla_source_state_def)
qed

text \<open>The source of an example waits at most the default time-out.\<close>

lemma example_made:
  assumes port: "0 \<le> port" "port < 65536" and env: "source_env w"
    and sys: "setsockopt_works (os w)" "resolver_works (os w)" and clock: "clock_runs (os w) 750"
  obtains N where "\<And>rounds. N \<le> rounds \<Longrightarrow> \<exists>s w'. atolla_source_make rounds (example_spec host port) w = Inr (s, w') \<and>
    source_ok s w' \<and> source_env w' \<and> src_state s \<noteq> ATOLLA_SOURCE_STATE_WAITING"
proof -
  let ?spec = "example_spec host port"
  have spec: "source_spec_ok ?spec" "\<not> spec_async_make ?spec" "spec_deadline ?spec = 750"
    using port by (simp_all add: source_spec_ok_def example_spec_def frame_length_ms_def spec_deadline_def
        max_buffered_frames_def disconnect_timeout_ms_default_def)
  show thesis
    using make_blocking_returns [OF spec(1,2) env sys] clock spec(3) that by (auto simp: returns_iff)
qed

end
