(* ===== verification/Example_Waves.thy ===== *)
theory Example_Waves
  imports Example_Source
begin

text \<open>
  The loops of the programs that paint with \<^verbatim>\<open>double\<close> values. With numbers up to a thousand every
  operation is exact to a millionth; that is all these programs need.
\<close>

section \<open>Small numbers\<close>

definition denotes :: "('d \<Rightarrow> rat option) \<Rightarrow> 'd \<Rightarrow> rat \<Rightarrow> bool" where
  "denotes val x a \<longleftrightarrow> (case val x of None \<Rightarrow> False | Some c \<Rightarrow> \<bar>c - a\<bar> \<le> 1 / 1000000)"

lemma rounds_denotes:
  assumes "rounds_to (val x) a" "\<bar>a\<bar> \<le> 1000000"
  shows "denotes val x a"
proof -
  have "\<bar>a\<bar> / 2 ^ 52 + 1 / 10 ^ 30 \<le> 1 / 1000000" using assms(2) by simp
  with assms(1) show ?thesis unfolding rounds_to_def denotes_def by (auto split: option.splits)
qed

lemma denotesE:
  assumes "denotes val x a"
  obtains c where "val x = Some c" "a - 1 / 1000000 \<le> c" "c \<le> a + 1 / 1000000"
proof -
  from assms obtain c where c: "val x = Some c" "\<bar>c - a\<bar> \<le> 1 / 1000000"
    by (auto simp only: denotes_def split: option.splits)
  from c(2) have "a - 1 / 1000000 \<le> c" "c \<le> a + 1 / 1000000" unfolding abs_le_iff by linarith+
  with c(1) show thesis by (rule that)
qed

lemma small_sum:
  fixes a b :: rat
  assumes "\<bar>a\<bar> \<le> 1000" "\<bar>b\<bar> \<le> 1000"
  shows "\<bar>a + b\<bar> \<le> 1000000"
  using abs_triangle_ineq [of a b] assms by linarith

lemma small_product:
  fixes a b :: rat
  assumes "\<bar>a\<bar> \<le> 1000" "\<bar>b\<bar> \<le> 1000"
  shows "\<bar>a * b\<bar> \<le> 1000000"
  using mult_mono [OF assms] by (simp add: abs_mult)

lemma small_quotient:
  fixes a b :: rat
  assumes "\<bar>a\<bar> \<le> 1000" "1 \<le> b"
  shows "\<bar>a / b\<bar> \<le> 1000000"
proof -
  have "\<bar>a / b\<bar> = \<bar>a\<bar> / b" using assms(2) by (simp add: abs_divide)
  also have "\<dots> \<le> \<bar>a\<bar> / 1" using assms(2) by (intro divide_left_mono) simp_all
  finally show ?thesis using assms(1) by simp
qed

lemma doubles_accurateD:
  assumes D: "doubles_accurate D val"
  shows "0 \<le> n \<Longrightarrow> n \<le> 1000 \<Longrightarrow> val (d_of_int D n) = Some (of_int n)"
    and "val x = Some a \<Longrightarrow> val y = Some b \<Longrightarrow> \<bar>a\<bar> \<le> 1000 \<Longrightarrow> \<bar>b\<bar> \<le> 1000 \<Longrightarrow> denotes val (d_add D x y) (a + b)"
    and "val x = Some a \<Longrightarrow> val y = Some b \<Longrightarrow> \<bar>a\<bar> \<le> 1000 \<Longrightarrow> \<bar>b\<bar> \<le> 1000 \<Longrightarrow> denotes val (d_mul D x y) (a * b)"
    and "val x = Some a \<Longrightarrow> val y = Some b \<Longrightarrow> \<bar>a\<bar> \<le> 1000 \<Longrightarrow> 1 \<le> b \<Longrightarrow> b \<le> 1000 \<Longrightarrow> denotes val (d_div D x y) (a / b)"
    and "val x = Some a \<Longrightarrow> d_trunc D x = Some (trunc a)"
    and "val x = Some a \<Longrightarrow> \<bar>a\<bar> \<le> 1000 \<Longrightarrow> \<exists>c. val (d_cos D x) = Some c \<and> \<bar>c\<bar> \<le> 1"
proof -
  show "0 \<le> n \<Longrightarrow> n \<le> 1000 \<Longrightarrow> val (d_of_int D n) = Some (of_int n)" by (rule doubles_exact [OF D]) simp
  show "denotes val (d_add D x y) (a + b)" if "val x = Some a" "val y = Some b" "\<bar>a\<bar> \<le> 1000" "\<bar>b\<bar> \<le> 1000"
    using small_sum [OF that(3,4)] that by (intro rounds_denotes doubles_add [OF D]) simp_all
  show "denotes val (d_mul D x y) (a * b)" if "val x = Some a" "val y = Some b" "\<bar>a\<bar> \<le> 1000" "\<bar>b\<bar> \<le> 1000"
    using small_product [OF that(3,4)] that by (intro rounds_denotes doubles_mul [OF D]) simp_all
  show "denotes val (d_div D x y) (a / b)" if "val x = Some a" "val y = Some b" "\<bar>a\<bar> \<le> 1000" "1 \<le> b" "b \<le> 1000"
    using small_quotient [OF that(3,4)] that by (intro rounds_denotes doubles_div [OF D]) simp_all
qed (fact doubles_trunc [OF D] doubles_cos [OF D])+

text \<open>The time after \<open>i\<close> rounds.\<close>

definition time_after :: "('d \<Rightarrow> rat option) \<Rightarrow> int \<Rightarrow> 'd \<Rightarrow> bool" where
  "time_after val i t \<longleftrightarrow> 0 \<le> i \<and>
     (case val t of None \<Rightarrow> False | Some a \<Rightarrow> 169 * of_int i / 10000 \<le> a \<and> a \<le> 171 * of_int i / 10000)"

lemma time_afterE:
  assumes "time_after val i t"
  obtains a where "val t = Some a" "0 \<le> i" "169 * of_int i / 10000 \<le> a" "a \<le> 171 * of_int i / 10000"
  using assms by (auto simp: time_after_def split: option.splits)

lemma time_after_start: "doubles_accurate D val \<Longrightarrow> time_after val 0 (d_of_int D 0)"
  by (simp add: time_after_def doubles_accurateD(1))

lemma time_after_next:
  assumes D: "doubles_accurate D val" and t: "time_after val i t" and i: "i \<le> 589"
  shows "time_after val (i + 1) (next_time D t)"
proof -
  from t obtain a where a: "val t = Some a" "0 \<le> i" "169 * of_int i / 10000 \<le> a" "a \<le> 171 * of_int i / 10000"
    by (rule time_afterE)
  have i': "(0 :: rat) \<le> of_int i" "(of_int i :: rat) \<le> 589" using a(2) i by simp_all
  have "denotes val (d_div D (d_of_int D frame_length_ms) (d_of_int D 1000)) (17 / 1000)"
    using doubles_accurateD(4) [OF D doubles_accurateD(1) [OF D, of 17] doubles_accurateD(1) [OF D, of 1000]]
    by (simp add: frame_length_ms_def)
  then obtain b where b: "val (d_div D (d_of_int D frame_length_ms) (d_of_int D 1000)) = Some b"
    "17 / 1000 - 1 / 1000000 \<le> b" "b \<le> 17 / 1000 + 1 / 1000000" by (rule denotesE)
  have "\<bar>a\<bar> \<le> 1000" "\<bar>b\<bar> \<le> 1000" using a b(2,3) i' by (simp_all add: abs_le_iff)
  from denotesE [OF doubles_accurateD(2) [OF D a(1) b(1) this]] obtain c where
    "val (next_time D t) = Some c" "a + b - 1 / 1000000 \<le> c" "c \<le> a + b + 1 / 1000000"
    unfolding next_time_def by blast
  with a b(2,3) show ?thesis by (simp add: time_after_def field_simps)
qed

lemma time_after_small:
  assumes "time_after val i t" "i \<le> 589"
  obtains a where "val t = Some a" "0 \<le> a" "a \<le> 11"
proof -
  from assms(1) obtain a where a: "val t = Some a" "0 \<le> i" "169 * of_int i / 10000 \<le> a" "a \<le> 171 * of_int i / 10000"
    by (rule time_afterE)
  moreover have "(0 :: rat) \<le> of_int i" "(of_int i :: rat) \<le> 589" using a(2) assms(2) by simp_all
  ultimately have "0 \<le> a" "a \<le> 11" by linarith+
  with a(1) show thesis by (rule that)
qed

section \<open>Conversion to a byte\<close>

lemma u8_of_double_cases: "u8_of_double D x = Inl Bad_conversion \<or> (\<exists>k. u8_of_double D x = Inr k)"
  by (simp add: u8_of_double_def split: option.splits)

lemma u8_of_double_fits:
  assumes D: "doubles_accurate D val" and x: "val x = Some a" "-1 < a" "a < 256"
  shows "\<exists>k. u8_of_double D x = Inr k"
proof -
  have "0 \<le> trunc a \<and> trunc a \<le> 255"
    using x(2,3) by (auto simp: trunc_def le_floor_iff floor_le_iff le_ceiling_iff ceiling_le_iff)
  then show ?thesis using doubles_accurateD(5) [OF D x(1)] by (simp add: u8_of_double_def)
qed

lemma u8_of_double_overflows:
  assumes D: "doubles_accurate D val" and x: "val x = Some a" "256 \<le> a" "a \<le> 1000"
  shows "u8_of_double D x = Inl Bad_conversion"
proof -
  have "255 < \<lfloor>a\<rfloor>" using x(2) by (simp add: less_floor_iff)
  with x show ?thesis using doubles_accurateD(5) [OF D x(1)] by (simp add: u8_of_double_def trunc_def)
qed

lemma wave_fits:
  assumes D: "doubles_accurate D val" and x: "val x = Some a" "\<bar>a\<bar> \<le> 1000"
  shows "\<exists>k. wave D x = Inr k"
proof -
  from doubles_accurateD(6) [OF D x] obtain c where c: "val (d_cos D x) = Some c" "\<bar>c\<bar> \<le> 1" by blast
  from c have "denotes val (d_add D (d_cos D x) (d_of_int D 1)) (c + 1)"
    using doubles_accurateD(2) [OF D c(1) doubles_accurateD(1) [OF D, of 1]] by simp
  then obtain s where s: "val (d_add D (d_cos D x) (d_of_int D 1)) = Some s"
    "c + 1 - 1 / 1000000 \<le> s" "s \<le> c + 1 + 1 / 1000000" by (rule denotesE)
  let ?p = "d_div D (d_add D (d_cos D x) (d_of_int D 1)) (d_of_int D 2)"
  from s c(2) have "denotes val ?p (s / 2)"
    using doubles_accurateD(4) [OF D s(1) doubles_accurateD(1) [OF D, of 2]] by (simp add: abs_le_iff)
  then obtain p where p: "val ?p = Some p" "s / 2 - 1 / 1000000 \<le> p" "p \<le> s / 2 + 1 / 1000000" by (rule denotesE)
  from p s(2,3) c(2) have "denotes val (d_mul D ?p (d_of_int D 255)) (p * 255)"
    using doubles_accurateD(3) [OF D p(1) doubles_accurateD(1) [OF D, of 255]] by (simp add: abs_le_iff)
  then obtain m where m: "val (d_mul D ?p (d_of_int D 255)) = Some m"
    "p * 255 - 1 / 1000000 \<le> m" "m \<le> p * 255 + 1 / 1000000" by (rule denotesE)
  with p(2,3) s(2,3) c(2) show ?thesis
    unfolding wave_def Let_def by (intro u8_of_double_fits [OF D m(1)]) (simp_all add: abs_le_iff)
qed

section \<open>The loops\<close>

lemma source_object_put_same:
  assumes "source_object ub n st 0 m (s, w)" "n \<le> 65532"
    and "\<And>s' w'. source_object ub n st 0 m (s', w') \<Longrightarrow> returns (f s' w') Q"
  shows "returns (bind_res (atolla_source_put s (Ptr ub 0) n w) (\<lambda>(ok, s', w'). f s' w')) Q"
  using source_object_put_returns [OF assms(1) order_refl assms(2)] assms(3) by (auto elim!: returns_mono)

lemma paint_sine_loop_returns:
  assumes D: "doubles_accurate D val"
  shows "source_object ub 3 st 0 m (s, w) \<Longrightarrow> time_after val i t \<Longrightarrow> i \<le> 589 \<Longrightarrow>
    returns (paint_sine_loop D i t (Ptr ub 0) s w) (source_object ub 3 st 0 m)"
proof (induction "nat (589 - i)" arbitrary: i t s w rule: less_induct)
  case less
  show ?case
  proof (cases "i * 17 < 10000")
    case False
    with less.prems(1) show ?thesis
      by (simp add: paint_sine_loop.simps [of D i] frame_length_ms_def run_time_ms_def)
  next
    case True
    let ?t = "next_time D t"
    have i: "i + 1 \<le> 589" using True by simp
    have t: "time_after val (i + 1) ?t" using time_after_next [OF D less.prems(2,3)] .
    obtain a where a: "val ?t = Some a" "0 \<le> a" "a \<le> 11" by (rule time_after_small [OF t i])
    then obtain col where col: "wave D ?t = Inr col" using wave_fits [OF D a(1)] by auto
    have next_round: "returns (paint_sine_loop D (i + 1) ?t (Ptr ub 0) s' w') (source_object ub 3 st 0 m)"
      if "source_object ub 3 st 0 m (s', w')" for s' w'
      using i by (intro less.hyps that t) simp_all
    have "returns (bind_res (write_cells (Ptr ub 0) [Some col, Some col, Some col] w) (\<lambda>w.
        bind_res (atolla_source_put s (Ptr ub 0) 3 w) (\<lambda>(_, s, w). paint_sine_loop D (i + 1) ?t (Ptr ub 0) s w)))
      (source_object ub 3 st 0 m)"
      using source_object_write [OF less.prems(1), of 0 "[col, col, col]"]
      by (intro returns_bindI source_object_put_same next_round) simp_all
    with True col show ?thesis
      by (simp add: paint_sine_loop.simps [of D i] frame_length_ms_def run_time_ms_def Let_def)
  qed
qed

lemma wave_cases: "wave D x = Inl Bad_conversion \<or> (\<exists>k. wave D x = Inr k)"
  unfolding wave_def Let_def by (rule u8_of_double_cases)

text \<open>After 152 rounds at the latest, the second hue no longer fits a byte.\<close>

lemma hue_overflows:
  assumes D: "doubles_accurate D val" and t: "time_after val 152 t"
  shows "u8_of_double D (d_add D (d_mul D t (d_of_int D 50)) (d_of_int D 128)) = Inl Bad_conversion"
proof -
  from t obtain a where a: "val t = Some a" "169 * 152 / 10000 \<le> a" "a \<le> 171 * 152 / 10000" by (rule time_afterE) simp
  have "denotes val (d_mul D t (d_of_int D 50)) (a * 50)"
    using doubles_accurateD(3) [OF D a(1) doubles_accurateD(1) [OF D, of 50]] a(2,3) by (simp add: abs_le_iff)
  then obtain b where b: "val (d_mul D t (d_of_int D 50)) = Some b" "a * 50 - 1 / 1000000 \<le> b" "b \<le> a * 50 + 1 / 1000000"
    by (rule denotesE)
  have "denotes val (d_add D (d_mul D t (d_of_int D 50)) (d_of_int D 128)) (b + 128)"
    using doubles_accurateD(2) [OF D b(1) doubles_accurateD(1) [OF D, of 128]] a(2,3) b(2,3) by (simp add: abs_le_iff)
  then obtain c where c: "val (d_add D (d_mul D t (d_of_int D 50)) (d_of_int D 128)) = Some c"
    "b + 128 - 1 / 1000000 \<le> c" "c \<le> b + 128 + 1 / 1000000" by (rule denotesE)
  show ?thesis by (rule u8_of_double_overflows [OF D c(1)]) (use a(2,3) b(2,3) c(2,3) in linarith)+
qed

lemma paint_complementary_loop_overflows:
  assumes D: "doubles_accurate D val"
  shows "source_object ub 6 st 0 m (s, w) \<Longrightarrow> time_after val i t \<Longrightarrow> i \<le> 151 \<Longrightarrow>
    paint_complementary_loop D i t (Ptr ub 0) s w = Inl Bad_conversion"
proof (induction "nat (151 - i)" arbitrary: i t s w rule: less_induct)
  case less
  let ?t = "next_time D t"
  have t: "time_after val (i + 1) ?t" using time_after_next [OF D less.prems(2)] less.prems(3) by simp
  let ?hue = "u8_of_double D (d_mul D ?t (d_of_int D 50))"
  let ?hue2 = "u8_of_double D (d_add D (d_mul D ?t (d_of_int D 50)) (d_of_int D 128))"
  have round: "i * frame_length_ms < run_time_ms"
    using less.prems(3) by (simp add: frame_length_ms_def run_time_ms_def)
  show ?case
  proof (cases "\<exists>col hue hue2. wave D (d_mul D ?t (d_of_int D 10)) = Inr col \<and> ?hue = Inr hue \<and> ?hue2 = Inr hue2")
    case True
    then obtain col hue hue2 where conv: "wave D (d_mul D ?t (d_of_int D 10)) = Inr col" "?hue = Inr hue" "?hue2 = Inr hue2"
      by blast
    from conv(3) have "i \<noteq> 151" using hue_overflows [OF D, of ?t] t by auto
    then have i: "i + 1 \<le> 151" using less.prems(3) by simp
    define a where "a = HsvToRgb \<lparr>hsv_h = hue, hsv_s = 255, hsv_v = col\<rparr>"
    define b where "b = HsvToRgb \<lparr>hsv_h = hue2, hsv_s = 255, hsv_v = col\<rparr>"
    obtain w1 where w1: "write_cells (Ptr ub 0) (map Some [rgb_r a, rgb_g a, rgb_b a]) w = Inr w1"
      "source_object ub 6 st 0 m (s, w1)"
      using source_object_write [OF less.prems(1), of 0 "[rgb_r a, rgb_g a, rgb_b a]"] by (auto simp: returns_iff)
    obtain w2 where w2: "write_cells (Ptr ub 3) (map Some [rgb_r b, rgb_g b, rgb_b b]) w1 = Inr w2"
      "source_object ub 6 st 0 m (s, w2)"
      using source_object_write [OF w1(2), of 3 "[rgb_r b, rgb_g b, rgb_b b]"] by (auto simp: returns_iff)
    obtain ok s3 w3 where put: "atolla_source_put s (Ptr ub 0) 6 w2 = Inr (ok, s3, w3)"
      "source_object ub 6 st 0 m (s3, w3)"
      using source_object_put_returns [OF w2(2), of 6] by (auto simp: returns_iff)
    have "paint_complementary_loop D (i + 1) ?t (Ptr ub 0) s3 w3 = Inl Bad_conversion"
      using i by (intro less.hyps put(2) t) simp_all
    with round conv w1(1) w2(1) put(1) show ?thesis
      by (simp add: paint_complementary_loop.simps [of D i] Let_def flip: a_def b_def)
  next
    case False
    then consider "wave D (d_mul D ?t (d_of_int D 10)) = Inl Bad_conversion"
      | col where "wave D (d_mul D ?t (d_of_int D 10)) = Inr col" "?hue = Inl Bad_conversion"
      | col hue where "wave D (d_mul D ?t (d_of_int D 10)) = Inr col" "?hue = Inr hue" "?hue2 = Inl Bad_conversion"
      using wave_cases u8_of_double_cases by metis
    then show ?thesis
    proof cases
      case 3
      define a where "a = HsvToRgb \<lparr>hsv_h = hue, hsv_s = 255, hsv_v = col\<rparr>"
      obtain w1 where "write_cells (Ptr ub 0) (map Some [rgb_r a, rgb_g a, rgb_b a]) w = Inr w1"
        using source_object_write [OF less.prems(1), of 0 "[rgb_r a, rgb_g a, rgb_b a]"] by (auto simp: returns_iff)
      with round 3 show ?thesis
        by (simp add: paint_complementary_loop.simps [of D i] Let_def flip: a_def)
    qed (use round in \<open>simp_all add: paint_complementary_loop.simps [of D i] Let_def\<close>)
  qed
qed

section \<open>Painting\<close>

lemma paint_sine_returns:
  assumes "doubles_accurate D val" "source_ok s w" "source_env w"
  shows "returns (paint_sine D s w) (\<lambda>x. True)"
proof -
  let ?w = "snd (enter_array (map Some [1, 2, 3]) w)"
  have "source_object (next_block w) 3 (src_state s) 0 (\<lambda>b. None) (s, ?w)"
    using source_object_enter [OF assms(2,3), of "[1, 2, 3]"] by (simp add: numeral_3_eq_3)
  from paint_sine_loop_returns [OF assms(1) this time_after_start [OF assms(1)]] show ?thesis
    by (fastforce simp: paint_sine_def enter_array_def returns_iff)
qed

lemma paint_complementary_fails:
  assumes "doubles_accurate D val" "source_ok s w" "source_env w"
  shows "paint_complementary D s w = Inl Bad_conversion"
proof -
  let ?w = "snd (enter_array (map Some [1, 2, 3, 4, 5, 6]) w)"
  have "source_object (next_block w) 6 (src_state s) 0 (\<lambda>b. None) (s, ?w)"
    using source_object_enter [OF assms(2,3), of "[1, 2, 3, 4, 5, 6]"] by (simp add: eval_nat_numeral)
  from paint_complementary_loop_overflows [OF assms(1) this time_after_start [OF assms(1)]] show ?thesis
    by (simp add: paint_complementary_def enter_array_def)
qed

end
