(* ===== verification/Example_Properties.thy ===== *)
theory Example_Properties
  imports Example_Sink Example_Waves Sample_Worlds
begin

text \<open>What the example programs do with the library.\<close>

section \<open>The window of a sink\<close>

lemma read_unset: "blocks h b = Some (replicate n None) \<Longrightarrow> 0 < n \<Longrightarrow> read_bytes (Ptr b 0) n h = Inl Indeterminate"
  by (cases n) (simp_all add: read_bytes_def read_cells_block determinate_def)

text \<open>
  C27. The round of the example in which a borrower gets the sink: if no frame waits, the program colours
  its window with an array that was never written, because it does not look at the result of
  \<^verbatim>\<open>atolla_sink_get\<close>. If frames of an earlier borrower still wait, it shows the first of them to the
  new borrower, because a new lease does not drop them.
\<close>

theorem first_frame_of_a_lease:
  assumes rep: "represents s w v" and state: "sv_state v = ATOLLA_SINK_STATE_OPEN" and whole: "sends_whole (os w)"
    and inc: "incoming w (encode (Borrow i fl bl)) addr" and served: "10 \<le> unat fl" "unat bl \<le> 128"
    and fresh: "next_block w \<notin> set (sink_blocks s)"
  shows "case sv_frames v of
      [] \<Rightarrow> show_sink s w = Inl Indeterminate
    | f # fs \<Rightarrow> returns (show_sink s w) (\<lambda>(color, s', w'). color = Shown (take 3 f))"
proof -
  from sink_hears_borrow [OF rep state whole inc served] obtain s1 w1 v1 where call: "atolla_sink_state s w = Inr (ATOLLA_SINK_STATE_LENT, s1, w1)"
    and rep1: "represents s1 w1 v1"
    and v1: "sv_state v1 = ATOLLA_SINK_STATE_LENT" "sv_frames v1 = sv_frames v" "sv_origin v1 = NULL_TIME"
      "sv_frame_size v1 = sv_frame_size v"
    and keeps: "keeps (s, w) (s1, w1)"
    by (auto simp: returns_iff)
  then have kept: "sink_blocks s1 = sink_blocks s" "next_block w1 = next_block w"
    by (simp_all add: keeps_def shape_def)
  define fb where "fb = next_block w"
  define wa where "wa = snd (enter_array (replicate 3 None) w1)"
  have fresh1: "next_block w1 \<notin> set (sink_blocks s1)" using fresh kept by simp
  have array: "enter_array (replicate 3 None) w1 = (Ptr fb 0, wa)"
    using kept(2) by (simp add: enter_array_def fb_def wa_def)
  note entered = represents_enter [OF rep1 fresh1, of "replicate 3 None", folded wa_def kept(2)]
  let ?step = "get_step (clock (os wa) (tick wa)) v1"
  have get: "returns (atolla_sink_get s1 (Ptr fb 0) 3 wa) (\<lambda>(ok, s', w').
      blocks w' fb = Some (if fst ?step then overlay 0 (cycle 3 (sv_shown (snd ?step))) (replicate 3 None)
        else replicate 3 None))"
    using atolla_sink_get_refines [OF entered(1), of fb "replicate 3 None" 0 3] entered(2) kept(2)
    by (auto simp: shown_to_def fb_def split_def elim!: returns_mono)
  show ?thesis
  proof (cases "sv_frames v")
    case Nil
    then have "\<not> fst ?step" using v1 by (simp add: get_step_def)
    with get obtain ok s2 w2 where "atolla_sink_get s1 (Ptr fb 0) 3 wa = Inr (ok, s2, w2)"
      "blocks w2 fb = Some (replicate 3 None)"
      by (auto simp: returns_iff)
    with Nil call array show ?thesis by (simp add: show_sink_def Let_def read_unset)
  next
    case (Cons f fs)
    have "3 \<le> sv_frame_size v1" "length f = sv_frame_size v1"
      using rep1 Cons v1(2) by (auto simp: represents_def view_ok_def)
    then have "cycle 3 (map Some f) = map Some (take 3 f)" "length (take 3 f) = 3"
      by (simp_all add: cycle_short take_map)
    moreover have "fst ?step" "sv_shown (snd ?step) = map Some f"
      using v1 Cons by (simp_all add: get_step_def show_frames_def)
    ultimately obtain ok s2 w2 where "atolla_sink_get s1 (Ptr fb 0) 3 wa = Inr (ok, s2, w2)"
      "blocks w2 fb = Some (map Some (take 3 f))"
      using get by (auto simp: returns_iff overlay_def)
    moreover from this have "read_bytes (Ptr fb 0) 3 w2 = Inr (take 3 f)"
      using \<open>length (take 3 f) = 3\<close> by (intro read_bytes_block) auto
    ultimately show ?thesis using Cons call array by (simp add: show_sink_def Let_def)
  qed
qed

theorem first_frame_of_a_lease_witness:
  "show_sink (sample_sink ATOLLA_SINK_STATE_OPEN (sender_of []) 9 0)
      (sample_sink_world (sample_os 1 (hears [Borrow 7 20 16] [7, 7])) []) = Inl Indeterminate \<and>
   returns (show_sink (sample_sink ATOLLA_SINK_STATE_OPEN (sender_of []) 9 1)
      (sample_sink_world (sample_os 1 (hears [Borrow 7 20 16] [7, 7])) [[1, 2, 3]]))
    (\<lambda>(color, s', w'). color = Shown [1, 2, 3])"
proof -
  let ?w = "sample_sink_world (sample_os 1 (hears [Borrow 7 20 16] [7, 7]))"
  have inc: "incoming (?w fs) (encode (Borrow 7 20 16)) [7, 7]" for fs
    using sample_sink_world_simps(4) [of 1 "[Borrow 7 20 16]" "[7, 7]" fs] by (simp del: encode.simps)
  have rep: "length fs \<le> 128 \<Longrightarrow> list_all (\<lambda>f. length f = 3) fs \<Longrightarrow>
      represents (sample_sink ATOLLA_SINK_STATE_OPEN (sender_of []) 9 (length fs)) (?w fs)
        (sample_view ATOLLA_SINK_STATE_OPEN (sender_of []) 9 fs)" for fs
    by (rule sample_represents) simp_all
  have fresh: "next_block (?w fs) \<notin> set (sink_blocks (sample_sink ATOLLA_SINK_STATE_OPEN (sender_of []) 9 n))" for fs n
    by (simp add: sample_sink_world_def sink_blocks_def sample_sink_def)
  show ?thesis
    using first_frame_of_a_lease [OF rep [of "[]"] _ _ inc _ _ fresh]
      first_frame_of_a_lease [OF rep [of "[[1, 2, 3]]"] _ _ inc _ _ fresh]
    by (simp add: sample_view_def)
qed

section \<open>Colours\<close>

text \<open>
  C30. \<^verbatim>\<open>HsvToRgb\<close> computes the reference colour exactly: no intermediate result is cut off when it is
  stored in 8 bits. The brightest channel is the value, in the sector of the hue, the darkest one is
  the value scaled by the missing saturation.
\<close>

theorem hsv_to_rgb_exact:
  "(let rgb = HsvToRgb hsv; r = unat (rgb_r rgb); g = unat (rgb_g rgb); b = unat (rgb_b rgb);
        h = unat (hsv_h hsv); s = unat (hsv_s hsv); v = unat (hsv_v hsv) in
    (r, g, b) = reference_rgb h s v \<and>
    max r (max g b) = v \<and> min r (min g b) = (if s = 0 then v else v * (255 - s) div 256) \<and>
    (if h div 43 \<in> {1, 2} then g = v else if h div 43 \<in> {3, 4} then b = v else r = v))"
proof -
  obtain r g b where rgb: "r = unat (rgb_r (HsvToRgb hsv))" "g = unat (rgb_g (HsvToRgb hsv))" "b = unat (rgb_b (HsvToRgb hsv))"
    by blast
  define h s v where hsv: "h = unat (hsv_h hsv)" "s = unat (hsv_s hsv)" "v = unat (hsv_v hsv)"
  have ref: "(r, g, b) = reference_rgb h s v" unfolding rgb hsv by (rule HsvToRgb_reference)
  have "h div 43 \<le> 255 div 43" unfolding hsv using unat_u8_le by (intro div_le_mono)
  then have sector: "h div 43 = 0 \<or> h div 43 = 1 \<or> h div 43 = 2 \<or> h div 43 = 3 \<or> h div 43 = 4 \<or> h div 43 = 5"
    by simp linarith
  have "h mod 43 \<le> 42" using mod_less_divisor [of 43 h] by linarith
  then have x: "h mod 43 * 6 \<le> 255" by simp
  note falling = faded_bounds [OF x, of v s] and rising = faded_bounds [of "255 - h mod 43 * 6" v s, OF diff_le_self]
  have "max r (max g b) = v \<and> min r (min g b) = (if s = 0 then v else v * (255 - s) div 256) \<and>
    (if h div 43 \<in> {1, 2} then g = v else if h div 43 \<in> {3, 4} then b = v else r = v)"
  proof (cases "s = 0")
    case True
    then show ?thesis using ref by (simp add: reference_rgb_def)
  next
    case False
    have low: "v * (255 - s) div 256 \<le> v" using falling by (rule order_trans)
    show ?thesis
      using sector ref False falling rising low
      by (elim disjE) (simp_all add: reference_rgb_def Let_def max_def min_def)
  qed
  with ref show ?thesis unfolding Let_def rgb hsv by blast
qed

section \<open>Programs that paint\<close>








end
